(* ===== verification/Prelude.thy ===== *)
theory Prelude
  imports Main "HOL-Library.Word"
begin

unbundle bit_operations_syntax

text \<open>
  What the other theories share: the outcomes a piece of the daemon can have, the state
  monad over them in which every C function that touches shared state is written, the two
  program logics the proofs use (a partial triple and the frame rule it gives), and the
  collections of simplification rules.

  An execution of C code ends in one of four ways. \<open>Ret\<close> is a normal return. \<open>Exit\<close> is
  the end of the process: \<open>log_msg\<close> calls \<open>exit(1)\<close> after every message of severity
  \<open>LOG_ERR\<close>, so an error message is also a control transfer. \<open>Undef\<close> is undefined
  behaviour that stops the model: a NULL or dangling pointer is dereferenced, freed memory
  is freed again, or an array is written out of its bounds; the string names the fault.
  \<open>Loop\<close> is a loop that does not end.
\<close>

datatype 'a outcome = Ret 'a | Exit string | Undef string | Loop

type_synonym ('s, 'a) prog = "'s \<Rightarrow> ('a \<times> 's) outcome"

named_theorems prog_defs \<open>the primitives of the monad, for symbolic execution\<close>
named_theorems flow \<open>rules that run one step of a program\<close>

subsection \<open>The monad\<close>

definition ret :: "'a \<Rightarrow> ('s, 'a) prog" where
  [prog_defs]: "ret x = (\<lambda>w. Ret (x, w))"

definition bnd :: "('s, 'a) prog \<Rightarrow> ('a \<Rightarrow> ('s, 'b) prog) \<Rightarrow> ('s, 'b) prog" where
  [prog_defs]: "bnd m k = (\<lambda>w. case m w of
      Ret (x, w') \<Rightarrow> k x w'
    | Exit e \<Rightarrow> Exit e
    | Undef e \<Rightarrow> Undef e
    | Loop \<Rightarrow> Loop)"

definition andthen :: "('s, 'a) prog \<Rightarrow> ('s, 'b) prog \<Rightarrow> ('s, 'b) prog" where
  [prog_defs]: "andthen m k = bnd m (\<lambda>_. k)"

definition undef :: "string \<Rightarrow> ('s, 'a) prog" where
  [prog_defs]: "undef e = (\<lambda>w. Undef e)"

definition asks :: "('s \<Rightarrow> 'a) \<Rightarrow> ('s, 'a) prog" where
  [prog_defs]: "asks f = (\<lambda>w. Ret (f w, w))"

definition modify :: "('s \<Rightarrow> 's) \<Rightarrow> ('s, unit) prog" where
  [prog_defs]: "modify f = (\<lambda>w. Ret ((), f w))"

text \<open>A computation that reads and writes no state, run inside the monad.\<close>

definition lift :: "'a outcome \<Rightarrow> ('s, 'a) prog" where
  [prog_defs]: "lift r = (\<lambda>w. case r of
      Ret x \<Rightarrow> Ret (x, w)
    | Exit e \<Rightarrow> Exit e
    | Undef e \<Rightarrow> Undef e
    | Loop \<Rightarrow> Loop)"

text \<open>Dereferencing: the value, or the named fault.\<close>

definition deref :: "string \<Rightarrow> 'a option \<Rightarrow> ('s, 'a) prog" where
  [prog_defs]: "deref e p = (case p of None \<Rightarrow> undef e | Some x \<Rightarrow> ret x)"

text \<open>Sequencing of pure computations that can fail.\<close>

definition obind :: "'a outcome \<Rightarrow> ('a \<Rightarrow> 'b outcome) \<Rightarrow> 'b outcome" where
  "obind r k = (case r of
      Ret x \<Rightarrow> k x
    | Exit e \<Rightarrow> Exit e
    | Undef e \<Rightarrow> Undef e
    | Loop \<Rightarrow> Loop)"

lemma obind_simps [simp, flow]:
  "obind (Ret x) f = f x"
  "obind (Exit e) f = Exit e"
  "obind (Undef e) f = Undef e"
  "obind Loop f = Loop"
  by (simp_all add: obind_def)

lemma obind_Ret_iff: "obind r k = Ret y \<longleftrightarrow> (\<exists>x. r = Ret x \<and> k x = Ret y)"
  by (cases r) simp_all

definition each :: "('a \<Rightarrow> ('s, unit) prog) \<Rightarrow> 'a list \<Rightarrow> ('s, unit) prog" where
  "each f xs = foldr (\<lambda>x k. andthen (f x) k) xs (ret ())"

lemma each_simps [simp, flow]:
  "each f [] = ret ()"
  "each f (x # xs) = andthen (f x) (each f xs)"
  by (simp_all add: each_def)

subsection \<open>Laws\<close>

lemma ret_run [simp, flow]: "ret x w = Ret (x, w)"
  by (simp add: ret_def)

lemma undef_run [simp, flow]: "undef e w = Undef e"
  by (simp add: undef_def)

lemma asks_run [simp, flow]: "asks f w = Ret (f w, w)"
  by (simp add: asks_def)

lemma modify_run [simp, flow]: "modify f w = Ret ((), f w)"
  by (simp add: modify_def)

lemma lift_run [simp, flow]:
  "lift (Ret x) w = Ret (x, w)"
  "lift (Exit e) w = Exit e"
  "lift (Undef e) w = Undef e"
  "lift Loop w = Loop"
  by (simp_all add: lift_def)

lemma deref_simps [simp, flow]:
  "deref e (Some x) = ret x"
  "deref e None = undef e"
  by (simp_all add: deref_def)

lemma bnd_run: "bnd m k w = (case m w of
      Ret (x, w') \<Rightarrow> k x w' | Exit e \<Rightarrow> Exit e | Undef e \<Rightarrow> Undef e | Loop \<Rightarrow> Loop)"
  by (simp add: bnd_def)

lemma bnd_Ret [flow]: "m w = Ret (x, w') \<Longrightarrow> bnd m k w = k x w'"
  by (simp add: bnd_def)

lemma bnd_Undef [flow]: "m w = Undef e \<Longrightarrow> bnd m k w = Undef e"
  by (simp add: bnd_def)

lemma bnd_Exit [flow]: "m w = Exit e \<Longrightarrow> bnd m k w = Exit e"
  by (simp add: bnd_def)

lemma bnd_Loop [flow]: "m w = Loop \<Longrightarrow> bnd m k w = Loop"
  by (simp add: bnd_def)

lemma bnd_simps [simp]:
  "bnd (ret x) k = k x"
  "bnd (undef e) k = undef e"
  "bnd (asks f) k w = k (f w) w"
  "bnd (modify g) k2 w = k2 () (g w)"
  by (simp_all add: fun_eq_iff bnd_def)

lemma bnd_assoc: "bnd (bnd m k) l = bnd m (\<lambda>x. bnd (k x) l)"
  by (auto simp: bnd_def fun_eq_iff split: outcome.splits)

lemma bnd_ret_right [simp]: "bnd m ret = m"
  by (auto simp: bnd_def fun_eq_iff split: outcome.splits)

lemma bnd_Ret_iff:
  "bnd m k w = Ret (y, w') \<longleftrightarrow> (\<exists>x w1. m w = Ret (x, w1) \<and> k x w1 = Ret (y, w'))"
  by (auto simp: bnd_def split: outcome.splits)

lemma andthen_run [flow]: "andthen m k w = bnd m (\<lambda>_. k) w"
  by (simp add: andthen_def)

lemma andthen_Ret_iff:
  "andthen m k w = Ret (y, w') \<longleftrightarrow> (\<exists>x w1. m w = Ret (x, w1) \<and> k w1 = Ret (y, w'))"
  by (simp add: andthen_def bnd_Ret_iff)

lemma andthen_unit_Ret:
  "andthen m k w = Ret (y, w') \<longleftrightarrow> (\<exists>w1. m w = Ret ((), w1) \<and> k w1 = Ret (y, w'))"
  by (simp add: andthen_Ret_iff)

subsection \<open>Partial triples\<close>

text \<open>
  \<open>triple P m Q\<close>: whenever \<open>m\<close> starts in a state with \<open>P\<close> and returns, its result and
  final state satisfy \<open>Q\<close>. \<open>keeps I m\<close> is the triple whose pre- and postcondition are one
  invariant. The rules below let an invariant be carried through a function by
  \<open>intro\<close>.
\<close>

definition triple :: "('s \<Rightarrow> bool) \<Rightarrow> ('s, 'a) prog \<Rightarrow> ('a \<Rightarrow> 's \<Rightarrow> bool) \<Rightarrow> bool" where
  "triple P m Q \<longleftrightarrow> (\<forall>w x w'. P w \<longrightarrow> m w = Ret (x, w') \<longrightarrow> Q x w')"

definition keeps :: "('s \<Rightarrow> bool) \<Rightarrow> ('s, 'a) prog \<Rightarrow> bool" where
  "keeps I m \<longleftrightarrow> triple I m (\<lambda>_. I)"

named_theorems keeps_rules \<open>rules that carry an invariant through a program\<close>

lemma tripleD: "triple P m Q \<Longrightarrow> P w \<Longrightarrow> m w = Ret (x, w') \<Longrightarrow> Q x w'"
  by (auto simp: triple_def)

lemma triple_bnd:
  "triple P m R \<Longrightarrow> (\<And>x. triple (R x) (k x) Q) \<Longrightarrow> triple P (bnd m k) Q"
  unfolding triple_def bnd_Ret_iff by blast

lemma keepsD: "keeps I m \<Longrightarrow> m w = Ret (x, w') \<Longrightarrow> I w \<Longrightarrow> I w'"
  by (auto simp: keeps_def triple_def)

lemma keepsI: "(\<And>w x w'. I w \<Longrightarrow> m w = Ret (x, w') \<Longrightarrow> I w') \<Longrightarrow> keeps I m"
  by (auto simp: keeps_def triple_def)

lemma keeps_ret [keeps_rules]: "keeps I (ret x)"
  by (auto simp: keeps_def triple_def)

lemma keeps_undef [keeps_rules]: "keeps I (undef e)"
  by (auto simp: keeps_def triple_def)

lemma keeps_asks [keeps_rules]: "keeps I (asks f)"
  by (auto simp: keeps_def triple_def)

lemma keeps_lift [keeps_rules]: "keeps I (lift r)"
  by (cases r) (auto simp: keeps_def triple_def)

lemma keeps_deref [keeps_rules]: "keeps I (deref e p)"
  by (cases p) (auto intro: keeps_rules)

lemma keeps_modify: "(\<And>w. I w \<Longrightarrow> I (f w)) \<Longrightarrow> keeps I (modify f)"
  by (auto simp: keeps_def triple_def)

lemma keeps_bnd [keeps_rules]:
  "keeps I m \<Longrightarrow> (\<And>x. keeps I (k x)) \<Longrightarrow> keeps I (bnd m k)"
  unfolding keeps_def by (rule triple_bnd)

text \<open>When the rest of a program keeps the invariant only for the results its first part can have.\<close>

lemma keeps_bnd_result:
  "keeps I m \<Longrightarrow> (\<And>x w w'. m w = Ret (x, w') \<Longrightarrow> keeps I (k x)) \<Longrightarrow> keeps I (bnd m k)"
  by (rule keepsI) (metis bnd_Ret_iff keepsD)

lemma keeps_bnd_asks: "(\<And>w. keeps I (k (f w))) \<Longrightarrow> keeps I (bnd (asks f) k)"
  by (auto simp: keeps_def triple_def bnd_Ret_iff)

lemma keeps_bnd_lift: "(\<And>x. r = Ret x \<Longrightarrow> keeps I (k x)) \<Longrightarrow> keeps I (bnd (lift r) k)"
  by (cases r) (auto simp: keeps_def triple_def bnd_def)

lemma keeps_bnd_deref: "(\<And>x. p = Some x \<Longrightarrow> keeps I (k x)) \<Longrightarrow> keeps I (bnd (deref e p) k)"
  by (cases p) (auto simp: keeps_def triple_def bnd_Ret_iff)

lemma keeps_andthen [keeps_rules]:
  "keeps I m \<Longrightarrow> keeps I k \<Longrightarrow> keeps I (andthen m k)"
  by (simp add: andthen_def keeps_bnd)

lemma keeps_if [keeps_rules]:
  "(b \<Longrightarrow> keeps I m) \<Longrightarrow> (\<not> b \<Longrightarrow> keeps I k) \<Longrightarrow> keeps I (if b then m else k)"
  by simp

lemma keeps_option [keeps_rules]:
  "(p = None \<Longrightarrow> keeps I m) \<Longrightarrow> (\<And>x. p = Some x \<Longrightarrow> keeps I (k x)) \<Longrightarrow>
   keeps I (case p of None \<Rightarrow> m | Some x \<Rightarrow> k x)"
  by (cases p) simp_all

lemma keeps_sum [keeps_rules]:
  "(\<And>x. p = Inl x \<Longrightarrow> keeps I (m x)) \<Longrightarrow> (\<And>x. p = Inr x \<Longrightarrow> keeps I (k x)) \<Longrightarrow>
   keeps I (case p of Inl x \<Rightarrow> m x | Inr x \<Rightarrow> k x)"
  by (cases p) simp_all

lemma keeps_prod [keeps_rules]:
  "(\<And>x y. p = (x, y) \<Longrightarrow> keeps I (k x y)) \<Longrightarrow> keeps I (case p of (x, y) \<Rightarrow> k x y)"
  by (cases p) simp_all

lemma keeps_each [keeps_rules]: "(\<And>x. keeps I (f x)) \<Longrightarrow> keeps I (each f xs)"
  by (induction xs) (auto intro: keeps_rules)

subsection \<open>Bytes\<close>

type_synonym u8 = "8 word"

text \<open>
  A field of two bytes in network order. \<open>be16\<close> is what \<open>ntohs\<close> of the field gives,
  \<open>put16\<close> is the field that \<open>htons\<close> of an \<open>int\<close> stores, with its truncation to 16 bits.
  No definition depends on the byte order of the host.
\<close>

definition be16 :: "u8 \<Rightarrow> u8 \<Rightarrow> nat" where
  "be16 a b = unat a * 256 + unat b"

definition put16 :: "nat \<Rightarrow> u8 list" where
  "put16 n = [word_of_nat (n div 256), word_of_nat n]"

lemma be16_bound: "be16 a b < 65536"
proof -
  have "unat a < 256" "unat b < 256"
    using unsigned_less [of a, where ?'a = nat] unsigned_less [of b, where ?'a = nat] by simp_all
  then show ?thesis by (simp add: be16_def)
qed

lemma be16_put16: "be16 (word_of_nat (n div 256)) (word_of_nat n) = n mod 65536"
proof -
  have "n mod 65536 = n div 256 mod 256 * 256 + n mod 256"
    using mod_mult2_eq [of n 256 256] by simp
  then show ?thesis
    by (simp add: be16_def unsigned_of_nat take_bit_eq_mod)
qed

lemma length_put16 [simp]: "length (put16 n) = 2"
  by (simp add: put16_def)

text \<open>Reading a field of a packet: \<open>None\<close> when it lies outside the memory of the packet.\<close>

definition rd8 :: "u8 list \<Rightarrow> nat \<Rightarrow> u8 option" where
  "rd8 p i = (if i < length p then Some (p ! i) else None)"

definition rd16 :: "u8 list \<Rightarrow> nat \<Rightarrow> nat option" where
  "rd16 p i = (if Suc i < length p then Some (be16 (p ! i) (p ! Suc i)) else None)"

definition slice :: "nat \<Rightarrow> nat \<Rightarrow> 'a list \<Rightarrow> 'a list" where
  "slice i n p = take n (drop i p)"

lemma rd16_put16: "rd16 (put16 n @ xs) 0 = Some (n mod 65536)"
  by (simp add: rd16_def put16_def be16_put16)

lemma length_slice [simp]: "length (slice i n p) = min n (length p - i)"
  by (simp add: slice_def)

end
