(* ===== verification/Linked.thy ===== *)
theory Linked
  imports Prelude
begin

text \<open>
  Singly linked lists through a pointer store. The daemon keeps its hosts and its
  listeners in lists threaded through a \<open>next\<close> field and walks them with
  \<open>for (n = head; n != NULL; n = n->next)\<close>. The store maps an address to a record or
  to \<open>None\<close> (never allocated, or freed); the walk of a list that is cyclic and holds no
  hit does not end, which \<open>partial_function (option)\<close> turns into the value \<open>None\<close>.

  The locale \<open>linked\<close> is the interface between the record type of a list and the facts
  about walks and appends; \<open>World\<close> interprets it for hosts and for listeners.
\<close>

type_synonym addr = nat

datatype walk = Hit addr | End | Dangling

partial_function (option) ll_walk ::
  "(addr \<Rightarrow> 'n option) \<Rightarrow> ('n \<Rightarrow> addr option) \<Rightarrow> ('n \<Rightarrow> bool) \<Rightarrow> addr option \<Rightarrow> walk option" where
  "ll_walk store nxt P p =
     (case p of
        None \<Rightarrow> Some End
      | Some a \<Rightarrow> (case store a of
            None \<Rightarrow> Some Dangling
          | Some n \<Rightarrow> if P n then Some (Hit a) else ll_walk store nxt P (nxt n)))"

lemma ll_walk_None [simp]: "ll_walk store nxt P None = Some End"
  by (simp add: ll_walk.simps)

lemma ll_walk_Some:
  "ll_walk store nxt P (Some a) =
     (case store a of None \<Rightarrow> Some Dangling
      | Some n \<Rightarrow> if P n then Some (Hit a) else ll_walk store nxt P (nxt n))"
  by (simp add: ll_walk.simps)

text \<open>
  \<open>chain store nxt p xs\<close>: following \<open>next\<close> from \<open>p\<close> visits exactly the addresses \<open>xs\<close>
  and then NULL. A list with a chain is finite and has no dangling pointer.
\<close>

fun chain :: "(addr \<Rightarrow> 'n option) \<Rightarrow> ('n \<Rightarrow> addr option) \<Rightarrow> addr option \<Rightarrow> addr list \<Rightarrow> bool" where
  "chain store nxt p [] = (p = None)"
| "chain store nxt p (a # xs) =
     (p = Some a \<and> (case store a of None \<Rightarrow> False | Some n \<Rightarrow> chain store nxt (nxt n) xs))"

lemma chain_unique: "chain store nxt p xs \<Longrightarrow> chain store nxt p ys \<Longrightarrow> xs = ys"
proof (induction xs arbitrary: p ys)
  case Nil
  then show ?case by (cases ys) auto
next
  case (Cons a xs)
  then show ?case by (cases ys) (auto split: option.splits)
qed

lemma chain_alloc: "chain store nxt p xs \<Longrightarrow> a \<in> set xs \<Longrightarrow> \<exists>n. store a = Some n"
  by (induction xs arbitrary: p) (auto split: option.splits)

lemma chain_suffix:
  "chain store nxt p (xs @ a # ys) \<Longrightarrow> chain store nxt (Some a) (a # ys)"
proof (induction xs arbitrary: p)
  case Nil
  then show ?case by simp
next
  case (Cons b xs)
  then obtain n where "chain store nxt (nxt n) (xs @ a # ys)"
    by (auto split: option.splits)
  then show ?case by (rule Cons.IH)
qed

lemma find_split: "\<forall>y \<in> set ys. \<not> P y \<Longrightarrow> P b \<Longrightarrow> find P (ys @ b # zs) = Some b"
  by (induction ys) auto

text \<open>No address occurs twice: two different suffixes cannot start at the same address.\<close>

lemma chain_distinct: "chain store nxt p xs \<Longrightarrow> distinct xs"
proof (rule ccontr)
  assume c: "chain store nxt p xs" and "\<not> distinct xs"
  then obtain us a vs ws where xs: "xs = us @ a # vs @ a # ws"
    using not_distinct_decomp [of xs] by auto
  have "chain store nxt (Some a) (a # vs @ a # ws)"
    by (rule chain_suffix [of store nxt p us]) (use c xs in simp)
  moreover have "chain store nxt (Some a) (a # ws)"
    by (rule chain_suffix [of store nxt p "us @ a # vs"]) (use c xs in simp)
  ultimately have "a # vs @ a # ws = a # ws"
    by (rule chain_unique)
  then show False by (auto dest: arg_cong [of _ _ length])
qed

lemma chain_next_mem:
  "chain store nxt p xs \<Longrightarrow> a \<in> set xs \<Longrightarrow> nxt (the (store a)) = Some b \<Longrightarrow> b \<in> set xs"
proof (induction xs arbitrary: p)
  case Nil
  then show ?case by simp
next
  case (Cons c xs)
  then obtain n where n: "store c = Some n" "chain store nxt (nxt n) xs"
    by (auto split: option.splits)
  show ?case
  proof (cases "a = c")
    case True
    with n Cons.prems(3) show ?thesis by (cases xs) auto
  next
    case False
    with Cons.IH [OF n(2)] Cons.prems show ?thesis by simp
  qed
qed

text \<open>A walk of a chain is \<open>find\<close> on its addresses.\<close>

lemma walk_chain:
  "chain store nxt p xs \<Longrightarrow>
   ll_walk store nxt P p =
     Some (case find (\<lambda>a. P (the (store a))) xs of None \<Rightarrow> End | Some a \<Rightarrow> Hit a)"
  by (induction xs arbitrary: p) (auto simp: ll_walk_Some split: option.splits)

lemma walk_chain_ex: "chain store nxt p xs \<Longrightarrow>
   ll_walk store nxt P p = Some End \<or> (\<exists>a \<in> set xs. ll_walk store nxt P p = Some (Hit a))"
  by (auto simp: walk_chain find_Some_iff split: option.splits)

lemma walk_Hit:
  assumes "ll_walk store nxt P p = Some (Hit a)"
  shows "\<exists>n. store a = Some n \<and> P n"
proof -
  let ?G = "\<lambda>(((store, nxt), P), p) r. \<forall>a. r = Hit a \<longrightarrow> (\<exists>n. store a = Some n \<and> P n)"
  have "?G (((store, nxt), P), p) (Hit a)"
    by (rule ll_walk.raw_induct [where Pa = ?G, OF _ assms])
       (simp split: option.splits if_splits; fastforce)
  then show ?thesis by simp
qed

text \<open>
  A cyclic list: every node of a set \<open>C\<close> has its successor in \<open>C\<close>. A walk that enters
  \<open>C\<close> and hits nothing there does not end.
\<close>

lemma walk_cycle:
  assumes closed: "\<And>a. a \<in> C \<Longrightarrow> \<exists>n b. store a = Some n \<and> \<not> P n \<and> nxt n = Some b \<and> b \<in> C"
    and "a \<in> C"
  shows "ll_walk store nxt P (Some a) = None"
proof (rule ccontr)
  assume "ll_walk store nxt P (Some a) \<noteq> None"
  then obtain r where r: "ll_walk store nxt P (Some a) = Some r" by auto
  let ?G = "\<lambda>(((s, n), Q), p) (r :: walk).
     s = store \<longrightarrow> n = nxt \<longrightarrow> Q = P \<longrightarrow> (\<forall>a. p = Some a \<longrightarrow> a \<notin> C)"
  have "?G (((store, nxt), P), Some a) r"
  proof (rule ll_walk.raw_induct [where Pa = ?G, OF _ r])
    fix f s n Q p r'
    assume IH: "\<And>s n Q q x. f s n Q q = Some x \<Longrightarrow> ?G (((s, n), Q), q) x"
      and eq: "(case p of None \<Rightarrow> Some End | Some a \<Rightarrow> (case s a of None \<Rightarrow> Some Dangling
            | Some k \<Rightarrow> if Q k then Some (Hit a) else f s n Q (n k))) = Some r'"
    have "b \<notin> C" if same: "s = store" "n = nxt" "Q = P" and p: "p = Some b" for b
    proof
      assume "b \<in> C"
      then obtain k c where k: "store b = Some k" "\<not> P k" "nxt k = Some c" "c \<in> C"
        using closed by blast
      with eq same p have "f store nxt P (Some c) = Some r'" by simp
      from IH [OF this] k(4) show False by simp
    qed
    then show "?G (((s, n), Q), p) r'" by simp
  qed
  with assms(2) show False by simp
qed

text \<open>
  The address a loop with the test \<open>P\<close> stops at, seen as an outcome: a loop that does not
  end is \<open>Loop\<close>, a walk over freed memory is undefined.
\<close>

definition ll_find ::
  "(addr \<Rightarrow> 'n option) \<Rightarrow> ('n \<Rightarrow> addr option) \<Rightarrow> ('n \<Rightarrow> bool) \<Rightarrow> addr option \<Rightarrow> addr option outcome" where
  "ll_find store nxt P p = (case ll_walk store nxt P p of
      None \<Rightarrow> Loop
    | Some (Hit a) \<Rightarrow> Ret (Some a)
    | Some End \<Rightarrow> Ret None
    | Some Dangling \<Rightarrow> Undef ''dangling next'')"

lemma ll_find_chain:
  "chain store nxt p xs \<Longrightarrow> ll_find store nxt P p = Ret (find (\<lambda>a. P (the (store a))) xs)"
  by (auto simp: ll_find_def walk_chain split: option.splits)

text \<open>All nodes of a list, in order.\<close>

partial_function (option) ll_collect ::
  "(addr \<Rightarrow> 'n option) \<Rightarrow> ('n \<Rightarrow> addr option) \<Rightarrow> addr option \<Rightarrow> (unit + addr list) option" where
  "ll_collect store nxt p =
     (case p of
        None \<Rightarrow> Some (Inr [])
      | Some a \<Rightarrow> (case store a of
            None \<Rightarrow> Some (Inl ())
          | Some n \<Rightarrow> Option.bind (ll_collect store nxt (nxt n)) (\<lambda>r.
              Some (case r of Inl u \<Rightarrow> Inl u | Inr as \<Rightarrow> Inr (a # as)))))"

definition ll_nodes :: "(addr \<Rightarrow> 'n option) \<Rightarrow> ('n \<Rightarrow> addr option) \<Rightarrow> addr option \<Rightarrow> addr list outcome" where
  "ll_nodes store nxt p = (case ll_collect store nxt p of
      None \<Rightarrow> Loop
    | Some (Inl _) \<Rightarrow> Undef ''dangling next''
    | Some (Inr as) \<Rightarrow> Ret as)"

lemma ll_collect_chain: "chain store nxt p xs \<Longrightarrow> ll_collect store nxt p = Some (Inr xs)"
proof (induction xs arbitrary: p)
  case Nil
  then show ?case by (simp add: ll_collect.simps)
next
  case (Cons a xs)
  then obtain n where "p = Some a" "store a = Some n" "ll_collect store nxt (nxt n) = Some (Inr xs)"
    by (auto split: option.splits)
  then show ?case by (subst ll_collect.simps) simp
qed

lemma ll_nodes_chain: "chain store nxt p xs \<Longrightarrow> ll_nodes store nxt p = Ret xs"
  by (simp add: ll_nodes_def ll_collect_chain)

subsection \<open>The interface\<close>

locale linked =
  fixes nxt :: "'n \<Rightarrow> addr option"
    and set_nxt :: "addr option \<Rightarrow> 'n \<Rightarrow> 'n"
    and payload :: "'n \<Rightarrow> 'k"
  assumes nxt_set: "nxt (set_nxt p n) = p"
    and payload_set: "payload (set_nxt p n) = payload n"
begin

lemma chain_frame:
  "chain store nxt p xs \<Longrightarrow> (\<And>a. a \<in> set xs \<Longrightarrow> map_option nxt (store' a) = map_option nxt (store a)) \<Longrightarrow>
   chain store' nxt p xs"
proof (induction xs arbitrary: p)
  case Nil
  then show ?case by simp
next
  case (Cons a xs)
  from Cons.prems(1) obtain n where n: "p = Some a" "store a = Some n" "chain store nxt (nxt n) xs"
    by (auto split: option.splits)
  have "map_option nxt (store' a) = map_option nxt (store a)"
    by (rule Cons.prems(2)) simp
  with n obtain m where m: "store' a = Some m" "nxt m = nxt n"
    by auto
  have "chain store' nxt (nxt n) xs"
    using n(3) by (rule Cons.IH) (auto intro: Cons.prems(2))
  with n m show ?case by simp
qed

lemma chain_update_payload:
  assumes "chain store nxt p xs" and "store b = Some n" and "nxt m = nxt n"
  shows "chain (store(b \<mapsto> m)) nxt p xs"
  using assms by (auto intro: chain_frame)

text \<open>Linking a fresh last node: the chain grows by one, the payloads of the others stay.\<close>

lemma chain_append:
  assumes "chain store nxt p (xs @ [a])" and "store a = Some n" and "b \<notin> set (xs @ [a])"
    and "nxt m = None"
  shows "chain (store(b \<mapsto> m, a \<mapsto> set_nxt (Some b) n)) nxt p (xs @ [a, b])"
  using assms(1,3)
proof (induction xs arbitrary: p)
  case Nil
  with assms(2,4) show ?case by (auto simp: nxt_set)
next
  case (Cons c xs)
  from Cons.prems(1) obtain k where k: "p = Some c" "store c = Some k" "chain store nxt (nxt k) (xs @ [a])"
    by (auto split: option.splits)
  have "c \<noteq> a"
    using chain_distinct [OF Cons.prems(1)] by auto
  moreover have "chain (store(b \<mapsto> m, a \<mapsto> set_nxt (Some b) n)) nxt (nxt k) (xs @ [a, b])"
    using k(3) by (rule Cons.IH) (use Cons.prems in auto)
  ultimately show ?case using k Cons.prems by (simp add: fun_upd_def)
qed

text \<open>Unlinking a node: its predecessor gets its successor, and the node can be freed.\<close>

lemma chain_pred:
  "chain store nxt p (ys @ b # a # zs) \<Longrightarrow>
   find (\<lambda>n. nxt (the (store n)) = Some a) (ys @ b # a # zs) = Some b"
proof (induction ys arbitrary: p)
  case Nil
  then show ?case by (auto split: option.splits)
next
  case (Cons c ys)
  from Cons.prems obtain k where k: "store c = Some k" "chain store nxt (nxt k) (ys @ b # a # zs)"
    by (auto split: option.splits)
  have "a \<noteq> hd (ys @ [b])"
    using chain_distinct [OF k(2)] by (cases ys) auto
  moreover have "nxt k = Some (hd (ys @ [b]))" using k(2) by (cases ys) auto
  ultimately show ?case using k Cons.IH [OF k(2)] by simp
qed

lemma chain_remove:
  assumes "chain store nxt p (ys @ b # a # zs)" and "store b = Some m" and "store a = Some n"
  shows "chain ((store(b \<mapsto> set_nxt (nxt n) m))(a := None)) nxt p (ys @ b # zs)"
  using assms(1)
proof (induction ys arbitrary: p)
  case Nil
  then have c: "p = Some b" "chain store nxt (nxt n) zs" using assms(2,3) by (auto split: option.splits)
  have "b \<notin> set zs" "a \<notin> set zs" "a \<noteq> b" using chain_distinct [OF Nil] by auto
  then have "chain ((store(b \<mapsto> set_nxt (nxt n) m))(a := None)) nxt (nxt n) zs"
    by (intro chain_frame [OF c(2)]) auto
  with c(1) \<open>a \<noteq> b\<close> show ?case by (simp add: nxt_set fun_upd_def)
next
  case (Cons c ys)
  from Cons.prems obtain k where k: "p = Some c" "store c = Some k" "chain store nxt (nxt k) (ys @ b # a # zs)"
    by (auto split: option.splits)
  have "c \<noteq> b" "c \<noteq> a" using chain_distinct [OF Cons.prems] by auto
  with k Cons.IH [OF k(3)] show ?case by (simp add: fun_upd_def)
qed

text \<open>The last node of a chain is the only one whose \<open>next\<close> is NULL.\<close>

lemma chain_last_None:
  "chain store nxt p xs \<Longrightarrow> a \<in> set xs \<Longrightarrow> nxt (the (store a)) = None \<longleftrightarrow> a = last xs"
proof (induction xs arbitrary: p)
  case Nil
  then show ?case by simp
next
  case (Cons b xs)
  from Cons.prems(1) obtain n where n: "store b = Some n" "chain store nxt (nxt n) xs"
    by (auto split: option.splits)
  show ?case
  proof (cases xs)
    case Nil
    with n Cons.prems show ?thesis by auto
  next
    case (Cons c ys)
    have "b \<notin> set xs"
      using chain_distinct [OF Cons.prems(1)] by simp
    with Cons n Cons.prems Cons.IH [OF n(2)] show ?thesis by auto
  qed
qed

text \<open>
  The insertion loop of the daemon stops at the first node that is a duplicate or the last
  one. If no node is a duplicate it stops at the last node.
\<close>

lemma insertion_point:
  assumes c: "chain store nxt p xs" and ne: "xs \<noteq> []"
    and nodup: "\<And>a. a \<in> set xs \<Longrightarrow> \<not> D (the (store a))"
  shows "find (\<lambda>a. D (the (store a)) \<or> nxt (the (store a)) = None) xs = Some (last xs)"
proof -
  let ?P = "\<lambda>a. D (the (store a)) \<or> nxt (the (store a)) = None"
  obtain ys b where xs: "xs = ys @ [b]" using ne by (cases xs rule: rev_cases) auto
  have "\<not> ?P a" if "a \<in> set ys" for a
  proof -
    have "a \<noteq> b" using chain_distinct [OF c] that xs by auto
    with that show ?thesis using chain_last_None [OF c, of a] nodup [of a] xs by auto
  qed
  moreover have "?P b" using chain_last_None [OF c, of b] xs by simp
  ultimately show ?thesis
    using xs by (simp add: find_split)
qed

text \<open>If some node is a duplicate, the loop stops at the first duplicate.\<close>

lemma insertion_dup:
  assumes c: "chain store nxt p xs" and d: "a \<in> set xs" "D (the (store a))"
  shows "\<exists>b \<in> set xs. D (the (store b)) \<and>
     find (\<lambda>a. D (the (store a)) \<or> nxt (the (store a)) = None) xs = Some b"
proof -
  let ?D = "\<lambda>a. D (the (store a))"
  let ?P = "\<lambda>a. ?D a \<or> nxt (the (store a)) = None"
  obtain ys b zs where s: "xs = ys @ b # zs" "?D b" "\<And>y. y \<in> set ys \<Longrightarrow> \<not> ?D y"
    using split_list_first_prop [of xs ?D] d by blast
  have "\<not> ?P y" if "y \<in> set ys" for y
  proof -
    have "y \<in> set xs" "y \<noteq> last xs"
      using that s(1) chain_distinct [OF c] by auto
    then show ?thesis using chain_last_None [OF c, of y] s(3) [OF that] by auto
  qed
  then have "find ?P xs = Some b"
    using s by (simp add: find_split)
  with s show ?thesis by auto
qed

end

end
