(* ===== verification/C_String.thy ===== *)
theory C_String
  imports Prelude
begin

text \<open>
  The part of the C string library the daemon uses. A C string is the list of its
  characters without the terminating NUL; a NULL pointer is \<open>None\<close> where the source
  tests for it. \<open>cstr\<close> reads a string out of packet memory, up to the first NUL.
\<close>

subsection \<open>Characters\<close>

definition code :: "char \<Rightarrow> nat" where
  "code c = of_char c"

definition tolower :: "char \<Rightarrow> char" where
  "tolower c = (if 65 \<le> code c \<and> code c \<le> 90 then char_of (code c + 32) else c)"

definition toupper :: "char \<Rightarrow> char" where
  "toupper c = (if 97 \<le> code c \<and> code c \<le> 122 then char_of (code c - 32) else c)"

definition isdigit :: "char \<Rightarrow> bool" where
  "isdigit c \<longleftrightarrow> 48 \<le> code c \<and> code c \<le> 57"

definition isspace :: "char \<Rightarrow> bool" where
  "isspace c \<longleftrightarrow> code c = 32 \<or> 9 \<le> code c \<and> code c \<le> 13"

definition byte_of :: "char \<Rightarrow> u8" where
  "byte_of c = word_of_nat (code c)"

definition char_at :: "u8 \<Rightarrow> char" where
  "char_at b = char_of (unat b)"

definition bytes :: "string \<Rightarrow> u8 list" where
  "bytes s = map byte_of s"

definition cstr :: "u8 list \<Rightarrow> string" where
  "cstr bs = map char_at (takeWhile (\<lambda>b. b \<noteq> 0) bs)"

definition nul_free :: "string \<Rightarrow> bool" where
  "nul_free s \<longleftrightarrow> (\<forall>c \<in> set s. code c \<noteq> 0)"

lemma code_bound: "code c < 256"
  by (simp add: code_def)

lemma code_inject [simp]: "code c = code d \<longleftrightarrow> c = d"
  by (simp add: code_def)

lemma code_char_of [simp]: "code (char_of (n :: nat)) = n mod 256"
  by (simp add: code_def)

lemma char_of_code [simp]: "char_of (code c) = c"
  by (simp add: code_def)

lemma char_at_byte_of [simp]: "char_at (byte_of c) = c"
  using code_bound [of c] by (simp add: char_at_def byte_of_def unsigned_of_nat take_bit_eq_mod)

lemma byte_of_eq_0: "byte_of c = 0 \<longleftrightarrow> code c = 0"
proof -
  have "byte_of c = 0 \<longleftrightarrow> unat (byte_of c) = 0"
    by (simp add: unsigned_eq_0_iff)
  also have "unat (byte_of c) = code c"
    using code_bound [of c] by (simp add: byte_of_def unsigned_of_nat take_bit_eq_mod)
  finally show ?thesis .
qed

lemma length_bytes [simp]: "length (bytes s) = length s"
  by (simp add: bytes_def)

text \<open>A string sent with its terminator is read back, whatever follows it.\<close>

lemma cstr_bytes: "nul_free s \<Longrightarrow> cstr (bytes s @ 0 # rest) = s"
  by (induction s) (auto simp: cstr_def bytes_def nul_free_def byte_of_eq_0)

lemma cstr_nul_free: "nul_free (cstr bs)"
proof -
  have "code (char_at b) \<noteq> 0" if "b \<in> set (takeWhile (\<lambda>b. b \<noteq> 0) bs)" for b
  proof -
    have "b \<noteq> 0" using that by (auto dest: set_takeWhileD)
    then have "unat b \<noteq> 0" by (simp add: unsigned_eq_0_iff)
    moreover have "unat b < 256" using unsigned_less [of b, where ?'a = nat] by simp
    ultimately show ?thesis by (simp add: char_at_def)
  qed
  then show ?thesis by (auto simp: nul_free_def cstr_def)
qed

lemma length_cstr: "length (cstr bs) \<le> length bs"
  by (simp add: cstr_def length_takeWhile_le)

subsection \<open>Comparison\<close>

text \<open>\<open>strcmp(a, b) == 0\<close> is \<open>a = b\<close>; the C locale's \<open>strcasecmp\<close> folds ASCII letters.\<close>

definition strcaseeq :: "string \<Rightarrow> string \<Rightarrow> bool" where
  "strcaseeq a b \<longleftrightarrow> map tolower a = map tolower b"

lemma strcaseeq_refl [simp]: "strcaseeq a a"
  by (simp add: strcaseeq_def)

lemma strcaseeq_sym: "strcaseeq a b \<Longrightarrow> strcaseeq b a"
  by (simp add: strcaseeq_def)

lemma strcaseeq_trans: "strcaseeq a b \<Longrightarrow> strcaseeq b c \<Longrightarrow> strcaseeq a c"
  by (simp add: strcaseeq_def)

subsection \<open>Numbers\<close>

definition digit_val :: "char \<Rightarrow> int" where
  "digit_val c = int (code c) - 48"

fun scan_digits :: "int \<Rightarrow> string \<Rightarrow> int \<times> string" where
  "scan_digits acc [] = (acc, [])"
| "scan_digits acc (c # cs) =
     (if isdigit c then scan_digits (10 * acc + digit_val c) cs else (acc, c # cs))"

definition clamp_long :: "int \<Rightarrow> int" where
  "clamp_long v = max (- (2 ^ 63)) (min (2 ^ 63 - 1) v)"

text \<open>\<open>strtol(s, &p, 10)\<close>: the value and the rest of the string \<open>p\<close> points to.\<close>

definition strtol :: "string \<Rightarrow> int \<times> string" where
  "strtol s =
     (let s1 = dropWhile isspace s;
          neg = (case s1 of c # _ \<Rightarrow> c = CHR ''-'' | [] \<Rightarrow> False);
          s2 = (case s1 of c # cs \<Rightarrow> if c = CHR ''-'' \<or> c = CHR ''+'' then cs else s1 | [] \<Rightarrow> s1)
      in case s2 of
           c # _ \<Rightarrow> if isdigit c
             then (let (v, rest) = scan_digits 0 s2 in (clamp_long (if neg then - v else v), rest))
             else (0, s)
         | [] \<Rightarrow> (0, s))"

text \<open>The conversion of a \<open>long\<close> (or of \<open>time_t\<close>) to a 32-bit \<open>int\<close>.\<close>

definition to_int32 :: "int \<Rightarrow> int" where
  "to_int32 v = sint (word_of_int v :: 32 word)"

lemma to_int32_eq: "to_int32 v = signed_take_bit 31 v"
  by (simp add: to_int32_def signed_of_int)

lemma to_int32_id: "- (2 ^ 31) \<le> v \<Longrightarrow> v < 2 ^ 31 \<Longrightarrow> to_int32 v = v"
  by (simp add: to_int32_eq signed_take_bit_int_eq_self)

lemma to_int32_range: "- (2 ^ 31) \<le> to_int32 v" "to_int32 v < 2 ^ 31"
  using signed_take_bit_int_greater_eq_minus_exp [of 31 v] signed_take_bit_int_less_exp [of 31 v]
  by (simp_all add: to_int32_eq)

text \<open>Decimal output, \<open>%d\<close> of a number that is not negative.\<close>

fun show_nat :: "nat \<Rightarrow> string" where
  "show_nat n = (if n < 10 then [char_of (48 + n)] else show_nat (n div 10) @ [char_of (48 + n mod 10)])"

declare show_nat.simps [simp del]

definition show_int :: "int \<Rightarrow> string" where
  "show_int i = (if i < 0 then CHR ''-'' # show_nat (nat (- i)) else show_nat (nat i))"

text \<open>\<open>%x\<close>, and the line end in a text.\<close>

fun show_hex :: "nat \<Rightarrow> string" where
  "show_hex n = (if n < 16 then [''0123456789abcdef'' ! n] else show_hex (n div 16) @ [''0123456789abcdef'' ! (n mod 16)])"

declare show_hex.simps [simp del]

definition NL :: string where
  "NL = [CHR 0x0A]"

lemma isdigit_char_of: "(d :: nat) < 10 \<Longrightarrow> isdigit (char_of (48 + d))"
  by (simp add: isdigit_def)

lemma digit_val_char_of: "(d :: nat) < 10 \<Longrightarrow> digit_val (char_of (48 + d)) = int d"
  by (simp add: digit_val_def)

lemma show_nat_digits: "\<forall>c \<in> set (show_nat n). isdigit c"
proof (induction n rule: show_nat.induct)
  case (1 n)
  then show ?case
    by (subst show_nat.simps) (auto simp: isdigit_char_of)
qed

lemma show_nat_nonempty: "show_nat n \<noteq> []"
  by (subst show_nat.simps) simp

lemma scan_digits_append:
  "\<forall>c \<in> set s. isdigit c \<Longrightarrow> scan_digits acc (s @ t) = scan_digits (fst (scan_digits acc s)) t"
  by (induction s arbitrary: acc) auto

lemma scan_digits_rest: "\<forall>c \<in> set s. isdigit c \<Longrightarrow> snd (scan_digits acc s) = []"
  by (induction s arbitrary: acc) auto

lemma scan_show_nat: "scan_digits 0 (show_nat n) = (int n, [])"
proof (induction n rule: show_nat.induct)
  case (1 n)
  show ?case
  proof (cases "n < 10")
    case True
    then show ?thesis
      by (subst show_nat.simps) (simp add: isdigit_char_of digit_val_char_of)
  next
    case False
    have "scan_digits 0 (show_nat (n div 10) @ [char_of (48 + n mod 10)]) =
        scan_digits (int (n div 10)) [char_of (48 + n mod 10)]"
      using 1 [OF False] by (subst scan_digits_append) (simp_all add: show_nat_digits)
    also have "\<dots> = (int n, [])"
      by (simp add: isdigit_char_of digit_val_char_of) presburger
    finally show ?thesis
      using False by (subst show_nat.simps) simp
  qed
qed

lemma strtol_show_nat:
  assumes "int n < 2 ^ 63"
  shows "strtol (show_nat n) = (int n, [])"
proof -
  obtain c cs where s: "show_nat n = c # cs" using show_nat_nonempty by (cases "show_nat n") auto
  then have c: "isdigit c" using show_nat_digits [of n] by simp
  then have ns: "\<not> isspace c" "c \<noteq> CHR ''-''" "c \<noteq> CHR ''+''"
    by (auto simp: isdigit_def isspace_def code_def)
  have "scan_digits 0 (c # cs) = (int n, [])"
    using scan_show_nat [of n] s by simp
  moreover have "clamp_long (int n) = int n"
    using assms by (simp add: clamp_long_def)
  ultimately show ?thesis
    using ns c s by (simp add: strtol_def)
qed

subsection \<open>Buffers\<close>

text \<open>
  \<open>strncpy(dst, src, n)\<close> fills \<open>n\<close> characters: the source, padded with NUL, and no NUL at
  all when the source has \<open>n\<close> characters or more. Reading the buffer as a string then runs
  past its end, which \<open>read_buf\<close> reports as \<open>None\<close>.
\<close>

definition strncpy :: "nat \<Rightarrow> string \<Rightarrow> string" where
  "strncpy n src = take n (src @ replicate n (char_of (0 :: nat)))"

definition read_buf :: "string \<Rightarrow> string option" where
  "read_buf b = (if \<exists>c \<in> set b. code c = 0 then Some (takeWhile (\<lambda>c. code c \<noteq> 0) b) else None)"

lemma length_strncpy [simp]: "length (strncpy n src) = n"
  by (simp add: strncpy_def)

lemma read_strncpy:
  assumes "nul_free s"
  shows "read_buf (strncpy n s) = (if length s < n then Some s else None)"
proof (cases "length s < n")
  case True
  then obtain k where k: "n - length s = Suc k" by (metis Suc_diff_Suc)
  have "strncpy n s = s @ char_of (0 :: nat) # replicate k (char_of (0 :: nat))"
    using True k by (simp add: strncpy_def)
  then show ?thesis
    using True assms by (simp add: read_buf_def nul_free_def takeWhile_append)
next
  case False
  then have "strncpy n s = take n s" by (simp add: strncpy_def)
  then show ?thesis
    using False assms by (auto simp: read_buf_def nul_free_def dest: in_set_takeD)
qed

text \<open>\<open>strchr\<close> and \<open>strrchr\<close> as splits of the string at the first and the last \<open>c\<close>.\<close>

definition strchr :: "char \<Rightarrow> string \<Rightarrow> (string \<times> string) option" where
  "strchr c s = (if c \<in> set s
     then Some (takeWhile (\<lambda>x. x \<noteq> c) s, tl (dropWhile (\<lambda>x. x \<noteq> c) s)) else None)"

definition after_last :: "char \<Rightarrow> string \<Rightarrow> string option" where
  "after_last c s = (if c \<in> set s then Some (rev (takeWhile (\<lambda>x. x \<noteq> c) (rev s))) else None)"

lemma strchr_split: "c \<notin> set a \<Longrightarrow> strchr c (a @ c # b) = Some (a, b)"
  by (induction a) (auto simp: strchr_def)

lemma after_last_split:
  assumes "c \<notin> set b"
  shows "after_last c (a @ c # b) = Some b"
proof -
  have "takeWhile (\<lambda>x. x \<noteq> c) (rev b @ [c] @ rev a) = rev b"
    using assms by (subst takeWhile_append2) auto
  then show ?thesis by (simp add: after_last_def)
qed

end
