(* ===== verification/World.thy ===== *)
theory World
  imports Linked C_String
begin

text \<open>
  The state of the daemon and of the system around it.

  The structures of the headers are records with the source's fields. Hosts, sessions and
  listeners live in stores indexed by address, because the code shares and frees them; the
  service and device tables, whose entries are only appended and never freed, are lists.
  A MAC address is the list of its six octets and an IP address the list of its four bytes
  in the order they have in memory and in packets, so that nothing depends on the byte
  order of the machine; a port is its number, so \<open>htons\<close>/\<open>ntohs\<close> of a port are the
  identity on 16-bit values.

  The operating system and the C libraries that resolve names are a record \<open>sys\<close> of
  functions, a parameter of every definition that calls them. A call whose answer may
  change over time takes the trace of the effects so far, so that the same call may get another answer later. Effects are appended to
  \<open>trace\<close>, log lines to \<open>logs\<close>.
\<close>

type_synonym mask = "32 word"
type_synonym etheraddr = "u8 list"
type_synonym ipaddr = "u8 list"

record sockaddr_in =
  sin_family :: nat
  sin_port :: nat
  sin_addr :: ipaddr

datatype errno = ENOENT | EACCES | EPERM | EMFILE | ENFILE | EOther

text \<open>What the daemon does to the outside.\<close>

datatype event =
    SendUdp int "sockaddr_in option" "u8 list" \<comment> \<open>descriptor, destination (\<open>None\<close>: the connected peer), bytes\<close>
  | SendLink "string option" "u8 list"         \<comment> \<open>device, frame\<close>
  | OpenFile string
  | ReadAt int int nat
  | ArpSet ipaddr etheraddr
  | RouteGet ipaddr int                        \<comment> \<open>address, sequence number\<close>
  | RouteAdd ipaddr etheraddr nat nat int int  \<comment> \<open>addresses, link type and index, end of life, sequence number\<close>
  | RouteRead int
  | OpenSocket
  | CloseFd int
  | SetFlags int mask
  | Chdir string

text \<open>One answer of \<open>getifaddrs\<close>: the name, the flags and the address of an interface.\<close>

datatype ifa_addr = Ifa_inet ipaddr | Ifa_link etheraddr | Ifa_other | Ifa_null

record ifaddr =
  ifa_name :: string
  ifa_flags :: mask
  ifa_loopback :: bool
  ifa_up :: bool
  ifa_addr :: ifa_addr

text \<open>What a wait or a read of the event loop brings.\<close>

datatype wait = Ready "int list" | Interrupted | Wait_failed
datatype datagram = Datagram sockaddr_in "u8 list" | No_data | Recv_failed

text \<open>
  A call the RPC library makes: the arguments of the two procedures of the bootparam
  program, with the field \<open>xp_port\<close> of the transport.
\<close>

datatype rpc_call = Whoami ipaddr int | Getfile string string int

record sys =
  s_time :: "event list \<Rightarrow> int"
  s_open :: "event list \<Rightarrow> string \<Rightarrow> errno + (int \<times> u8 list)"
  s_lseek_fails :: "event list \<Rightarrow> int \<Rightarrow> bool"
  s_read_fails :: "event list \<Rightarrow> int \<Rightarrow> bool"
  s_sent :: "event list \<Rightarrow> u8 list \<Rightarrow> int"
  s_socket :: "event list \<Rightarrow> int option"
  s_bind :: "event list \<Rightarrow> sockaddr_in \<Rightarrow> bool"
  s_connect :: "event list \<Rightarrow> sockaddr_in \<Rightarrow> bool"
  s_sockname :: "event list \<Rightarrow> int \<Rightarrow> sockaddr_in option"
  s_junk :: "event list \<Rightarrow> u8 list"
  s_ether_aton :: "string \<Rightarrow> etheraddr option"
  s_ether_ntoa :: "etheraddr \<Rightarrow> string"
  s_inet_aton :: "string \<Rightarrow> ipaddr option"
  s_inet_ntoa :: "ipaddr \<Rightarrow> string"
  s_ether_hostton :: "string \<Rightarrow> etheraddr option"
  s_ether_ntohost :: "etheraddr \<Rightarrow> string option"
  s_gethostbyname :: "string \<Rightarrow> (nat \<times> ipaddr) option"
  s_gethostbyaddr :: "ipaddr \<Rightarrow> string option"
  s_getservbyname :: "string \<Rightarrow> nat option"
  s_logopen :: "event list \<Rightarrow> string \<Rightarrow> int option"
  s_errtext :: "event list \<Rightarrow> string"
  s_nonblock :: mask
  s_fcntl_get :: "event list \<Rightarrow> int \<Rightarrow> mask option"
  s_fcntl_set :: "event list \<Rightarrow> int \<Rightarrow> mask \<Rightarrow> bool"
  s_ioctl :: "event list \<Rightarrow> int \<Rightarrow> bool option"
  s_lnet_open :: "string \<Rightarrow> bool"
  s_hwaddr :: "string \<Rightarrow> etheraddr option"
  s_lnet_ip :: "string \<Rightarrow> ipaddr"
  s_hostname :: string
  s_pcap_open :: "event list \<Rightarrow> string \<Rightarrow> (int \<times> bool) option"
  s_lookupnet :: "string \<Rightarrow> bool"
  s_pcap_compile :: "string \<Rightarrow> bool"
  s_pcap_setfilter :: "string \<Rightarrow> bool"
  s_rpc_create :: "event list \<Rightarrow> int \<Rightarrow> bool"
  s_rpc_register :: "nat \<Rightarrow> nat \<Rightarrow> bool"
  s_svc_fd :: "int \<Rightarrow> bool"
  s_rpc_call :: "event list \<Rightarrow> int \<Rightarrow> rpc_call option"
  s_have_getifaddrs :: bool
  s_getifaddrs :: "ifaddr list option"
  s_select :: "event list \<Rightarrow> int list \<Rightarrow> wait"
  s_recvfrom :: "event list \<Rightarrow> int \<Rightarrow> datagram"
  s_frame :: "event list \<Rightarrow> string option \<Rightarrow> (u8 list \<times> int) option"
  s_arp_hdr_size :: nat
  s_arp_ioctl :: "event list \<Rightarrow> bool"
  s_chdir :: "event list \<Rightarrow> string \<Rightarrow> bool"
  s_pcap_stats :: "event list \<Rightarrow> string option \<Rightarrow> int \<times> int"

subsection \<open>Hosts, files and sessions (\<open>host.h\<close>)\<close>

definition FILE_ALIASES_MAX :: nat where [simp]: "FILE_ALIASES_MAX = 10"
definition SESSION_FD_MAX :: nat where [simp]: "SESSION_FD_MAX = 8"

record file_t =
  f_path :: "string option"
  f_name :: "string option"
  f_server :: "string option"
  f_aliases :: "string option list"
  f_service :: mask

record session_t =
  s_service :: mask
  s_atime :: int
  s_sid :: int
  s_fd :: "int list"
  s_l :: "addr option"

record host_t =
  h_next :: "addr option"
  h_device :: "string option"
  h_name :: "string option"
  h_service :: mask
  h_eth :: etheraddr
  h_ip :: ipaddr
  h_files :: "file_t list"
  h_session :: "addr option"

subsection \<open>Listeners (\<open>listener.h\<close>)\<close>

text \<open>The functions a function pointer of a listener or of a service can point to.\<close>

datatype service_fn = Tftp_handler | Dhcp_handler | Rarp_handler | Rmp_handler
datatype receive_fn = Link_receive | Udp_receive | Rpc_udp_receive
datatype cleanup_fn = Link_cleanup | Udp_cleanup | Rpc_udp_cleanup
datatype send_fn = Link_send | Udp_send

record listener_t =
  l_next :: "addr option"
  l_fd :: int
  l_info :: string
  l_desc :: string
  l_ip :: ipaddr
  l_eth :: etheraddr
  l_name :: "string option"
  l_service :: "service_fn option"
  l_receive :: "receive_fn option"
  l_cleanup :: "cleanup_fn option"
  l_send :: "send_fn option"
  l_type :: mask
  l_device :: "string option"
  l_udp_from :: sockaddr_in
  l_udp_to :: sockaddr_in

subsection \<open>Services and devices (\<open>service.h\<close>, \<open>device.h\<close>)\<close>

definition SERVICES_MAX :: nat where [simp]: "SERVICES_MAX = 16"
definition SERVICE_BIND_MAX :: nat where [simp]: "SERVICE_BIND_MAX = 16"
definition DEVICE_IP_ADDRS_MAX :: nat where [simp]: "DEVICE_IP_ADDRS_MAX = 16"

record service_t =
  sv_name :: string
  sv_id :: mask
  sv_service :: "service_fn option"
  sv_device :: "string option list"
  sv_filter :: string
  sv_bindaddr :: "sockaddr_in list"
  sv_defport :: nat
  sv_prognum :: nat
  sv_versnum :: nat

record device_t =
  d_name :: string
  d_flags :: mask
  d_eth :: etheraddr
  d_ip :: "ipaddr list"
  d_filter :: string

definition SERVICE_RARP :: mask where [simp]: "SERVICE_RARP = push_bit 0 1"
definition SERVICE_DHCP :: mask where [simp]: "SERVICE_DHCP = push_bit 1 1"
definition SERVICE_MOP :: mask where [simp]: "SERVICE_MOP = push_bit 2 1"
definition SERVICE_RMP :: mask where [simp]: "SERVICE_RMP = push_bit 3 1"
definition SERVICE_TFTP :: mask where [simp]: "SERVICE_TFTP = push_bit 4 1"
definition SERVICE_BOOTPARM :: mask where [simp]: "SERVICE_BOOTPARM = push_bit 5 1"
definition SERVICE_ALL :: mask where [simp]: "SERVICE_ALL = 0xffff"

definition LISTEN_LINK :: mask where "LISTEN_LINK = SERVICE_RARP OR SERVICE_MOP OR SERVICE_RMP"
definition LISTEN_UDP :: mask where "LISTEN_UDP = SERVICE_DHCP OR SERVICE_TFTP"
definition LISTEN_RPC_UDP :: mask where "LISTEN_RPC_UDP = SERVICE_BOOTPARM"

definition E_NOERROR :: int where [simp]: "E_NOERROR = 0"
definition E_NOSESSION :: int where [simp]: "E_NOSESSION = 1"
definition E_BADSID :: int where [simp]: "E_BADSID = 2"

subsection \<open>The log levels (\<open>genutil.h\<close>)\<close>

definition LOG_DEBUG :: mask where [simp]: "LOG_DEBUG = 0"
definition LOG_INFO :: mask where [simp]: "LOG_INFO = 1"
definition LOG_WARN :: mask where [simp]: "LOG_WARN = 2"
definition LOG_ERR :: mask where [simp]: "LOG_ERR = 3"
definition LOG_LEVEL :: mask where [simp]: "LOG_LEVEL = 3"
definition LOG_MISC :: mask where [simp]: "LOG_MISC = push_bit 8 0"
definition LOG_CONF :: mask where [simp]: "LOG_CONF = push_bit 8 1"
definition LOG_DEV :: mask where [simp]: "LOG_DEV = push_bit 8 2"
definition LOG_BOOT :: mask where [simp]: "LOG_BOOT = push_bit 8 3"
definition LOG_RES :: mask where [simp]: "LOG_RES = push_bit 8 4"
definition LOG_CAT :: mask where [simp]: "LOG_CAT = push_bit 8 7"
definition LOG_MOD :: mask where [simp]: "LOG_MOD = push_bit 16 15"

record logstate =
  l_minlevel :: int
  l_minlevel_cat :: "int list"
  l_minlevel_mod :: "int list"
  l_mod_names :: "string list"
  l_logfd :: int

subsection \<open>The configuration tree (\<open>genutil.h\<close>, \<open>parse.c\<close>)\<close>

text \<open>
  An entry of the configuration. \<open>values\<close> is an array of 32 pointers that is filled from its
  start and NULL behind \<open>values_next\<close>; it is the list of the strings in it here.
\<close>

definition PARSE_VALUES_MAX :: nat where [simp]: "PARSE_VALUES_MAX = 32"
definition PARSE_STRING_MAX :: nat where [simp]: "PARSE_STRING_MAX = 256"

record parse_entry_t =
  pe_name :: string
  pe_values :: "string list"
  pe_next :: "addr option"
  pe_sub :: "addr option"
  pe_processed :: bool
  pe_line :: int
  pe_filename :: string

text \<open>
  The static tables of \<open>parse.c\<close>: whether \<open>l_tbl_table\<close> is allocated and how many of its
  256 blocks are in use, the strings of the current string block, and the number of entries
  used in the current entry block. \<open>None\<close> stands for a NULL block pointer.
\<close>

record parse_tables =
  pt_table :: bool
  pt_table_next :: nat
  pt_strings :: "string list option"
  pt_entry_next :: "nat option"

subsection \<open>The whole state\<close>

record world =
  g_hosts :: "addr option"
  hheap :: "addr \<Rightarrow> host_t option"
  sheap :: "addr \<Rightarrow> session_t option"
  g_listeners :: "addr option"
  lheap :: "addr \<Rightarrow> listener_t option"
  brk :: addr
  g_n_sessions :: int
  c_session_max :: int
  c_session_timeout :: int
  c_resolve_ether :: bool
  c_resolve_ip :: bool
  c_file :: "string option"
  c_directory :: "string option"
  c_chroot :: "string option"
  g_run :: bool
  rmp_sid :: int
  l_services :: "service_t list"
  l_devices :: "device_t list"
  lg :: logstate
  pt :: parse_tables
  pheap :: "addr \<Rightarrow> parse_entry_t option"
  fdtab :: "int \<Rightarrow> u8 list option"
  trace :: "event list"
  logs :: "(mask \<times> string) list"

text \<open>The static initial values of \<open>log.c\<close> and \<open>global.h\<close>, before \<open>main\<close> runs.\<close>

definition initial_log :: logstate where
  "initial_log = \<lparr>l_minlevel = -1, l_minlevel_cat = replicate 9 0, l_minlevel_mod = replicate 17 0,
     l_mod_names = replicate 17 '''', l_logfd = 2\<rparr>"

definition no_tables :: parse_tables where
  "no_tables = \<lparr>pt_table = False, pt_table_next = 0, pt_strings = None, pt_entry_next = None\<rparr>"

definition initial_world :: world where
  "initial_world = \<lparr>g_hosts = None, hheap = (\<lambda>_. None), sheap = (\<lambda>_. None),
     g_listeners = None, lheap = (\<lambda>_. None), brk = 1, g_n_sessions = 0,
     c_session_max = 5, c_session_timeout = 120, c_resolve_ether = True, c_resolve_ip = True,
     c_file = None, c_directory = None, c_chroot = None, g_run = True,
     rmp_sid = 1, l_services = [], l_devices = [], lg = initial_log, pt = no_tables, pheap = (\<lambda>_. None),
     fdtab = (\<lambda>_. None), trace = [], logs = []\<rparr>"

type_synonym 'a cmd = "(world, 'a) prog"

subsection \<open>Access to the stores\<close>

definition host_get :: "addr \<Rightarrow> host_t cmd" where
  "host_get a = (\<lambda>w. case hheap w a of None \<Rightarrow> Undef ''host pointer'' | Some h \<Rightarrow> Ret (h, w))"

definition host_put :: "addr \<Rightarrow> host_t \<Rightarrow> unit cmd" where
  "host_put a h = modify (\<lambda>w. w\<lparr>hheap := (hheap w)(a \<mapsto> h)\<rparr>)"

definition session_get :: "addr \<Rightarrow> session_t cmd" where
  "session_get a = (\<lambda>w. case sheap w a of None \<Rightarrow> Undef ''session pointer'' | Some s \<Rightarrow> Ret (s, w))"

definition session_put :: "addr \<Rightarrow> session_t \<Rightarrow> unit cmd" where
  "session_put a s = modify (\<lambda>w. w\<lparr>sheap := (sheap w)(a \<mapsto> s)\<rparr>)"

definition session_free :: "addr \<Rightarrow> unit cmd" where
  "session_free a = modify (\<lambda>w. w\<lparr>sheap := (sheap w)(a := None)\<rparr>)"

definition listener_get :: "addr \<Rightarrow> listener_t cmd" where
  "listener_get a = (\<lambda>w. case lheap w a of None \<Rightarrow> Undef ''listener pointer'' | Some l \<Rightarrow> Ret (l, w))"

definition listener_put :: "addr \<Rightarrow> listener_t \<Rightarrow> unit cmd" where
  "listener_put a l = modify (\<lambda>w. w\<lparr>lheap := (lheap w)(a \<mapsto> l)\<rparr>)"

definition listener_free :: "addr \<Rightarrow> unit cmd" where
  "listener_free a = modify (\<lambda>w. w\<lparr>lheap := (lheap w)(a := None)\<rparr>)"

text \<open>\<open>malloc\<close>: an address that was never handed out before.\<close>

definition malloc :: "addr cmd" where
  "malloc = (\<lambda>w. Ret (brk w, w\<lparr>brk := Suc (brk w)\<rparr>))"

definition emit :: "event \<Rightarrow> unit cmd" where
  "emit e = modify (\<lambda>w. w\<lparr>trace := trace w @ [e]\<rparr>)"

lemma store_run [simp, flow]:
  "hheap w a = Some h \<Longrightarrow> host_get a w = Ret (h, w)"
  "sheap w a = Some s \<Longrightarrow> session_get a w = Ret (s, w)"
  "lheap w a = Some l \<Longrightarrow> listener_get a w = Ret (l, w)"
  "host_put a h w = Ret ((), w\<lparr>hheap := (hheap w)(a \<mapsto> h)\<rparr>)"
  "session_put a s w = Ret ((), w\<lparr>sheap := (sheap w)(a \<mapsto> s)\<rparr>)"
  "session_free a w = Ret ((), w\<lparr>sheap := (sheap w)(a := None)\<rparr>)"
  "listener_put a l w = Ret ((), w\<lparr>lheap := (lheap w)(a \<mapsto> l)\<rparr>)"
  "listener_free a w = Ret ((), w\<lparr>lheap := (lheap w)(a := None)\<rparr>)"
  "malloc w = Ret (brk w, w\<lparr>brk := Suc (brk w)\<rparr>)"
  "emit e w = Ret ((), w\<lparr>trace := trace w @ [e]\<rparr>)"
  by (simp_all add: host_get_def session_get_def listener_get_def host_put_def session_put_def
      session_free_def listener_put_def listener_free_def malloc_def emit_def)

lemma store_dangling [simp, flow]:
  "hheap w a = None \<Longrightarrow> host_get a w = Undef ''host pointer''"
  "sheap w a = None \<Longrightarrow> session_get a w = Undef ''session pointer''"
  "lheap w a = None \<Longrightarrow> listener_get a w = Undef ''listener pointer''"
  by (simp_all add: host_get_def session_get_def listener_get_def)

lemma store_Ret_iff:
  "host_get a w = Ret (h, w') \<longleftrightarrow> hheap w a = Some h \<and> w' = w"
  "session_get a w = Ret (s, w') \<longleftrightarrow> sheap w a = Some s \<and> w' = w"
  "listener_get a w = Ret (l, w') \<longleftrightarrow> lheap w a = Some l \<and> w' = w"
  by (auto simp: host_get_def session_get_def listener_get_def split: option.splits)

subsection \<open>The two linked lists\<close>

definition set_h_next :: "addr option \<Rightarrow> host_t \<Rightarrow> host_t" where
  "set_h_next p h = h\<lparr>h_next := p\<rparr>"

definition set_l_next :: "addr option \<Rightarrow> listener_t \<Rightarrow> listener_t" where
  "set_l_next p l = l\<lparr>l_next := p\<rparr>"

interpretation hl: linked h_next set_h_next "\<lambda>h. h\<lparr>h_next := None\<rparr>"
  by unfold_locales (simp_all add: set_h_next_def)

interpretation ll: linked l_next set_l_next "\<lambda>l. l\<lparr>l_next := None\<rparr>"
  by unfold_locales (simp_all add: set_l_next_def)

text \<open>\<open>hosts w xs\<close> and \<open>listeners w xs\<close>: the list from the global head is \<open>xs\<close>.\<close>

definition hosts :: "world \<Rightarrow> addr list \<Rightarrow> bool" where
  "hosts w xs \<longleftrightarrow> chain (hheap w) h_next (g_hosts w) xs"

definition listeners :: "world \<Rightarrow> addr list \<Rightarrow> bool" where
  "listeners w xs \<longleftrightarrow> chain (lheap w) l_next (g_listeners w) xs"

text \<open>
  \<open>runs m w x w'\<close>: from \<open>w\<close> the command returns \<open>x\<close> in the state \<open>w'\<close>, whatever log lines
  it wrote. This is the form of the functional properties, which are not about logging.
\<close>

definition runs :: "'a cmd \<Rightarrow> world \<Rightarrow> 'a \<Rightarrow> world \<Rightarrow> bool" where
  "runs m w x w' \<longleftrightarrow> (case m w of
      Ret (y, v) \<Rightarrow> y = x \<and> v\<lparr>logs := []\<rparr> = w'\<lparr>logs := []\<rparr>
    | _ \<Rightarrow> False)"

lemma runs_iff: "runs m w x w' \<longleftrightarrow> (\<exists>ls. m w = Ret (x, w'\<lparr>logs := ls\<rparr>))"
proof
  assume "runs m w x w'"
  then obtain v where v: "m w = Ret (x, v)" "v\<lparr>logs := []\<rparr> = w'\<lparr>logs := []\<rparr>"
    by (auto simp: runs_def split: outcome.splits)
  have "v = v\<lparr>logs := []\<rparr>\<lparr>logs := logs v\<rparr>" by simp
  also have "\<dots> = w'\<lparr>logs := logs v\<rparr>" by (simp only: v(2)) simp
  finally show "\<exists>ls. m w = Ret (x, w'\<lparr>logs := ls\<rparr>)" using v(1) by metis
qed (auto simp: runs_def)

lemma runs_logs [simp]: "runs m w x (w'\<lparr>logs := ls\<rparr>) \<longleftrightarrow> runs m w x w'"
  by (auto simp: runs_def split: outcome.splits)

lemma logs_twice: "w\<lparr>logs := ls, logs := ls'\<rparr> = w\<lparr>logs := ls'\<rparr>"
  by simp

lemma runs_upto_logs: "runs m w x v \<Longrightarrow> v\<lparr>logs := []\<rparr> = w'\<lparr>logs := []\<rparr> \<Longrightarrow> runs m w x w'"
  by (simp add: runs_def split: outcome.splits prod.splits)

named_theorems runs_rules \<open>one step of a run\<close>

lemma runsI: "m w = Ret (x, w') \<Longrightarrow> runs m w x w'"
  by (simp add: runs_def)

lemma runs_bnd [runs_rules]:
  "runs m w x w1 \<Longrightarrow> (\<And>ls. runs (k x) (w1\<lparr>logs := ls\<rparr>) y w2) \<Longrightarrow> runs (bnd m k) w y w2"
  by (fastforce simp: runs_iff bnd_run)

lemma runs_andthen [runs_rules]:
  "runs m w x w1 \<Longrightarrow> (\<And>ls. runs k (w1\<lparr>logs := ls\<rparr>) y w2) \<Longrightarrow> runs (andthen m k) w y w2"
  by (auto simp: andthen_def intro: runs_bnd)

lemma runs_bnd_Ret: "m w = Ret (x, w1) \<Longrightarrow> runs (k x) w1 y w2 \<Longrightarrow> runs (bnd m k) w y w2"
  by (simp add: runs_def bnd_run)

lemma runs_bnd_ex1:
  assumes "runs m w x w1" and k: "\<And>ls. \<exists>w2. runs (k x) (w1\<lparr>logs := ls\<rparr>) y w2 \<and> Q w2"
  shows "\<exists>w2. runs (bnd m k) w y w2 \<and> Q w2"
proof -
  obtain ls where m: "m w = Ret (x, w1\<lparr>logs := ls\<rparr>)" using assms(1) by (auto simp: runs_iff)
  obtain w2 where "runs (k x) (w1\<lparr>logs := ls\<rparr>) y w2" "Q w2" using k by blast
  with runs_bnd_Ret [of m w x "w1\<lparr>logs := ls\<rparr>" k y w2, OF m] show ?thesis by blast
qed

lemma runs_andthen_ex:
  assumes "runs m w x w1" and k: "\<And>ls. \<exists>w2. runs k (w1\<lparr>logs := ls\<rparr>) y w2 \<and> Q w2"
  shows "\<exists>w2. runs (andthen m k) w y w2 \<and> Q w2"
proof -
  obtain ls where m: "m w = Ret (x, w1\<lparr>logs := ls\<rparr>)" using assms(1) by (auto simp: runs_iff)
  obtain w2 where "runs k (w1\<lparr>logs := ls\<rparr>) y w2" "Q w2" using k by blast
  with runs_bnd_Ret [of m w x "w1\<lparr>logs := ls\<rparr>" "\<lambda>_. k" y w2, OF m] show ?thesis
    by (auto simp: andthen_def)
qed

lemma runs_asks: "runs (k (f w)) w y w2 \<Longrightarrow> runs (bnd (asks f) k) w y w2"
  by (simp add: runs_def)

lemma runs_ret [runs_rules]: "runs (ret x) w x w"
  by (simp add: runs_def)

lemma runs_det: "runs m w x w' \<Longrightarrow> runs m w y v \<Longrightarrow> x = y \<and> w'\<lparr>logs := []\<rparr> = v\<lparr>logs := []\<rparr>"
  by (auto simp: runs_def split: outcome.splits)

lemma runs_each:
  assumes "\<And>x ls. x \<in> set xs \<Longrightarrow> runs (f x) (w\<lparr>logs := ls\<rparr>) () w"
  shows "runs (each f xs) (w\<lparr>logs := ls\<rparr>) () w"
  using assms
proof (induction xs arbitrary: ls)
  case Nil
  show ?case unfolding each_simps by (simp add: runs_def)
next
  case (Cons x xs)
  show ?case
    unfolding each_simps
    by (rule runs_andthen [where ?w1.0 = w]) (auto intro!: Cons.prems Cons.IH)
qed

text \<open>What the reads and writes of the stores keep.\<close>

lemma keeps_get [keeps_rules]:
  "keeps I (host_get a)" "keeps I (session_get a)" "keeps I (listener_get a)"
  by (rule keepsI, simp add: store_Ret_iff)+

lemma keeps_emit [keeps_rules]:
  "(\<And>w. I w \<Longrightarrow> I (w\<lparr>trace := trace w @ [e]\<rparr>)) \<Longrightarrow> keeps I (emit e)"
  unfolding emit_def by (rule keeps_modify)

text \<open>Nothing but the trace and the log has changed since \<open>w0\<close>.\<close>

definition only_io :: "world \<Rightarrow> world \<Rightarrow> bool" where
  "only_io w0 w \<longleftrightarrow> w\<lparr>trace := [], logs := []\<rparr> = w0\<lparr>trace := [], logs := []\<rparr>"

lemma only_io_simps [simp]:
  "only_io w w"
  "only_io w0 w \<Longrightarrow> only_io w0 (w\<lparr>logs := ls\<rparr>)"
  "only_io w0 w \<Longrightarrow> only_io w0 (w\<lparr>trace := tr\<rparr>)"
  by (simp_all add: only_io_def)

lemma only_io_eq: "only_io w0 w \<Longrightarrow> w = w0\<lparr>trace := trace w, logs := logs w\<rparr>"
  by (cases w; cases w0) (simp add: only_io_def)

end
