(* ===== verification/Logging.thy ===== *)
theory Logging
  imports World
begin

text \<open>
  \<open>src/log.c\<close>: the level filter, the message buffer, and \<open>log_msg\<close>, which every other
  function calls. A message of severity \<open>LOG_ERR\<close> that passes the filter ends the process.
  \<open>log_msg\<close> is split in two: its effect on the run (the filter, the line, the exit) with
  the format string as the line's text, and \<open>log_buffer\<close>, the assembly of the formatted
  line in the array \<open>buf[4096]\<close>. The time stamp and the expanded message are arguments of
  the latter.
\<close>

subsection \<open>Module numbers and names\<close>

definition LOG_MOD_MAX :: nat where [simp]: "LOG_MOD_MAX = 16"
definition LOG_CAT_MAX :: nat where [simp]: "LOG_CAT_MAX = 8"

definition l_modlevel2modnum :: "mask \<Rightarrow> nat" where
  "l_modlevel2modnum level =
     (case find (\<lambda>i. level = push_bit i 1) [0..<LOG_MOD_MAX] of Some i \<Rightarrow> i + 1 | None \<Rightarrow> 0)"

definition log_set_mod_name :: "mask \<Rightarrow> string \<Rightarrow> logstate \<Rightarrow> logstate" where
  "log_set_mod_name m name g = g\<lparr>l_mod_names := (l_mod_names g)[l_modlevel2modnum m := name]\<rparr>"

subsection \<open>Levels\<close>

definition log_set_level :: "int \<Rightarrow> logstate \<Rightarrow> logstate" where
  "log_set_level minlevel g =
     (let m = (word_of_int minlevel :: mask);
          level = int (unat (m AND LOG_LEVEL))
      in if m AND LOG_CAT \<noteq> 0
           then g\<lparr>l_minlevel_cat := (l_minlevel_cat g)[unat (drop_bit 8 (m AND LOG_CAT)) := level]\<rparr>
         else if m AND LOG_MOD \<noteq> 0
           then g\<lparr>l_minlevel_mod := (l_minlevel_mod g)[unat (drop_bit 16 (m AND LOG_MOD)) := level]\<rparr>
         else g\<lparr>l_minlevel := minlevel\<rparr>)"

definition log_enabled :: "logstate \<Rightarrow> mask \<Rightarrow> bool" where
  "log_enabled g what =
     (let level = int (unat (what AND LOG_LEVEL))
      in level \<ge> l_minlevel g
       \<or> level \<ge> l_minlevel_cat g ! unat (drop_bit 8 (what AND LOG_CAT))
       \<or> level \<ge> l_minlevel_mod g ! unat (drop_bit 16 (what AND LOG_MOD)))"

subsection \<open>Messages\<close>

definition log_msg :: "mask \<Rightarrow> string \<Rightarrow> unit cmd" where
  "log_msg what fmt = (\<lambda>w.
     if log_enabled (lg w) what then
       (if what AND LOG_LEVEL = LOG_ERR then Exit fmt
        else Ret ((), w\<lparr>logs := logs w @ [(what, fmt)]\<rparr>))
     else Ret ((), w))"

definition l_level_names :: "string list" where
  "l_level_names = [''DEBUG'', ''INFO'', ''WARN'', ''ERROR'']"

definition l_cat_names :: "string list" where
  "l_cat_names = [''MISC'', ''CONF'', ''DEV'', ''BOOT'', ''RES'', ''XXX5'', ''XXX6'', ''XXX7'']"

definition pad_right :: "nat \<Rightarrow> string \<Rightarrow> string" where
  "pad_right n s = s @ replicate (n - length s) CHR '' ''"

text \<open>The head of a line: time stamp and process id, severity, category, module.\<close>

definition log_header :: "string \<Rightarrow> logstate \<Rightarrow> mask \<Rightarrow> string" where
  "log_header stamp g what =
     stamp @ '' '' @ pad_right 5 (l_level_names ! unat (what AND LOG_LEVEL)) @ '' ''
       @ pad_right 4 (l_cat_names ! unat (drop_bit 8 (what AND LOG_CAT))) @ '' ''
       @ l_mod_names g ! l_modlevel2modnum (what AND LOG_MOD) @ '' ''"

text \<open>
  \<open>buf[4096]\<close>: the head is cut to 4095 characters, but the message is again given the
  whole size 4096 at its position behind the head.
\<close>

definition log_buffer :: "string \<Rightarrow> string \<Rightarrow> string outcome" where
  "log_buffer header msg =
     (let h = take 4095 header; m = take 4095 msg; b = h @ m
      in if length b + 1 > 4096 then Undef ''log_msg: vsnprintf past buf''
         else if b = [] then Undef ''log_msg: buf[-1]''
         else (let b1 = (if code (last b) = 10 \<or> code (last b) = 13 then butlast b else b)
               in if length b1 + 2 > 4096 then Undef ''log_msg: strcat past buf''
                  else Ret (b1 @ [char_of (10 :: nat)])))"

subsection \<open>Initialisation\<close>

definition log_set_file :: "sys \<Rightarrow> string option \<Rightarrow> unit cmd" where
  "log_set_file S filename =
     (case filename of
        None \<Rightarrow> ret ()
      | Some f \<Rightarrow>
          if f = ''-'' \<or> f = ''stdout'' then ret ()
          else if f = ''stderr'' then ret ()
          else bnd (asks (\<lambda>w. s_logopen S (trace w) f)) (\<lambda>r.
            case r of
              None \<Rightarrow> log_msg LOG_WARN ''open(%s, WRONLY|CREAT|APPEND, 0777): %s''
            | Some fd \<Rightarrow>
                andthen (log_msg LOG_INFO ''logging to %s'')
                (bnd (asks (\<lambda>w. l_logfd (lg w))) (\<lambda>old.
                 andthen (if old \<noteq> 1 \<and> old \<noteq> 2 then emit (CloseFd old) else ret ())
                 (modify (\<lambda>w. w\<lparr>lg := (lg w)\<lparr>l_logfd := fd\<rparr>\<rparr>))))))"

definition log_init :: "sys \<Rightarrow> int \<Rightarrow> string option \<Rightarrow> unit cmd" where
  "log_init S level filename =
     bnd (asks (\<lambda>w. l_minlevel (lg w))) (\<lambda>cur.
     if cur \<noteq> -1 then ret ()
     else andthen (modify (\<lambda>w. w\<lparr>lg := (lg w)\<lparr>l_minlevel := 0, l_minlevel_cat := replicate (Suc LOG_CAT_MAX) 3\<rparr>\<rparr>))
       (andthen (modify (\<lambda>w. w\<lparr>lg := log_set_level (int (unat (word_of_int level AND LOG_LEVEL))) (lg w)\<rparr>))
       (log_set_file S filename)))"

subsection \<open>Facts\<close>

text \<open>
  The level tables as the code keeps them: the array sizes, a global level that no severity
  exceeds, and a module table that is never written (its initialisation is commented out).
\<close>

definition log_ok :: "logstate \<Rightarrow> bool" where
  "log_ok g \<longleftrightarrow> l_minlevel g \<le> 3 \<and> length (l_minlevel_cat g) = 9 \<and> l_minlevel_mod g = replicate 17 0
     \<and> length (l_mod_names g) = 17"

lemma and_mask_le: "unat (x AND y :: mask) \<le> unat y"
  using word_and_le1 [of x y] by (simp add: word_le_nat_alt)

lemma level_le_3: "unat (what AND LOG_LEVEL) \<le> 3"
  using and_mask_le [of what 3] by simp

lemma cat_index: "unat (drop_bit 8 (what AND LOG_CAT)) < 9"
  using and_mask_le [of "drop_bit 8 what" 7] by (simp add: le_less_trans)

lemma mod_index: "unat (drop_bit 16 (what AND LOG_MOD)) < 17"
  using and_mask_le [of "drop_bit 16 what" 15] by (simp add: le_less_trans)

lemma log_ok_enabled: "log_ok g \<Longrightarrow> log_enabled g what"
  using mod_index [of what] by (simp add: log_ok_def log_enabled_def Let_def)

lemma log_ok_initial [simp]: "log_ok initial_log"
  by (simp add: log_ok_def initial_log_def)

lemma log_msg_run:
  "what AND LOG_LEVEL \<noteq> LOG_ERR \<Longrightarrow>
   log_msg what fmt w = Ret ((), w\<lparr>logs := logs w @ (if log_enabled (lg w) what then [(what, fmt)] else [])\<rparr>)"
  by (simp add: log_msg_def)

lemma log_msg_Ret: "log_msg what fmt w = Ret (x, w') \<Longrightarrow> \<exists>ls. w' = w\<lparr>logs := ls\<rparr>"
  by (auto simp: log_msg_def split: if_splits intro: exI [of _ "logs w"])

lemma log_err_exits: "log_ok (lg w) \<Longrightarrow> what AND LOG_LEVEL = LOG_ERR \<Longrightarrow> log_msg what fmt w = Exit fmt"
  by (simp add: log_msg_def log_ok_enabled)

lemma keeps_log_msg [keeps_rules]:
  "(\<And>w ls. I w \<Longrightarrow> I (w\<lparr>logs := ls\<rparr>)) \<Longrightarrow> keeps I (log_msg what fmt)"
proof (rule keepsI)
  fix w x w'
  assume pres: "\<And>w ls. I w \<Longrightarrow> I (w\<lparr>logs := ls\<rparr>)" and "I w" "log_msg what fmt w = Ret (x, w')"
  then show "I w'"
    by (auto simp: log_msg_def split: if_splits)
qed

lemma runs_log_msg [runs_rules]: "what AND LOG_LEVEL \<noteq> LOG_ERR \<Longrightarrow> runs (log_msg what fmt) w () w"
  by (simp add: runs_def log_msg_def)

end
