(* ===== verification/Registry.thy ===== *)
theory Registry
  imports World
begin

text \<open>
  The contract of the tables the daemon fills from its configuration: devices, services and
  the files of a host. Each is a list to which an entry is appended unless an entry with the
  same key is present, in which case the new entry is ignored. A table's component shows the
  three laws for its own add function and gets the facts below.
\<close>

locale registry =
  fixes entries :: "'s \<Rightarrow> 'e list"
    and key :: "'e \<Rightarrow> 'k"
    and same :: "'k \<Rightarrow> 'k \<Rightarrow> bool"
    and norm :: "'e \<Rightarrow> 'e"
    and add :: "'e \<Rightarrow> ('s, unit) prog"
  assumes same_equiv: "equivp same"
    and add_dup: "add e s = Ret ((), s') \<Longrightarrow> x \<in> set (entries s) \<Longrightarrow> same (key x) (key (norm e)) \<Longrightarrow>
      entries s' = entries s"
    and add_new: "add e s = Ret ((), s') \<Longrightarrow> (\<And>x. x \<in> set (entries s) \<Longrightarrow> \<not> same (key x) (key (norm e))) \<Longrightarrow>
      entries s' = entries s @ [norm e]"
begin

text \<open>Lookup by key, as the search loops do it: the first entry with that key.\<close>

definition lookup :: "'s \<Rightarrow> 'k \<Rightarrow> 'e option" where
  "lookup s k = find (\<lambda>x. same (key x) k) (entries s)"

definition unique_keys :: "'s \<Rightarrow> bool" where
  "unique_keys s \<longleftrightarrow> pairwise (\<lambda>i j. \<not> same (key (entries s ! i)) (key (entries s ! j))) {..<length (entries s)}"

lemma add_entries:
  assumes "add e s = Ret ((), s')"
  shows "entries s' = (if \<exists>x \<in> set (entries s). same (key x) (key (norm e))
      then entries s else entries s @ [norm e])"
  using add_dup [OF assms] add_new [OF assms] by auto

lemma add_prefix: "add e s = Ret ((), s') \<Longrightarrow> \<exists>ys. entries s' = entries s @ ys \<and> length ys \<le> 1"
  by (auto simp: add_entries)

lemma find_Some_append: "find P xs = Some x \<Longrightarrow> find P (xs @ ys) = Some x"
  by (induction xs) (auto split: if_splits)

lemma find_None_append: "find P xs = None \<Longrightarrow> find P (xs @ ys) = find P ys"
  by (induction xs) (auto split: if_splits)

text \<open>An entry that could be found stays the one that is found.\<close>

lemma lookup_stable:
  assumes "add e s = Ret ((), s')" and "lookup s k = Some x"
  shows "lookup s' k = Some x"
proof -
  obtain ys where "entries s' = entries s @ ys"
    using add_prefix [OF assms(1)] by blast
  with assms(2) show ?thesis
    by (simp add: lookup_def find_Some_append)
qed

text \<open>After an add the key is found: the old entry if there was one, else the new one.\<close>

lemma lookup_added:
  assumes "add e s = Ret ((), s')"
  shows "lookup s' (key (norm e)) = (case lookup s (key (norm e)) of Some x \<Rightarrow> Some x | None \<Rightarrow> Some (norm e))"
proof (cases "lookup s (key (norm e))")
  case None
  then have "\<not> (\<exists>x \<in> set (entries s). same (key x) (key (norm e)))"
    by (auto simp: lookup_def find_None_iff)
  with assms have "entries s' = entries s @ [norm e]"
    by (auto simp: add_entries)
  with None show ?thesis
    using equivp_reflp [OF same_equiv] by (simp add: lookup_def find_None_append)
next
  case (Some x)
  with lookup_stable [OF assms] show ?thesis by simp
qed

lemma lookup_other:
  assumes "add e s = Ret ((), s')" and "\<not> same (key (norm e)) k"
  shows "lookup s' k = lookup s k"
proof (cases "lookup s k")
  case None
  then show ?thesis
    using assms by (auto simp: lookup_def add_entries find_None_append)
next
  case (Some x)
  with lookup_stable [OF assms(1)] show ?thesis by simp
qed

lemma add_unique_keys:
  assumes a: "add e s = Ret ((), s')" and u: "unique_keys s"
  shows "unique_keys s'"
proof (cases "\<exists>x \<in> set (entries s). same (key x) (key (norm e))")
  case True
  with a u show ?thesis by (simp add: unique_keys_def add_entries)
next
  case False
  with a have e: "entries s' = entries s @ [norm e]" by (auto simp: add_entries)
  have new: "\<not> same (key (entries s ! i)) (key (norm e))" if "i < length (entries s)" for i
    using False that by auto
  have sym: "same a b \<Longrightarrow> same b a" for a b
    using equivp_symp [OF same_equiv] .
  show ?thesis
    unfolding unique_keys_def pairwise_def
  proof (intro ballI impI)
    fix i j
    assume ij: "i \<in> {..<length (entries s')}" "j \<in> {..<length (entries s')}" "i \<noteq> j"
    consider "i < length (entries s)" "j < length (entries s)"
      | "i < length (entries s)" "j = length (entries s)"
      | "i = length (entries s)" "j < length (entries s)"
      using ij e by fastforce
    then show "\<not> same (key (entries s' ! i)) (key (entries s' ! j))"
    proof cases
      case 1
      with u ij(3) show ?thesis by (simp add: e nth_append unique_keys_def pairwise_def)
    next
      case 2
      with new show ?thesis by (simp add: e nth_append)
    next
      case 3
      with new sym show ?thesis by (auto simp: e nth_append)
    qed
  qed
qed

end

end
