(* ===== verification/Service_Table.thy ===== *)
theory Service_Table
  imports Logging Registry
begin

text \<open>
  The list of services (\<open>src/service.c\<close>, first part) and the two functions that translate
  between service names and bit masks (\<open>src/ngenutil.c\<close>).
\<close>

definition no_sockaddr :: sockaddr_in where
  "no_sockaddr = \<lparr>sin_family = 0, sin_port = 0, sin_addr = [0, 0, 0, 0]\<rparr>"

definition service_new :: service_t where
  "service_new = \<lparr>sv_name = '''', sv_id = 0, sv_service = None,
     sv_device = replicate SERVICE_BIND_MAX None, sv_filter = '''',
     sv_bindaddr = replicate SERVICE_BIND_MAX no_sockaddr, sv_defport = 0,
     sv_prognum = 0, sv_versnum = 0\<rparr>"

text \<open>The lowest set bit of an identifier, 16 if there is none below bit 16.\<close>

definition lowest_bit :: "mask \<Rightarrow> nat" where
  "lowest_bit v = (case find (\<lambda>i. bit v i) [0..<LOG_MOD_MAX] of Some i \<Rightarrow> i | None \<Rightarrow> LOG_MOD_MAX)"

text \<open>
  \<open>service_add\<close>. The identifier is shifted right by its lowest set bit (an arithmetic shift
  of an \<open>int\<close>), and the result, not the bit's number, is what names the log module. The
  test \<open>i & (!1)\<close> is \<open>i & 0\<close> and never holds.
\<close>

definition service_add :: "service_t \<Rightarrow> unit cmd" where
  "service_add s =
     bnd (asks l_services) (\<lambda>ss.
     if ss = [] then modify (\<lambda>w. w\<lparr>l_services := [s]\<rparr>)
     else if \<exists>n \<in> set ss. sv_name n = sv_name s
       then log_msg (LOG_WARN OR LOG_CONF) ''duplicate entry for service %s (ignored)''
     else andthen (modify (\<lambda>w. w\<lparr>l_services := ss @ [s]\<rparr>))
       (let i = signed_drop_bit (lowest_bit (sv_id s)) (sv_id s)
        in andthen
             (if i AND 0 \<noteq> 0 \<or> sint i \<ge> int LOG_MOD_MAX
              then log_msg (LOG_ERR OR LOG_CONF) ''invalid service id: %d'' else ret ())
             (modify (\<lambda>w. w\<lparr>lg := log_set_mod_name i (sv_name s) (lg w)\<rparr>))))"

definition service_search_by_name :: "service_t list \<Rightarrow> string \<Rightarrow> service_t option" where
  "service_search_by_name ss name = find (\<lambda>n. sv_name n = name) ss"

definition service_search_by_id :: "service_t list \<Rightarrow> mask \<Rightarrow> service_t option" where
  "service_search_by_id ss i = find (\<lambda>n. sv_id n = i) ss"

text \<open>
  \<open>service_init\<close> with \<open>bootparam_service_init\<close>, its last call. The program and version
  numbers come from the protocol file \<open>bootparam_prot.x\<close>.
\<close>

definition BOOTPARAMPROG :: nat where "BOOTPARAMPROG = 100026"
definition BOOTPARAMVERS :: nat where "BOOTPARAMVERS = 1"

definition bootparam_service_init :: "unit cmd" where
  "bootparam_service_init = service_add (service_new
     \<lparr>sv_name := ''bootparam'', sv_id := SERVICE_BOOTPARM,
      sv_prognum := BOOTPARAMPROG, sv_versnum := BOOTPARAMVERS\<rparr>)"

definition service_init :: "unit cmd" where
  "service_init =
     andthen (service_add (service_new\<lparr>sv_name := ''rarp'', sv_id := SERVICE_RARP,
        sv_service := Some Rarp_handler, sv_filter := ''(rarp)''\<rparr>))
     (andthen (service_add (service_new\<lparr>sv_name := ''dhcp'', sv_id := SERVICE_DHCP,
        sv_service := Some Dhcp_handler, sv_defport := 67\<rparr>))
     (andthen (service_add (service_new\<lparr>sv_name := ''mop'', sv_id := SERVICE_MOP,
        sv_filter := ''(ether dst 08:00:2b:60:01:00 || 08:00:2b:60:02:00 || 08:00:2b:90:00)''\<rparr>))
     (andthen (service_add (service_new\<lparr>sv_name := ''rmp'', sv_id := SERVICE_RMP,
        sv_service := Some Rmp_handler, sv_filter := ''(ether dst 9:0:9:0:0:4)''\<rparr>))
     (andthen (service_add (service_new\<lparr>sv_name := ''tftp'', sv_id := SERVICE_TFTP,
        sv_service := Some Tftp_handler, sv_defport := 69\<rparr>))
     bootparam_service_init))))"

subsection \<open>Names and masks (\<open>src/ngenutil.c\<close>)\<close>

text \<open>The new value of \<open>*dst\<close>, or \<open>None\<close> when the function returns 0.\<close>

definition str_get_service :: "service_t list \<Rightarrow> string option \<Rightarrow> mask \<Rightarrow> mask option" where
  "str_get_service ss w dst = (case w of
      None \<Rightarrow> None
    | Some w \<Rightarrow>
        if strcaseeq w ''all'' then Some SERVICE_ALL
        else if strcaseeq w ''none'' then Some 0
        else map_option (\<lambda>s. dst OR sv_id s) (service_search_by_name ss w))"

text \<open>
  \<open>str_service\<close>: the names of the set bits, separated by blanks, in a buffer of 512 bytes
  (\<open>snprintf\<close> cuts at 511 characters) and then copied to the caller's \<open>l\<close> bytes.
\<close>

definition service_word :: "service_t list \<Rightarrow> mask \<Rightarrow> string" where
  "service_word ss j = (case service_search_by_id ss j of
      None \<Rightarrow> show_nat (unat j) | Some s \<Rightarrow> sv_name s)"

definition service_text :: "service_t list \<Rightarrow> mask \<Rightarrow> string" where
  "service_text ss service =
     (if service = SERVICE_ALL then ''all''
      else fold (\<lambda>i buf.
        (let j = service AND push_bit i 1 in
         if j = 0 then buf
         else take 511 (buf @ (if buf = [] then '''' else '' '') @ service_word ss j)))
        [0..<LOG_MOD_MAX] '''')"

definition str_service :: "service_t list \<Rightarrow> mask \<Rightarrow> nat \<Rightarrow> string" where
  "str_service ss service l = strncpy l (service_text ss service)"

subsection \<open>Facts\<close>

lemma service_add_empty: "l_services w = [] \<Longrightarrow> service_add s w = Ret ((), w\<lparr>l_services := [s]\<rparr>)"
  by (simp add: service_add_def)

lemma service_add_services:
  assumes "service_add s w = Ret ((), w')"
  shows "l_services w' = (if \<exists>n \<in> set (l_services w). sv_name n = sv_name s
      then l_services w else l_services w @ [s])"
  using assms
  by (auto simp: service_add_def Let_def andthen_Ret_iff bnd_Ret_iff log_msg_def split: if_splits)

interpretation sr: registry l_services sv_name "(=)" "\<lambda>s. s" service_add
  by unfold_locales (auto simp: service_add_services identity_equivp)

lemma service_search_is_lookup: "service_search_by_name (l_services w) n = sr.lookup w n"
  by (simp add: service_search_by_name_def sr.lookup_def)

end
