(* ===== verification/Strings.thy ===== *)
theory Strings
  imports Logging
begin

text \<open>
  \<open>src/str.c\<close>: comparison of possibly NULL strings, the parsers of configuration words and
  the printers used in log messages. A parser that returns 0 is \<open>None\<close>, one that returns 1
  and stores a value is \<open>Some\<close> of the value. A printer gets the size \<open>l\<close> of the
  destination, or \<open>None\<close> when the destination is NULL, and gives the contents of the
  destination buffer.
\<close>

subsection \<open>Comparison and parsing\<close>

definition str_is_equal :: "string option \<Rightarrow> string option \<Rightarrow> bool" where
  "str_is_equal w1 w2 = (case (w1, w2) of (Some a, Some b) \<Rightarrow> a = b | _ \<Rightarrow> False)"

definition str_is_equalnc :: "string option \<Rightarrow> string option \<Rightarrow> bool" where
  "str_is_equalnc w1 w2 = (case (w1, w2) of (Some a, Some b) \<Rightarrow> strcaseeq a b | _ \<Rightarrow> False)"

definition str_is_true :: "string \<Rightarrow> bool" where
  "str_is_true w \<longleftrightarrow> strcaseeq w ''yes'' \<or> strcaseeq w ''true'' \<or> strcaseeq w ''ok'' \<or> w = ''1''"

definition str_is_false :: "string \<Rightarrow> bool" where
  "str_is_false w \<longleftrightarrow> strcaseeq w ''no'' \<or> strcaseeq w ''false'' \<or> w = ''0''"

definition str_get_bool :: "string option \<Rightarrow> bool option" where
  "str_get_bool w = (case w of
      None \<Rightarrow> None
    | Some w \<Rightarrow> if str_is_true w then Some True else if str_is_false w then Some False else None)"

text \<open>\<open>str_get_int\<close> stores its result even when it reports an error.\<close>

definition str_get_int :: "string \<Rightarrow> int \<times> bool" where
  "str_get_int w = (let (v, p) = strtol w in (to_int32 v, p = []))"

definition str_get_loglevel :: "string option \<Rightarrow> mask option" where
  "str_get_loglevel w =
     (if w = None then None
      else if str_is_equal w (Some ''debug'') then Some LOG_DEBUG
      else if str_is_equal w (Some ''info'') then Some LOG_INFO
      else if str_is_equal w (Some ''warn'') \<or> str_is_equal w (Some ''warning'') then Some LOG_WARN
      else if str_is_equal w (Some ''err'') \<or> str_is_equal w (Some ''error'') then Some LOG_ERR
      else None)"

definition str_get_eth :: "sys \<Rightarrow> string option \<Rightarrow> etheraddr option" where
  "str_get_eth S w = Option.bind w (s_ether_aton S)"

definition str_get_ip :: "sys \<Rightarrow> string option \<Rightarrow> ipaddr option" where
  "str_get_ip S w = Option.bind w (s_inet_aton S)"

text \<open>
  \<open>host:port\<close>. The word is copied to \<open>host[256]\<close>; a word of 256 characters or more leaves
  it without a terminator. The numeric test applies to the host part, but \<open>inet_aton\<close> is
  called on the whole word.
\<close>

definition str_get_hostport :: "sys \<Rightarrow> string option \<Rightarrow> nat \<Rightarrow> nat \<Rightarrow> (string \<times> string) option outcome" where
  "str_get_hostport S w lhost lport = (case w of
      None \<Rightarrow> Ret None
    | Some w \<Rightarrow>
        if CHR '' '' \<in> set w then Ret None
        else if length w \<ge> 256 then Undef ''str_get_hostport: host not terminated''
        else (let (host, port) = (case strchr CHR '':'' w of
                  Some (h, p) \<Rightarrow> (if h = ''*'' then '''' else h, if p = ''*'' then '''' else p)
                | None \<Rightarrow> (w, ''''))
              in if length host \<ge> lhost \<or> length port \<ge> lport
                   then Undef ''str_get_hostport: destination not terminated''
                 else if host \<noteq> '''' \<and> isdigit (hd host) \<and> s_inet_aton S w = None then Ret None
                 else if port \<noteq> '''' \<and> isdigit (hd port)
                   then (let (p, rest) = strtol port
                         in if rest \<noteq> [] then Ret None
                            else if p < 0 \<or> p > 65535 then Ret None
                            else if p = 0 then Ret (Some (host, ''''))
                            else Ret (Some (host, port)))
                 else Ret (Some (host, port))))"

subsection \<open>Printing\<close>

definition print_to :: "string \<Rightarrow> nat option \<Rightarrow> string \<Rightarrow> string option cmd" where
  "print_to warning dst text = (case dst of
      None \<Rightarrow> andthen (log_msg LOG_WARN warning) (ret None)
    | Some l \<Rightarrow> ret (Some (strncpy l text)))"

definition str_bool :: "bool \<Rightarrow> nat option \<Rightarrow> string option cmd" where
  "str_bool b dst = print_to ''str_bool: NULL dst'' dst (if b then ''true'' else ''false'')"

definition str_eth :: "sys \<Rightarrow> etheraddr option \<Rightarrow> nat option \<Rightarrow> string option cmd" where
  "str_eth S eth dst = print_to ''str_eth: NULL dst'' dst
     (case eth of None \<Rightarrow> ''00:00:00:00:00:00'' | Some e \<Rightarrow> s_ether_ntoa S e)"

definition str_ip :: "sys \<Rightarrow> ipaddr option \<Rightarrow> nat option \<Rightarrow> string option cmd" where
  "str_ip S ip dst = print_to ''str_ip: NULL dst'' dst
     (case ip of None \<Rightarrow> ''0.0.0.0'' | Some i \<Rightarrow> s_inet_ntoa S i)"

datatype dlt = DLT_NULL | DLT_EN10MB | DLT_EN3MB | DLT_AX25 | DLT_PRONET | DLT_CHAOS
  | DLT_IEEE802 | DLT_ARCNET | DLT_SLIP | DLT_PPP | DLT_FDDI | DLT_ATM_RFC1483 | DLT_RAW
  | DLT_OTHER

fun dlt_name :: "dlt \<Rightarrow> string" where
  "dlt_name DLT_NULL = ''no link-layer encapsulation''"
| "dlt_name DLT_EN10MB = ''Ethernet''"
| "dlt_name DLT_EN3MB = ''experimental Ethernet (3Mb)''"
| "dlt_name DLT_AX25 = ''Amateur Radio AX.25''"
| "dlt_name DLT_PRONET = ''Proteon ProNET Token Ring''"
| "dlt_name DLT_CHAOS = ''Chaos''"
| "dlt_name DLT_IEEE802 = ''IEEE 802 Networks''"
| "dlt_name DLT_ARCNET = ''ARCNET''"
| "dlt_name DLT_SLIP = ''Serial Line IP''"
| "dlt_name DLT_PPP = ''Point-to-point Protocol''"
| "dlt_name DLT_FDDI = ''FDDI''"
| "dlt_name DLT_ATM_RFC1483 = ''LLC/SNAP encapsulated atm''"
| "dlt_name DLT_RAW = ''raw IP''"
| "dlt_name DLT_OTHER = ''unknown datalink type''"

definition str_dlt :: "dlt \<Rightarrow> nat option \<Rightarrow> string option cmd" where
  "str_dlt d dst = print_to ''str_dlt: NULL dst'' dst (dlt_name d)"

text \<open>
  The address families, as on a system that defines all of them (each case of the source is
  under an \<open>#ifdef\<close>). The case of \<open>AF_ECMA\<close> has no \<open>break\<close>: the text of the next case
  overwrites its own.
\<close>

datatype af = AF_UNSPEC | AF_LOCAL | AF_INET | AF_IMPLINK | AF_PUP | AF_CHAOS | AF_NS | AF_ISO
  | AF_ECMA | AF_CCITT | AF_SNA | AF_DECnet | AF_DLI | AF_LAT | AF_APPLETALK | AF_LINK | AF_IPX
  | AF_ISDN | AF_INET6 | AF_NATM | AF_ATM | AF_SLOW | AF_SCLUSTER | AF_OTHER

fun af_name :: "af \<Rightarrow> string" where
  "af_name AF_UNSPEC = ''unspecified''"
| "af_name AF_LOCAL = ''local unix/pipe/portal''"
| "af_name AF_INET = ''inet''"
| "af_name AF_IMPLINK = ''arpanet imp''"
| "af_name AF_PUP = ''PUP''"
| "af_name AF_CHAOS = ''MIT CHAOS''"
| "af_name AF_NS = ''Xerox NS''"
| "af_name AF_ISO = ''ISO''"
| "af_name AF_ECMA = ''CCITT x.25''"
| "af_name AF_CCITT = ''CCITT x.25''"
| "af_name AF_SNA = ''SNA''"
| "af_name AF_DECnet = ''DECnet''"
| "af_name AF_DLI = ''DEC dli''"
| "af_name AF_LAT = ''LAT''"
| "af_name AF_APPLETALK = ''Apple Talk''"
| "af_name AF_LINK = ''Link Layer Interface''"
| "af_name AF_IPX = ''IPX''"
| "af_name AF_ISDN = ''ISDN''"
| "af_name AF_INET6 = ''IPv6''"
| "af_name AF_NATM = ''native ATM''"
| "af_name AF_ATM = ''ATM''"
| "af_name AF_SLOW = ''802.3ad slow protocol''"
| "af_name AF_SCLUSTER = ''Sitara cluster protocol''"
| "af_name AF_OTHER = ''unknown protocol''"

definition str_af :: "af \<Rightarrow> nat option \<Rightarrow> string option cmd" where
  "str_af a dst = print_to ''str_af: NULL dst'' dst (af_name a)"

text \<open>\<open>address:port\<close>; \<open>snprintf\<close> cuts the text to the buffer and terminates it.\<close>

definition snprintf :: "nat \<Rightarrow> string \<Rightarrow> string" where
  "snprintf l s = (if l = 0 then [] else take (l - 1) s @ [char_of (0 :: nat)])"

definition sai_text :: "sys \<Rightarrow> sockaddr_in option \<Rightarrow> string" where
  "sai_text S sai = (case sai of
      None \<Rightarrow> ''*:*''
    | Some a \<Rightarrow>
        if sin_addr a \<noteq> [0, 0, 0, 0] then
          (if sin_port a = 0 then s_inet_ntoa S (sin_addr a) @ '':*''
           else s_inet_ntoa S (sin_addr a) @ '':'' @ show_nat (sin_port a))
        else
          (if sin_port a = 0 then ''*:*'' else ''*:'' @ show_nat (sin_port a)))"

definition str_sai :: "sys \<Rightarrow> sockaddr_in option \<Rightarrow> nat option \<Rightarrow> string option cmd" where
  "str_sai S sai dst = (case dst of
      None \<Rightarrow> andthen (log_msg LOG_WARN ''str_sai: NULL dst'') (ret None)
    | Some l \<Rightarrow> ret (Some (if sai_text S sai = ''*:*''
        then strncpy l ''*:*'' else snprintf l (sai_text S sai))))"

text \<open>
  Quoting. \<open>out\<close> is what the loop has written; it goes on while two more bytes fit before
  the end of the destination, although a quoted character takes two and the closing quote
  and the terminator take two more.
\<close>

fun quote_loop :: "nat \<Rightarrow> string \<Rightarrow> string \<Rightarrow> string" where
  "quote_loop l out [] = out"
| "quote_loop l out (c # cs) =
     (if length out + 2 < l
      then quote_loop l (out @ (if c = CHR 0x22 \<or> c = CHR 0x5C then [CHR 0x5C, c] else [c])) cs
      else out)"

text \<open>The destination after the call: its text, or its old text when it is left alone.\<close>

definition str_do_quote :: "string option \<Rightarrow> nat option \<Rightarrow> string \<Rightarrow> string outcome" where
  "str_do_quote w dst old = (case dst of
      None \<Rightarrow> Ret old
    | Some l \<Rightarrow>
        if l < 3 then Ret old
        else (case w of
            None \<Rightarrow> Ret [CHR 0x22, CHR 0x22]
          | Some s \<Rightarrow>
              (let out = quote_loop l [CHR 0x22] s @ [CHR 0x22]
               in if length out + 1 > l then Undef ''str_do_quote: write past dst'' else Ret out)))"

subsection \<open>Facts\<close>

lemma str_is_equal_Some [simp]: "str_is_equal (Some a) (Some b) \<longleftrightarrow> a = b"
  by (simp add: str_is_equal_def)

lemma str_is_equal_None [simp]: "\<not> str_is_equal None w" "\<not> str_is_equal w None"
  by (simp_all add: str_is_equal_def split: option.splits)

lemma str_is_equal_iff: "str_is_equal w1 w2 \<longleftrightarrow> (\<exists>a. w1 = Some a \<and> w2 = Some a)"
  by (auto simp: str_is_equal_def split: option.splits)

lemma str_is_true_false: "str_is_true w \<Longrightarrow> \<not> str_is_false w"
  by (auto simp: str_is_true_def str_is_false_def strcaseeq_def tolower_def code_def)

lemma print_to_Some [simp, flow]: "print_to m (Some l) t w = Ret (Some (strncpy l t), w)"
  by (simp add: print_to_def)

lemma str_eth_Some [simp, flow]:
  "str_eth S (Some e) (Some l) w = Ret (Some (strncpy l (s_ether_ntoa S e)), w)"
  by (simp add: str_eth_def)

lemma quote_loop_length: "length out \<le> l - 1 \<Longrightarrow> length (quote_loop l out s) \<le> l - 1"
  by (induction l out s rule: quote_loop.induct) auto

lemma quote_loop_plain:
  "CHR 0x22 \<notin> set s \<Longrightarrow> CHR 0x5C \<notin> set s \<Longrightarrow> length out + 1 < l \<Longrightarrow>
   quote_loop l out s = out @ take (l - 2 - length out) s"
proof (induction l out s rule: quote_loop.induct)
  case (2 l out c cs)
  show ?case
  proof (cases "length out + 2 < l")
    case True
    define k where "k = l - 3 - length out"
    with True have k: "l - 2 - length out = Suc k" "l - 2 - length (out @ [c]) = k"
      by simp_all
    have plain: "c \<noteq> CHR 0x22" "c \<noteq> CHR 0x5C"
      using "2.prems" by auto
    with "2" True k show ?thesis by simp
  next
    case False
    with "2.prems" show ?thesis by simp
  qed
qed simp

end
