(* ===== verification/Lookup.thy ===== *)
theory Lookup
  imports Service_Table Strings
begin

text \<open>
  \<open>src/util.c\<close>: searches of the host list by name, MAC and IP address, the conversions
  between names and addresses that use them, the search of a host's files and the read
  function of the file transfers.
\<close>

definition util_ether_valid :: "etheraddr \<Rightarrow> bool" where
  "util_ether_valid e \<longleftrightarrow> (\<exists>b \<in> set (take 6 e). b \<noteq> 0)"

definition util_ip_valid :: "ipaddr \<Rightarrow> bool" where
  "util_ip_valid ip \<longleftrightarrow> ip \<noteq> [0, 0, 0, 0]"

subsection \<open>Hosts\<close>

text \<open>\<open>for (h = g_hosts; h != NULL; h = h->next) if (P h) return h;\<close>\<close>

definition host_scan :: "(host_t \<Rightarrow> bool) \<Rightarrow> addr option cmd" where
  "host_scan P = bnd (asks (\<lambda>w. ll_find (hheap w) h_next P (g_hosts w))) lift"

text \<open>A host without a name would be a NULL argument of \<open>strcasecmp\<close>.\<close>

definition util_name2host :: "string \<Rightarrow> addr option cmd" where
  "util_name2host name =
     bnd (host_scan (\<lambda>h. case h_name h of None \<Rightarrow> True | Some n \<Rightarrow> strcaseeq name n)) (\<lambda>r.
     case r of
       None \<Rightarrow> ret None
     | Some a \<Rightarrow> bnd (host_get a) (\<lambda>h.
         if h_name h = None then undef ''strcasecmp: NULL host name'' else ret (Some a)))"

definition util_ether2host :: "etheraddr \<Rightarrow> addr option cmd" where
  "util_ether2host e = host_scan (\<lambda>h. h_eth h = e)"

definition util_ip2host :: "ipaddr \<Rightarrow> addr option cmd" where
  "util_ip2host ip = host_scan (\<lambda>h. ip = h_ip h)"

subsection \<open>Names and addresses\<close>

text \<open>
  The result of the two resolvers is the address stored through the pointer, or \<open>None\<close>
  when they return 0. The upper-case copy of the name goes to \<open>b[64]\<close>.
\<close>

definition util_name2ether :: "sys \<Rightarrow> string \<Rightarrow> etheraddr option cmd" where
  "util_name2ether S name =
     (case str_get_eth S (Some name) of
        Some e \<Rightarrow> ret (Some e)
      | None \<Rightarrow> bnd (util_name2host name) (\<lambda>r.
          bnd (case r of None \<Rightarrow> ret None | Some a \<Rightarrow> bnd (host_get a) (\<lambda>h.
                 ret (if util_ether_valid (h_eth h) then Some (h_eth h) else None))) (\<lambda>known.
          case known of
            Some e \<Rightarrow> ret (Some e)
          | None \<Rightarrow> bnd (asks c_resolve_ether) (\<lambda>res.
              if \<not> res then
                andthen (log_msg (LOG_WARN OR LOG_RES) ''expecting ethernet address (resolving disabled), got %s'')
                  (ret None)
              else (case s_ether_hostton S name of
                  Some e \<Rightarrow> ret (Some e)
                | None \<Rightarrow>
                    if length name \<ge> 64 then undef ''util_name2ether: write past b''
                    else (case s_ether_hostton S (map toupper name) of
                        Some e \<Rightarrow> ret (Some e)
                      | None \<Rightarrow> andthen (log_msg (LOG_ERR OR LOG_RES)
                            ''expecting ethernet address (unknown hostname %s)'') (ret (Some []))))))))"

text \<open>
  Where \<open>util_name2ip\<close> goes on after an error message that did not end the process it would
  dereference the NULL result of \<open>gethostbyname\<close>.
\<close>

definition util_name2ip :: "sys \<Rightarrow> string \<Rightarrow> ipaddr option cmd" where
  "util_name2ip S name =
     (case str_get_ip S (Some name) of
        Some i \<Rightarrow> ret (Some i)
      | None \<Rightarrow> bnd (util_name2host name) (\<lambda>r.
          bnd (case r of None \<Rightarrow> ret None | Some a \<Rightarrow> bnd (host_get a) (\<lambda>h.
                 ret (if util_ip_valid (h_ip h) then Some (h_ip h) else None))) (\<lambda>known.
          case known of
            Some i \<Rightarrow> ret (Some i)
          | None \<Rightarrow> bnd (asks c_resolve_ip) (\<lambda>res.
              andthen (if \<not> res then log_msg (LOG_ERR OR LOG_RES)
                  ''expecting ip address (resolving disabled), got %s'' else ret ())
              (case s_gethostbyname S name of
                 None \<Rightarrow> andthen (log_msg (LOG_ERR OR LOG_RES)
                    ''expecting ip address (unknown hostname %s)'') (undef ''gethostbyname: NULL result'')
               | Some (family, i) \<Rightarrow>
                   andthen (if family \<noteq> 2 then log_msg (LOG_ERR OR LOG_RES)
                       ''expecting ip address (got non ip address for %s)'' else ret ())
                   (ret (Some i)))))))"

definition util_ether2name :: "sys \<Rightarrow> etheraddr \<Rightarrow> string option cmd" where
  "util_ether2name S e =
     bnd (util_ether2host e) (\<lambda>r. case r of
       Some a \<Rightarrow> bnd (host_get a) (\<lambda>h. ret (h_name h))
     | None \<Rightarrow> bnd (asks c_resolve_ether) (\<lambda>res.
         case (if res then s_ether_ntohost S e else None) of
           Some n \<Rightarrow> ret (Some n)
         | None \<Rightarrow> ret (read_buf (strncpy 64 (s_ether_ntoa S e)))))"

definition util_ip2name :: "sys \<Rightarrow> ipaddr \<Rightarrow> string option cmd" where
  "util_ip2name S ip =
     bnd (util_ip2host ip) (\<lambda>r. case r of
       Some a \<Rightarrow> bnd (host_get a) (\<lambda>h. ret (h_name h))
     | None \<Rightarrow> bnd (asks c_resolve_ip) (\<lambda>res.
         case (if res then s_gethostbyaddr S ip else None) of
           Some n \<Rightarrow> ret (Some n)
         | None \<Rightarrow> ret (read_buf (strncpy 64 (s_inet_ntoa S ip)))))"

subsection \<open>Files of a host\<close>

text \<open>How well a file entry matches a name: 1 best, 4 worst, 0 not at all.\<close>

definition i_file_match :: "file_t \<Rightarrow> mask \<Rightarrow> string option \<Rightarrow> nat" where
  "i_file_match n service name =
     (if f_service n AND service = 0 then 0
      else if name = None then 1
      else if str_is_equal name (f_path n) then 1
      else if str_is_equal name (f_name n) then 2
      else if \<exists>a \<in> set (take FILE_ALIASES_MAX (f_aliases n)). str_is_equal name a then 3
      else if str_is_equal (f_path n) (Some ''*'') \<or> str_is_equal (f_name n) (Some ''*'') then 4
      else if \<exists>a \<in> set (take FILE_ALIASES_MAX (f_aliases n)). str_is_equal a (Some ''*'') then 4
      else 0)"

text \<open>
  One pass of the inner loop at rank \<open>i\<close>: \<open>if (no--) continue; return n;\<close> skips \<open>no\<close>
  matches. The counter goes on from pass to pass.
\<close>

fun file_pass :: "nat \<Rightarrow> mask \<Rightarrow> string option \<Rightarrow> file_t list \<Rightarrow> int \<Rightarrow> file_t option \<times> int" where
  "file_pass i service name [] no = (None, no)"
| "file_pass i service name (n # ns) no =
     (if i_file_match n service name = i
      then (if no \<noteq> 0 then file_pass i service name ns (no - 1) else (Some n, no - 1))
      else file_pass i service name ns no)"

fun file_passes :: "nat list \<Rightarrow> mask \<Rightarrow> string option \<Rightarrow> file_t list \<Rightarrow> int \<Rightarrow> file_t option" where
  "file_passes [] service name ns no = None"
| "file_passes (i # is) service name ns no =
     (case file_pass i service name ns no of
        (Some n, _) \<Rightarrow> Some n
      | (None, no') \<Rightarrow> file_passes is service name ns no')"

text \<open>\<open>for (i = 1; i <= 4; i++)\<close>: the best matches first.\<close>

definition file_ranks :: "nat list" where
  "file_ranks = [1, 2, 3, 4]"

definition util_name2file :: "addr option \<Rightarrow> mask \<Rightarrow> string option \<Rightarrow> int \<Rightarrow> file_t option cmd" where
  "util_name2file hp service name no = (case hp of
      None \<Rightarrow> andthen (log_msg (LOG_WARN OR LOG_RES) ''trying to search file for null host'') (ret None)
    | Some a \<Rightarrow> bnd (host_get a) (\<lambda>h. ret (file_passes file_ranks service name (h_files h) no)))"

subsection \<open>Reading\<close>

text \<open>
  \<open>lseek\<close> and \<open>read\<close> on a regular file: seeking to a negative offset or on an unknown
  descriptor fails; \<open>read\<close> returns what the file has from the offset on, up to \<open>len\<close>
  bytes. The result of \<open>lseek\<close> is kept in an \<open>int\<close>. The value is the number of bytes or
  -1, and the bytes themselves.
\<close>

definition util_read :: "sys \<Rightarrow> int \<Rightarrow> nat \<Rightarrow> int \<Rightarrow> (int \<times> u8 list) cmd" where
  "util_read S fd len offs =
     bnd (asks (\<lambda>w. (trace w, fdtab w fd))) (\<lambda>(tr, content).
     andthen (emit (ReadAt fd offs len))
     (case content of
        None \<Rightarrow> andthen (log_msg (LOG_WARN OR LOG_DEV) ''lseek(%d, %d, SEEK_SET): %s'') (ret (-1, []))
      | Some c \<Rightarrow>
          if s_lseek_fails S tr fd \<or> offs < 0
          then andthen (log_msg (LOG_WARN OR LOG_DEV) ''lseek(%d, %d, SEEK_SET): %s'') (ret (-1, []))
          else if to_int32 offs < 0
          then andthen (log_msg (LOG_WARN OR LOG_DEV) ''lseek(%d, %d, SEEK_SET): %s'') (ret (to_int32 offs, []))
          else if s_read_fails S tr fd
          then andthen (log_msg (LOG_WARN OR LOG_DEV) ''read(%d, buf, %d): %s'') (ret (-1, []))
          else (let d = take len (drop (nat offs) c) in ret (int (length d), d))))"

subsection \<open>Facts: searches of an acyclic host list\<close>

definition host_at :: "world \<Rightarrow> addr \<Rightarrow> host_t" where
  "host_at w a = the (hheap w a)"

text \<open>A proper host list: finite, without dangling pointers, and every host has a name.\<close>

definition named_hosts :: "world \<Rightarrow> addr list \<Rightarrow> bool" where
  "named_hosts w xs \<longleftrightarrow> hosts w xs \<and> (\<forall>a \<in> set xs. h_name (host_at w a) \<noteq> None)"

lemma hosts_alloc: "hosts w xs \<Longrightarrow> a \<in> set xs \<Longrightarrow> hheap w a = Some (host_at w a)"
  by (auto simp: hosts_def host_at_def dest: chain_alloc)

lemma host_scan_run: "hosts w xs \<Longrightarrow> host_scan P w = Ret (find (\<lambda>a. P (host_at w a)) xs, w)"
  by (simp add: host_scan_def hosts_def host_at_def ll_find_chain)

lemma util_ether2host_run:
  "hosts w xs \<Longrightarrow> util_ether2host e w = Ret (find (\<lambda>a. h_eth (host_at w a) = e) xs, w)"
  by (simp add: util_ether2host_def host_scan_run)

lemma util_ip2host_run:
  "hosts w xs \<Longrightarrow> util_ip2host ip w = Ret (find (\<lambda>a. ip = h_ip (host_at w a)) xs, w)"
  by (simp add: util_ip2host_def host_scan_run)

lemma find_cong_on: "(\<And>x. x \<in> set xs \<Longrightarrow> P x = Q x) \<Longrightarrow> find P xs = find Q xs"
  by (induction xs) auto

lemma util_name2host_run:
  assumes "named_hosts w xs"
  shows "util_name2host name w = Ret (find (\<lambda>a. strcaseeq name (the (h_name (host_at w a)))) xs, w)"
proof -
  have h: "hosts w xs" and n: "\<And>a. a \<in> set xs \<Longrightarrow> h_name (host_at w a) \<noteq> None"
    using assms by (auto simp: named_hosts_def)
  have eq: "find (\<lambda>a. case h_name (host_at w a) of None \<Rightarrow> True | Some m \<Rightarrow> strcaseeq name m) xs =
      find (\<lambda>a. strcaseeq name (the (h_name (host_at w a)))) xs"
  proof (rule find_cong_on)
    fix a assume "a \<in> set xs"
    then obtain m where "h_name (host_at w a) = Some m" using n by blast
    then show "(case h_name (host_at w a) of None \<Rightarrow> True | Some m \<Rightarrow> strcaseeq name m) =
        strcaseeq name (the (h_name (host_at w a)))" by simp
  qed
  show ?thesis
  proof (cases "find (\<lambda>a. strcaseeq name (the (h_name (host_at w a)))) xs")
    case None
    with eq show ?thesis
      by (simp add: util_name2host_def host_scan_run [OF h] bnd_run)
  next
    case (Some a)
    then have "a \<in> set xs" by (auto simp: find_Some_iff)
    with Some eq n [of a] hosts_alloc [OF h, of a] show ?thesis
      by (auto simp: util_name2host_def host_scan_run [OF h] bnd_run)
  qed
qed

lemma host_scan_same_world: "host_scan P w = Ret (r, w') \<Longrightarrow> w' = w"
  by (auto simp: host_scan_def lift_def split: outcome.splits)

lemma keeps_host_scan [keeps_rules]: "keeps I (host_scan P)"
  by (rule keepsI) (auto dest: host_scan_same_world)

subsection \<open>Facts: the ranked search for a file\<close>

text \<open>All matching files, the better ranks first, within a rank in the order of the list.\<close>

definition ranked :: "nat list \<Rightarrow> mask \<Rightarrow> string option \<Rightarrow> file_t list \<Rightarrow> file_t list" where
  "ranked is service name ns = concat (map (\<lambda>i. filter (\<lambda>n. i_file_match n service name = i) ns) is)"

lemma file_pass_filter:
  "file_pass i service name ns no =
     (let m = filter (\<lambda>n. i_file_match n service name = i) ns
      in if 0 \<le> no \<and> no < int (length m) then (Some (m ! nat no), -1)
         else (None, no - int (length m)))"
proof (induction ns arbitrary: no)
  case Nil
  then show ?case by simp
next
  case (Cons n ns)
  show ?case
  proof (cases "i_file_match n service name = i \<and> no \<noteq> 0")
    case True
    then have "0 < no \<Longrightarrow> nat no = Suc (nat (no - 1))" by simp
    with True show ?thesis by (auto simp: Cons.IH Let_def nth_Cons')
  next
    case False
    then show ?thesis by (auto simp: Cons.IH Let_def)
  qed
qed

lemma file_passes_ranked:
  "file_passes is service name ns no =
     (if 0 \<le> no \<and> no < int (length (ranked is service name ns))
      then Some (ranked is service name ns ! nat no) else None)"
proof (induction "is" arbitrary: no)
  case Nil
  then show ?case by (simp add: ranked_def)
next
  case (Cons i "is")
  let ?m = "filter (\<lambda>n. i_file_match n service name = i) ns"
  have split: "ranked (i # is) service name ns = ?m @ ranked is service name ns"
    by (simp add: ranked_def)
  show ?case
  proof (cases "0 \<le> no \<and> no < int (length ?m)")
    case True
    then show ?thesis by (simp add: file_pass_filter split nth_append nat_less_iff)
  next
    case False
    then have "0 \<le> no \<Longrightarrow> nat (no - int (length ?m)) = nat no - length ?m" by simp
    with False show ?thesis
      by (auto simp: file_pass_filter Cons.IH split nth_append nat_less_iff)
  qed
qed

lemma i_file_match_le: "i_file_match n service name \<le> 4"
  by (simp add: i_file_match_def)

lemma set_ranked: "set (ranked file_ranks service name ns) = {n \<in> set ns. i_file_match n service name \<noteq> 0}"
proof -
  have "i_file_match n service name \<noteq> 0 \<longleftrightarrow> i_file_match n service name \<in> {1, 2, 3, 4}" for n
    using i_file_match_le [of n service name] by auto
  then show ?thesis by (auto simp: ranked_def file_ranks_def)
qed

lemma file_passes_allowed:
  assumes "file_passes file_ranks service name ns no = Some n"
  shows "n \<in> set ns \<and> f_service n AND service \<noteq> 0"
proof -
  have "n \<in> set (ranked file_ranks service name ns)"
    using assms by (auto simp: file_passes_ranked nat_less_iff split: if_splits)
  then show ?thesis
    by (auto simp: set_ranked i_file_match_def split: if_splits)
qed

lemma name2file_allowed:
  assumes "util_name2file (Some a) m name no w = Ret (r, w')"
  shows "w' = w \<and> (\<forall>f. r = Some f \<longrightarrow> f \<in> set (h_files (host_at w a)) \<and> f_service f AND m \<noteq> 0)"
proof -
  obtain h where h: "hheap w a = Some h" "r = file_passes file_ranks m name (h_files h) no" "w' = w"
    using assms by (auto simp: util_name2file_def bnd_Ret_iff store_Ret_iff)
  with file_passes_allowed [of m name "h_files h" no] show ?thesis
    by (simp add: host_at_def)
qed

end
