(* ===== verification/Listener.thy ===== *)
theory Listener
  imports Lookup
begin

text \<open>
  \<open>src/listener.c\<close>, the list of listeners and the two send functions. A listener is shared
  by pointer between the list, the event loop and the sessions; its cleanup function frees
  it, so a second cleanup is undefined.
\<close>

subsection \<open>Cleanup\<close>

definition close_fd :: "int \<Rightarrow> unit cmd" where
  "close_fd fd = andthen (emit (CloseFd fd)) (modify (\<lambda>w. w\<lparr>fdtab := (fdtab w)(fd := None)\<rparr>))"

text \<open>
  The call \<open>l->cleanup(l)\<close>: the function pointer is read from the listener. The link version
  closes the capture and injection handles, the two others close the socket.
\<close>

definition i_listener_link_cleanup :: "addr \<Rightarrow> unit cmd" where
  "i_listener_link_cleanup l = listener_free l"

definition i_listener_udp_cleanup :: "addr \<Rightarrow> unit cmd" where
  "i_listener_udp_cleanup l = bnd (listener_get l) (\<lambda>r. andthen (close_fd (l_fd r)) (listener_free l))"

definition i_listener_rpc_udp_cleanup :: "addr \<Rightarrow> unit cmd" where
  "i_listener_rpc_udp_cleanup l = bnd (listener_get l) (\<lambda>r. andthen (close_fd (l_fd r)) (listener_free l))"

definition listener_cleanup :: "addr \<Rightarrow> unit cmd" where
  "listener_cleanup l = bnd (listener_get l) (\<lambda>r.
     case l_cleanup r of
       None \<Rightarrow> undef ''NULL cleanup function''
     | Some Link_cleanup \<Rightarrow> i_listener_link_cleanup l
     | Some Udp_cleanup \<Rightarrow> i_listener_udp_cleanup l
     | Some Rpc_udp_cleanup \<Rightarrow> i_listener_rpc_udp_cleanup l)"

subsection \<open>The list\<close>

text \<open>
  \<open>listener_add\<close>. A listener without a name is written to through its NULL name. The loop
  stops at the first node with the same descriptor or at the last node.
\<close>

definition listener_link :: "addr \<Rightarrow> int \<Rightarrow> unit cmd" where
  "listener_link l fd = bnd (asks g_listeners) (\<lambda>g. case g of
      None \<Rightarrow> modify (\<lambda>w. w\<lparr>g_listeners := Some l\<rparr>)
    | Some _ \<Rightarrow>
        bnd (asks (\<lambda>w. ll_find (lheap w) l_next (\<lambda>n. fd = l_fd n \<or> l_next n = None) g))
        (\<lambda>found. bnd (lift found) (\<lambda>p. case p of
           None \<Rightarrow> ret ()
         | Some a \<Rightarrow> bnd (listener_get a) (\<lambda>n.
             if fd = l_fd n
             then log_msg (LOG_WARN OR LOG_CONF) ''duplicate entry for listener fd %d (ignored)''
             else listener_put a (set_l_next (Some l) n)))))"

definition listener_add :: "addr option \<Rightarrow> unit cmd" where
  "listener_add lp = (case lp of
      None \<Rightarrow> log_msg (LOG_WARN OR LOG_CONF) ''trying to add null listener''
    | Some l \<Rightarrow> bnd (listener_get l) (\<lambda>r.
        if l_receive r = None
          then log_msg (LOG_WARN OR LOG_CONF) ''trying to add listener without receive handler''
        else if l_cleanup r = None
          then log_msg (LOG_WARN OR LOG_CONF) ''trying to add listener without cleanup handler''
        else
          andthen (if \<not> util_ip_valid (l_ip r)
             then log_msg (LOG_DEBUG OR LOG_CONF) ''adding listener without ip address'' else ret ())
          (andthen (if \<not> util_ether_valid (l_eth r)
             then log_msg (LOG_DEBUG OR LOG_CONF) ''adding listener without ethernet adress'' else ret ())
          (andthen (if l_name r = None
             then andthen (log_msg (LOG_DEBUG OR LOG_CONF) ''adding listener without hostname'')
                    (undef ''listener_add: l->name[0] = 0 with NULL name'') else ret ())
          (andthen (listener_put l (set_l_next None r)) (listener_link l (l_fd r)))))))"

text \<open>
  \<open>listener_delete\<close>. The branch that removes the head of the list has no \<open>return\<close>: it goes
  on to the message and the cleanup at the end of the function.
\<close>

definition delete_unregistered :: "addr \<Rightarrow> unit cmd" where
  "delete_unregistered l =
     andthen (log_msg (LOG_WARN OR LOG_CONF) ''deleteing unregistered listener'') (listener_cleanup l)"

definition listener_delete :: "addr option \<Rightarrow> unit cmd" where
  "listener_delete lp = (case lp of
      None \<Rightarrow> log_msg (LOG_DEBUG OR LOG_CONF) ''trying to delete null listener''
    | Some l \<Rightarrow> bnd (asks g_listeners) (\<lambda>g. case g of
        None \<Rightarrow> delete_unregistered l
      | Some first \<Rightarrow>
          if first = l then bnd (listener_get l) (\<lambda>r.
            andthen (modify (\<lambda>w. w\<lparr>g_listeners := l_next r\<rparr>))
            (andthen (listener_cleanup l) (delete_unregistered l)))
          else bnd (asks (\<lambda>w. ll_find (lheap w) l_next (\<lambda>n. l_next n = Some l) g)) (\<lambda>found.
            bnd (lift found) (\<lambda>p. case p of
              None \<Rightarrow> delete_unregistered l
            | Some a \<Rightarrow> bnd (listener_get a) (\<lambda>n. bnd (listener_get l) (\<lambda>r.
                andthen (listener_put a (set_l_next (l_next r) n)) (listener_cleanup l)))))))"

definition listener_search_by_fd :: "int \<Rightarrow> addr option cmd" where
  "listener_search_by_fd fd =
     bnd (asks (\<lambda>w. ll_find (lheap w) l_next (\<lambda>n. l_fd n = fd) (g_listeners w))) lift"

subsection \<open>Sending\<close>

text \<open>
  The bytes of a frame or datagram are the first \<open>pktlen\<close> bytes of the caller's buffer.
  \<open>s_sent\<close> is what the system call returns, -1 for a failure.
\<close>

definition i_listener_link_send :: "sys \<Rightarrow> addr \<Rightarrow> u8 list \<Rightarrow> int \<Rightarrow> int cmd" where
  "i_listener_link_send S l packet pktlen =
     (if pktlen < 62 then
        andthen (log_msg (LOG_WARN OR LOG_DEV) ''link_send: short packet (len=%d)'') (ret (-1))
      else if nat pktlen > length packet then undef ''link_send: read past packet''
      else bnd (listener_get l) (\<lambda>r.
        bnd (asks (\<lambda>w. s_sent S (trace w) (take (nat pktlen) packet))) (\<lambda>result.
        andthen (emit (SendLink (l_device r) (take (nat pktlen) packet)))
        (andthen (if result = -1
           then log_msg (LOG_DEBUG OR LOG_DEV) ''link_send (%s) %s -> %s (%d bytes) (failed)''
           else log_msg (LOG_DEBUG OR LOG_DEV) ''link_send (%s) %s -> %s (%d bytes)'')
        (ret result)))))"

text \<open>The destination the UDP version uses: \<open>None\<close> is \<open>send\<close> to the connected peer.\<close>

definition udp_destination :: "listener_t \<Rightarrow> sockaddr_in option \<Rightarrow> sockaddr_in option" where
  "udp_destination r sai_to = (case sai_to of
      None \<Rightarrow> None
    | Some a \<Rightarrow>
        if sin_addr a = sin_addr (l_udp_to r) \<and> sin_port a = sin_port (l_udp_to r) then None
        else if sin_addr a = [0, 0, 0, 0] \<and> sin_port a = 0 then None
        else Some a)"

definition i_listener_udp_send :: "sys \<Rightarrow> addr \<Rightarrow> sockaddr_in option \<Rightarrow> u8 list \<Rightarrow> int \<Rightarrow> int cmd" where
  "i_listener_udp_send S l sai_to packet pktlen =
     bnd (listener_get l) (\<lambda>r.
     if pktlen < 0 \<or> nat pktlen > length packet then undef ''udp_send: read past packet''
     else bnd (asks (\<lambda>w. s_sent S (trace w) (take (nat pktlen) packet))) (\<lambda>result.
       andthen (emit (SendUdp (l_fd r) (udp_destination r sai_to) (take (nat pktlen) packet)))
       (andthen (if result < 0
          then log_msg (LOG_DEBUG OR LOG_DEV) ''udp_send (%s) %s -> %s (%d bytes) (failed)''
          else log_msg (LOG_DEBUG OR LOG_DEV) ''udp_send (%s) %s -> %s (%d bytes)'')
       (ret result))))"

text \<open>\<open>l->send(l, from, to, packet, pktlen)\<close>; both versions ignore \<open>from\<close>.\<close>

definition listener_send :: "sys \<Rightarrow> addr \<Rightarrow> sockaddr_in option \<Rightarrow> u8 list \<Rightarrow> int \<Rightarrow> int cmd" where
  "listener_send S l sai_to packet pktlen = bnd (listener_get l) (\<lambda>r.
     case l_send r of
       None \<Rightarrow> undef ''NULL send function''
     | Some Link_send \<Rightarrow> i_listener_link_send S l packet pktlen
     | Some Udp_send \<Rightarrow> i_listener_udp_send S l sai_to packet pktlen)"

text \<open>A local array of \<open>n\<close> bytes of which \<open>bs\<close> have been written; the rest is indeterminate.\<close>

definition stack_buf :: "sys \<Rightarrow> event list \<Rightarrow> nat \<Rightarrow> u8 list \<Rightarrow> u8 list" where
  "stack_buf S tr n bs = take n (bs @ s_junk S tr @ replicate n 0)"

subsection \<open>Facts\<close>

definition listener_at :: "world \<Rightarrow> addr \<Rightarrow> listener_t" where
  "listener_at w a = the (lheap w a)"

lemma listeners_alloc: "listeners w xs \<Longrightarrow> a \<in> set xs \<Longrightarrow> lheap w a = Some (listener_at w a)"
  by (auto simp: listeners_def listener_at_def dest: chain_alloc)

lemma listener_search_run:
  "listeners w xs \<Longrightarrow>
   listener_search_by_fd fd w = Ret (find (\<lambda>a. l_fd (listener_at w a) = fd) xs, w)"
  by (simp add: listener_search_by_fd_def listeners_def listener_at_def ll_find_chain)

lemma listener_search_same_world: "listener_search_by_fd fd w = Ret (r, w') \<Longrightarrow> w' = w"
  by (auto simp: listener_search_by_fd_def lift_def split: outcome.splits)

text \<open>A listener with a descriptor of its own becomes the last one of the list.\<close>

definition addable :: "listener_t \<Rightarrow> bool" where
  "addable r \<longleftrightarrow> l_receive r \<noteq> None \<and> l_cleanup r \<noteq> None \<and> l_name r \<noteq> None"

lemma listener_add_linked:
  assumes r: "lheap w l = Some r" "addable r"
    and k: "\<And>ls. runs (listener_link l (l_fd r)) (w\<lparr>lheap := (lheap w)(l \<mapsto> set_l_next None r), logs := ls\<rparr>) () w2"
  shows "runs (listener_add (Some l)) w () w2"
proof -
  have log: "runs (if c then log_msg (LOG_DEBUG OR LOG_CONF) m else ret ()) v () v" for c m v
    by (simp add: runs_def log_msg_run)
  have n: "l_receive r \<noteq> None" "l_cleanup r \<noteq> None" "l_name r \<noteq> None" using r(2) by (simp_all add: addable_def)
  have put: "runs (andthen (listener_put l (set_l_next None r)) (listener_link l (l_fd r))) (w\<lparr>logs := ls\<rparr>) () w2" for ls
    by (rule runs_andthen [where ?w1.0 = "w\<lparr>lheap := (lheap w)(l \<mapsto> set_l_next None r)\<rparr>"])
      (simp add: runs_def, rule k)
  have named: "runs (andthen (ret ()) (andthen (listener_put l (set_l_next None r)) (listener_link l (l_fd r))))
      (w\<lparr>logs := ls\<rparr>) () w2" for ls
    using put by (simp add: andthen_def)
  show ?thesis
    unfolding listener_add_def option.case
    by (rule runs_bnd_Ret, rule store_run(3) [OF r(1)], simp only: n if_False, rule runs_andthen, rule log,
        rule runs_andthen, rule log, simp only: logs_twice, rule named)
qed

lemma listener_add_first:
  assumes "listeners w []" "lheap w l = Some r" "addable r"
  shows "\<exists>w'. runs (listener_add (Some l)) w () w' \<and> listeners w' [l] \<and> listener_at w' l = set_l_next None r"
proof -
  let ?w = "w\<lparr>lheap := (lheap w)(l \<mapsto> set_l_next None r), g_listeners := Some l\<rparr>"
  have "g_listeners w = None" using assms(1) by (simp add: listeners_def)
  then have "runs (listener_link l (l_fd r)) (w\<lparr>lheap := (lheap w)(l \<mapsto> set_l_next None r), logs := ls\<rparr>) () ?w" for ls
    by (simp add: listener_link_def runs_def)
  then have "runs (listener_add (Some l)) w () ?w" by (rule listener_add_linked [OF assms(2,3)])
  then show ?thesis by (intro exI [of _ ?w]) (simp add: listeners_def listener_at_def set_l_next_def)
qed

lemma listener_add_last:
  assumes c: "listeners w xs" and ne: "xs \<noteq> []" and l: "l \<notin> set xs" "lheap w l = Some r" "addable r"
    and fd: "\<And>a. a \<in> set xs \<Longrightarrow> l_fd (listener_at w a) \<noteq> l_fd r"
  shows "\<exists>w'. runs (listener_add (Some l)) w () w' \<and> listeners w' (xs @ [l]) \<and> listener_at w' l = set_l_next None r"
proof -
  let ?h = "(lheap w)(l \<mapsto> set_l_next None r)"
  let ?z = "last xs"
  let ?w = "w\<lparr>lheap := ?h(?z \<mapsto> set_l_next (Some l) (listener_at w ?z))\<rparr>"
  obtain ys where xs: "xs = ys @ [?z]" using ne by (metis append_butlast_last_id)
  have c0: "chain (lheap w) l_next (g_listeners w) xs" using c by (simp add: listeners_def)
  have c1: "chain ?h l_next (g_listeners w) xs"
    by (rule ll.chain_frame [OF c0]) (use l(1) in auto)
  obtain g where g: "g_listeners w = Some g" using c0 ne by (cases xs) auto
  have z: "?z \<noteq> l" "?h ?z = Some (listener_at w ?z)" "l_fd r \<noteq> l_fd (listener_at w ?z)"
    using ne l(1) listeners_alloc [OF c, of ?z] fd [of ?z] last_in_set [OF ne] by auto
  have at: "the (?h a) = listener_at w a" if "a \<in> set xs" for a
    using that l(1) by (auto simp: listener_at_def)
  have "find (\<lambda>a. l_fd r = l_fd (the (?h a)) \<or> l_next (the (?h a)) = None) xs = Some ?z"
    by (rule ll.insertion_point [OF c1 ne, of "\<lambda>n. l_fd r = l_fd n"]) (use at fd in fastforce)
  with ll_find_chain [OF c1] have "ll_find ?h l_next (\<lambda>n. l_fd r = l_fd n \<or> l_next n = None) (Some g) = Ret (Some ?z)"
    by (simp add: g)
  then have "runs (listener_link l (l_fd r)) (w\<lparr>lheap := ?h, logs := ls\<rparr>) () ?w" for ls
    using z g by (simp add: listener_link_def runs_def bnd_run del: fun_upd_apply)
  then have "runs (listener_add (Some l)) w () ?w" by (rule listener_add_linked [OF l(2,3)])
  moreover have "chain ((lheap w)(l \<mapsto> set_l_next None r, ?z \<mapsto> set_l_next (Some l) (listener_at w ?z))) l_next
      (g_listeners w) (ys @ [?z, l])"
    by (rule ll.chain_append) (use c0 xs l(1) listeners_alloc [OF c, of ?z] ne in \<open>auto simp: set_l_next_def\<close>)
  moreover have "ys @ [?z, l] = xs @ [l]" using xs by simp
  ultimately show ?thesis
    using z(1) by (intro exI [of _ ?w]) (simp add: listeners_def listener_at_def del: fun_upd_apply, simp)
qed

text \<open>Deleting a listener that is not the first one unlinks and frees it.\<close>

lemma cleanup_runs:
  assumes "lheap w l = Some r" "l_cleanup r \<noteq> None"
  shows "\<exists>w'. listener_cleanup l w = Ret ((), w') \<and> lheap w' = (lheap w)(l := None) \<and> g_listeners w' = g_listeners w"
proof -
  obtain f where "l_cleanup r = Some f" using assms(2) by blast
  with assms(1) show ?thesis
    by (cases f) (auto simp: listener_cleanup_def i_listener_link_cleanup_def i_listener_udp_cleanup_def
        i_listener_rpc_udp_cleanup_def close_fd_def bnd_run andthen_def)
qed

lemma listener_delete_inner:
  assumes c: "listeners w (ys @ b # l # zs)" and cl: "l_cleanup (listener_at w l) \<noteq> None"
  shows "\<exists>w'. listener_delete (Some l) w = Ret ((), w') \<and> listeners w' (ys @ b # zs) \<and> lheap w' l = None"
proof -
  let ?xs = "ys @ b # l # zs"
  have c0: "chain (lheap w) l_next (g_listeners w) ?xs" using c by (simp add: listeners_def)
  have d: "distinct ?xs" by (rule chain_distinct [OF c0])
  have m: "lheap w b = Some (listener_at w b)" "lheap w l = Some (listener_at w l)"
    using listeners_alloc [OF c] by auto
  obtain g where g: "g_listeners w = Some g" "g \<noteq> l" using c0 d by (cases ys) auto
  let ?h = "(lheap w)(b \<mapsto> set_l_next (l_next (listener_at w l)) (listener_at w b))"
  have f: "ll_find (lheap w) l_next (\<lambda>n. l_next n = Some l) (Some g) = Ret (Some b)"
    using ll_find_chain [OF c0, of "\<lambda>n. l_next n = Some l"] ll.chain_pred [OF c0] g(1) by simp
  obtain w' where w': "listener_cleanup l (w\<lparr>lheap := ?h\<rparr>) = Ret ((), w')" "lheap w' = ?h(l := None)"
    "g_listeners w' = g_listeners w"
    using cleanup_runs [of "w\<lparr>lheap := ?h\<rparr>" l "listener_at w l"] cl m d by auto
  have "chain (?h(l := None)) l_next (g_listeners w) (ys @ b # zs)"
    by (rule ll.chain_remove [OF c0]) (use m in simp_all)
  then show ?thesis
    using f g m w' by (intro exI [of _ w']) (simp add: listener_delete_def bnd_run andthen_def listeners_def)
qed

text \<open>Deleting the first one frees it twice.\<close>

lemma listener_delete_head:
  assumes c: "listeners w (l # zs)" and cl: "l_cleanup (listener_at w l) \<noteq> None"
  shows "listener_delete (Some l) w = Undef ''listener pointer''"
proof -
  have g: "g_listeners w = Some l" using c by (simp add: listeners_def)
  have m: "lheap w l = Some (listener_at w l)" using listeners_alloc [OF c] by simp
  let ?w = "w\<lparr>g_listeners := l_next (listener_at w l)\<rparr>"
  obtain w' where w': "listener_cleanup l ?w = Ret ((), w')" "lheap w' = (lheap w)(l := None)"
    using cleanup_runs [of ?w l "listener_at w l"] cl m by auto
  then have "listener_cleanup l (w'\<lparr>logs := ls\<rparr>) = Undef ''listener pointer''" for ls
    by (simp add: listener_cleanup_def bnd_run)
  then show ?thesis
    using g m w' by (simp add: listener_delete_def delete_unregistered_def bnd_run andthen_def log_msg_run)
qed

text \<open>Sending only writes the trace and the log.\<close>

lemma keeps_listener_send: "keeps (only_io w0) (listener_send S l sai_to packet pktlen)"
  unfolding listener_send_def i_listener_link_send_def i_listener_udp_send_def
  by (auto intro!: keeps_rules split: option.splits send_fn.splits)

lemma listener_send_frame:
  assumes "listener_send S l sai_to packet pktlen w = Ret (r, w')"
  shows "w' = w\<lparr>trace := trace w', logs := logs w'\<rparr>"
  using keepsD [OF keeps_listener_send assms, of w] by (simp add: only_io_eq)

lemma length_stack_buf [simp]: "length (stack_buf S tr n bs) = n"
  by (simp add: stack_buf_def)

lemma take_stack_buf: "length bs \<le> n \<Longrightarrow> take (length bs) (stack_buf S tr n bs) = bs"
  by (simp add: stack_buf_def min_def)

text \<open>A link listener transmits nothing shorter than 62 bytes.\<close>

lemma link_send_short:
  "lheap w l = Some r \<Longrightarrow> l_send r = Some Link_send \<Longrightarrow> n < 62 \<Longrightarrow> runs (listener_send S l dst pk n) w (-1) w"
  by (simp add: listener_send_def i_listener_link_send_def bnd_run andthen_def log_msg_run runs_def)

lemma link_send_runs:
  "lheap w l = Some r \<Longrightarrow> l_send r = Some Link_send \<Longrightarrow> 62 \<le> n \<Longrightarrow> nat n \<le> length pk \<Longrightarrow>
   runs (listener_send S l dst pk n) w (s_sent S (trace w) (take (nat n) pk))
     (w\<lparr>trace := trace w @ [SendLink (l_device r) (take (nat n) pk)]\<rparr>)"
  by (simp add: listener_send_def i_listener_link_send_def bnd_run andthen_def log_msg_run runs_def)

end
