(* ===== verification/Host.thy ===== *)
theory Host
  imports Listener
begin

text \<open>
  \<open>src/host.c\<close>: the construction of hosts and their files from the configuration, and the
  boot sessions, one per host, whose total number is limited.
\<close>

subsection \<open>Files\<close>

definition host_file_new :: file_t where
  "host_file_new = \<lparr>f_path = None, f_name = None, f_server = None,
     f_aliases = replicate FILE_ALIASES_MAX None, f_service = 0\<rparr>"

definition alias_count :: "file_t \<Rightarrow> nat" where
  "alias_count f = length (takeWhile (\<lambda>a. a \<noteq> None) (f_aliases f))"

text \<open>
  The name and the path a file entry gets when the configuration leaves one out; \<open>Ret None\<close>
  is the early return. The loop that counts the aliases reads \<open>aliases[10]\<close> when all ten
  are set.
\<close>

definition file_defaults :: "file_t \<Rightarrow> file_t option outcome" where
  "file_defaults f =
     (if alias_count f \<ge> FILE_ALIASES_MAX then Undef ''host_file_add: read past aliases''
      else (let has_path = \<not> str_is_equal (f_path f) (Some ''{'')
            in obind (if f_name f \<noteq> None then Ret (Some f)
                 else if alias_count f \<noteq> 0 then Ret (Some (f\<lparr>f_name := f_aliases f ! 0\<rparr>))
                 else if has_path then
                   (case f_path f of
                      None \<Rightarrow> Undef ''host_file_add: strrchr of NULL path''
                    | Some p \<Rightarrow> Ret (Some (f\<lparr>f_name :=
                        Some (case after_last CHR ''/'' p of Some b \<Rightarrow> b | None \<Rightarrow> p)\<rparr>)))
                 else Ret None)
               (\<lambda>r. Ret (map_option (\<lambda>f. if \<not> has_path then f\<lparr>f_path := f_name f\<rparr> else f) r))))"

definition same_name :: "string option \<Rightarrow> string option \<Rightarrow> bool" where
  "same_name a b \<longleftrightarrow> map_option (map tolower) a = map_option (map tolower) b"

text \<open>The insertion into the host's list, unless a file of that name is there.\<close>

definition host_file_insert :: "addr \<Rightarrow> file_t \<Rightarrow> unit cmd" where
  "host_file_insert hp f = bnd (host_get hp) (\<lambda>h.
     case find (\<lambda>n. f_name n = None \<or> same_name (f_name n) (f_name f)) (h_files h) of
       Some n \<Rightarrow>
         if f_name n = None then undef ''strcasecmp: NULL file name''
         else log_msg (LOG_WARN OR LOG_CONF) ''duplicate entry for file %s (ignored)''
     | None \<Rightarrow> host_put hp (h\<lparr>h_files := h_files h @ [f]\<rparr>))"

definition host_file_add :: "addr \<Rightarrow> file_t option \<Rightarrow> unit cmd" where
  "host_file_add hp fp = (case fp of
      None \<Rightarrow> log_msg (LOG_WARN OR LOG_CONF) ''trying to add null file''
    | Some f \<Rightarrow> bnd (lift (file_defaults f)) (\<lambda>r. case r of
        None \<Rightarrow> log_msg (LOG_WARN OR LOG_CONF) ''file has no name''
      | Some f' \<Rightarrow> host_file_insert hp f'))"

subsection \<open>Sessions\<close>

text \<open>
  \<open>host_session_delete\<close>: the descriptors of the session are looked up as descriptors of
  listeners, and what is found is deleted.
\<close>

definition session_close_fd :: "int \<Rightarrow> unit cmd" where
  "session_close_fd fd = (if fd \<noteq> 0 then bnd (listener_search_by_fd fd) listener_delete else ret ())"

definition host_session_delete :: "addr option \<Rightarrow> string \<Rightarrow> unit cmd" where
  "host_session_delete hp msg = (case hp of
      None \<Rightarrow> ret ()
    | Some a \<Rightarrow> bnd (host_get a) (\<lambda>h. case h_session h of
        None \<Rightarrow> ret ()
      | Some p \<Rightarrow> bnd (session_get p) (\<lambda>s.
          andthen (each session_close_fd (take SESSION_FD_MAX (s_fd s)))
          (andthen (log_msg (LOG_INFO OR LOG_BOOT) ''%s session for host %s deleted (%s)'')
          (andthen (session_free p)
          (andthen (host_put a (h\<lparr>h_session := None\<rparr>))
          (modify (\<lambda>w. w\<lparr>g_n_sessions := g_n_sessions w - 1\<rparr>))))))))"

definition host_session_timeout :: "sys \<Rightarrow> addr option \<Rightarrow> unit cmd" where
  "host_session_timeout S hp = (case hp of
      None \<Rightarrow> ret ()
    | Some a \<Rightarrow> bnd (host_get a) (\<lambda>h. case h_session h of
        None \<Rightarrow> ret ()
      | Some p \<Rightarrow> bnd (session_get p) (\<lambda>s.
          bnd (asks (\<lambda>w. to_int32 (s_atime s + c_session_timeout w) < s_time S (trace w))) (\<lambda>expired.
          if expired then host_session_delete hp ''timeout'' else ret ()))))"

text \<open>
  \<open>util_host_session_timeout_all\<close> of \<open>src/util.c\<close>. The body of the loop changes no \<open>next\<close>
  field, so the nodes it visits are those of the list at its start.
\<close>

definition util_host_session_timeout_all :: "sys \<Rightarrow> unit cmd" where
  "util_host_session_timeout_all S =
     bnd (asks (\<lambda>w. ll_nodes (hheap w) h_next (g_hosts w))) (\<lambda>r. bnd (lift r) (\<lambda>ns.
     each (\<lambda>n. host_session_timeout S (Some n)) ns))"

definition session_new :: session_t where
  "session_new = \<lparr>s_service = 0, s_atime = 0, s_sid = 0, s_fd = replicate SESSION_FD_MAX 0, s_l = None\<rparr>"

definition host_session_create :: "sys \<Rightarrow> addr \<Rightarrow> mask \<Rightarrow> int \<Rightarrow> bool cmd" where
  "host_session_create S a service sid =
     bnd (asks (\<lambda>w. g_n_sessions w < c_session_max w)) (\<lambda>free.
     if free then
       andthen (modify (\<lambda>w. w\<lparr>g_n_sessions := g_n_sessions w + 1\<rparr>))
       (bnd malloc (\<lambda>p.
       bnd (asks (\<lambda>w. s_time S (trace w))) (\<lambda>now.
       andthen (session_put p (session_new\<lparr>s_service := service, s_atime := to_int32 now, s_sid := sid\<rparr>))
       (bnd (host_get a) (\<lambda>h.
       andthen (host_put a (h\<lparr>h_session := Some p\<rparr>))
       (andthen (log_msg (LOG_INFO OR LOG_BOOT) ''%s session for host %s created'')
       (ret True)))))))
     else
       andthen (log_msg (LOG_INFO OR LOG_BOOT)
           ''%s session for host %s not created (too many active sessions)'')
       (ret False))"

definition host_session_add :: "sys \<Rightarrow> addr \<Rightarrow> mask \<Rightarrow> int \<Rightarrow> bool cmd" where
  "host_session_add S a service sid =
     andthen (util_host_session_timeout_all S)
     (andthen (host_session_delete (Some a) ''new request'')
     (host_session_create S a service sid))"

definition host_session_check :: "sys \<Rightarrow> addr \<Rightarrow> mask \<Rightarrow> int \<Rightarrow> int cmd" where
  "host_session_check S a service sid = bnd (host_get a) (\<lambda>h. case h_session h of
      None \<Rightarrow> andthen (log_msg (LOG_WARN OR LOG_BOOT) ''%s from %s for nonexistant session'') (ret E_NOSESSION)
    | Some p \<Rightarrow> bnd (session_get p) (\<lambda>s.
        if s_service s \<noteq> service then
          andthen (log_msg (LOG_WARN OR LOG_BOOT) ''%s from %s for nonexistant session'') (ret E_NOSESSION)
        else if s_sid s \<noteq> sid then
          andthen (log_msg (LOG_WARN OR LOG_BOOT) ''%s from %s with bad session id'') (ret E_BADSID)
        else bnd (asks (\<lambda>w. s_time S (trace w))) (\<lambda>now.
          andthen (session_put p (s\<lparr>s_atime := to_int32 now\<rparr>)) (ret E_NOERROR))))"

subsection \<open>The file of a session\<close>

text \<open>\<open>open(path, O_RDONLY)\<close>; a NULL path fails.\<close>

definition open_rdonly :: "sys \<Rightarrow> string option \<Rightarrow> (errno + int) cmd" where
  "open_rdonly S path = (case path of
      None \<Rightarrow> ret (Inl EOther)
    | Some p \<Rightarrow> bnd (asks (\<lambda>w. s_open S (trace w) p)) (\<lambda>r. andthen (emit (OpenFile p)) (case r of
        Inl e \<Rightarrow> ret (Inl e)
      | Inr (fd, content) \<Rightarrow>
          andthen (modify (\<lambda>w. w\<lparr>fdtab := (fdtab w)(fd \<mapsto> content)\<rparr>)) (ret (Inr fd)))))"

definition session_set :: "addr \<Rightarrow> (session_t \<Rightarrow> session_t) \<Rightarrow> unit cmd" where
  "session_set a f = bnd (host_get a) (\<lambda>h. bnd (deref ''NULL session'' (h_session h)) (\<lambda>p.
     bnd (session_get p) (\<lambda>s. session_put p (f s))))"

definition session_fd0 :: "addr \<Rightarrow> int cmd" where
  "session_fd0 a = bnd (host_get a) (\<lambda>h. bnd (deref ''NULL session'' (h_session h)) (\<lambda>p.
     bnd (session_get p) (\<lambda>s. ret (s_fd s ! 0))))"

definition set_fd0 :: "int \<Rightarrow> session_t \<Rightarrow> session_t" where
  "set_fd0 fd s = s\<lparr>s_fd := (s_fd s)[0 := fd]\<rparr>"

subsection \<open>Hosts\<close>

definition host_new :: host_t where
  "host_new = \<lparr>h_next = None, h_device = None, h_name = None, h_service = 0,
     h_eth = replicate 6 0, h_ip = replicate 4 0, h_files = [], h_session = None\<rparr>"

text \<open>
  \<open>host_add\<close> in steps: a missing name, IP address and MAC address are looked up (\<open>False\<close> is
  the early return), the services are defaulted and the log text built in \<open>files[2048]\<close>,
  and the host is linked as the last one unless its name is taken.
\<close>

definition host_fill_name :: "sys \<Rightarrow> addr \<Rightarrow> bool cmd" where
  "host_fill_name S a = bnd (host_get a) (\<lambda>h.
     if h_name h \<noteq> None then ret True
     else if util_ip_valid (h_ip h) then
       bnd (util_ip2name S (h_ip h)) (\<lambda>n. bnd (deref ''strdup of NULL'' n) (\<lambda>n.
       andthen (host_put a (h\<lparr>h_name := Some n\<rparr>)) (ret True)))
     else if util_ether_valid (h_eth h) then
       bnd (util_ether2name S (h_eth h)) (\<lambda>n. bnd (deref ''strdup of NULL'' n) (\<lambda>n.
       andthen (host_put a (h\<lparr>h_name := Some n\<rparr>)) (ret True)))
     else andthen (log_msg (LOG_WARN OR LOG_CONF) ''host has neither name nor ip nor ethernet address'')
       (ret False))"

definition host_fill_ip :: "sys \<Rightarrow> addr \<Rightarrow> bool cmd" where
  "host_fill_ip S a = bnd (host_get a) (\<lambda>h.
     if util_ip_valid (h_ip h) then ret True
     else bnd (deref ''NULL host name'' (h_name h)) (\<lambda>name. bnd (util_name2ip S name) (\<lambda>r. case r of
         Some i \<Rightarrow> andthen (host_put a (h\<lparr>h_ip := i\<rparr>)) (ret True)
       | None \<Rightarrow> andthen (log_msg (LOG_WARN OR LOG_CONF) ''unable to determine ip address for host %s'')
           (ret False))))"

definition host_fill_ether :: "sys \<Rightarrow> addr \<Rightarrow> bool cmd" where
  "host_fill_ether S a = bnd (host_get a) (\<lambda>h.
     if util_ether_valid (h_eth h) then ret True
     else bnd (deref ''NULL host name'' (h_name h)) (\<lambda>name. bnd (util_name2ether S name) (\<lambda>r. case r of
         Some e \<Rightarrow> andthen (host_put a (h\<lparr>h_eth := e\<rparr>)) (ret True)
       | None \<Rightarrow> andthen (log_msg (LOG_WARN OR LOG_CONF) ''unable to determine ethernet address for host %s'')
           (ret False))))"

definition default_service :: "mask \<Rightarrow> file_t \<Rightarrow> file_t" where
  "default_service m f = (if f_service f = 0 then f\<lparr>f_service := m\<rparr> else f)"

definition file_log_text :: "service_t list \<Rightarrow> file_t \<Rightarrow> string outcome" where
  "file_log_text ss f = (case (f_path f, f_name f) of
      (Some p, Some n) \<Rightarrow> Ret (char_of (10 :: nat) # ''  file '' @ p @ char_of (10 :: nat) # ''    name '' @ n
        @ concat (map (\<lambda>a. '' | '' @ the a) (takeWhile (\<lambda>a. a \<noteq> None) (take FILE_ALIASES_MAX (f_aliases f))))
        @ (case f_server f of None \<Rightarrow> '''' | Some s \<Rightarrow> char_of (10 :: nat) # ''    server '' @ s)
        @ char_of (10 :: nat) # ''    service '' @ service_text ss (f_service f))
    | _ \<Rightarrow> Undef ''host_add: strcat of NULL'')"

fun files_log_text :: "service_t list \<Rightarrow> file_t list \<Rightarrow> string outcome" where
  "files_log_text ss [] = Ret ''''"
| "files_log_text ss (f # fs) =
     obind (file_log_text ss f) (\<lambda>t. obind (files_log_text ss fs) (\<lambda>u. Ret (t @ u)))"

definition host_defaults :: "addr \<Rightarrow> unit cmd" where
  "host_defaults a = bnd (host_get a) (\<lambda>h.
     let m = (if h_service h = 0 then SERVICE_ALL else h_service h);
         fs = map (default_service m) (h_files h)
     in andthen (host_put a (h\<lparr>h_service := m, h_files := fs\<rparr>))
        (bnd (asks l_services) (\<lambda>ss.
         bnd (lift (files_log_text ss fs)) (\<lambda>text.
         if length text \<ge> 2048 then undef ''host_add: strcat past files''
         else log_msg (LOG_DEBUG OR LOG_CONF) ''host %s  ether: %s  ip: %s  service: %s%s''))))"

definition host_link :: "addr \<Rightarrow> unit cmd" where
  "host_link a = bnd (asks g_hosts) (\<lambda>g. case g of
      None \<Rightarrow> modify (\<lambda>w. w\<lparr>g_hosts := Some a\<rparr>)
    | Some _ \<Rightarrow> bnd (host_get a) (\<lambda>h.
        bnd (asks (\<lambda>w. ll_find (hheap w) h_next (\<lambda>n. (h_name n = None \<or> same_name (h_name h) (h_name n)) \<or> h_next n = None) g))
        (\<lambda>found. bnd (lift found) (\<lambda>p. case p of
           None \<Rightarrow> ret ()
         | Some b \<Rightarrow> bnd (host_get b) (\<lambda>n.
             if h_name n = None then undef ''strcasecmp: NULL host name''
             else if same_name (h_name h) (h_name n)
             then log_msg (LOG_WARN OR LOG_CONF) ''duplicate entry for host %s (ignored)''
             else host_put b (set_h_next (Some a) n))))))"

definition host_add :: "sys \<Rightarrow> addr option \<Rightarrow> unit cmd" where
  "host_add S hp = (case hp of
      None \<Rightarrow> log_msg (LOG_WARN OR LOG_CONF) ''trying to add null host''
    | Some a \<Rightarrow> bnd (host_fill_name S a) (\<lambda>ok. if \<not> ok then ret ()
        else bnd (host_fill_ip S a) (\<lambda>ok. if \<not> ok then ret ()
        else bnd (host_fill_ether S a) (\<lambda>ok. if \<not> ok then ret ()
        else andthen (host_defaults a) (host_link a)))))"

text \<open>
  \<open>host_clone\<close> copies the whole structure, with its \<open>next\<close> and its session pointer, and
  adds the copy.
\<close>

definition host_clone :: "sys \<Rightarrow> addr \<Rightarrow> string option \<Rightarrow> etheraddr option \<Rightarrow> ipaddr option \<Rightarrow> addr cmd" where
  "host_clone S src name ether ip = bnd malloc (\<lambda>a. bnd (host_get src) (\<lambda>h.
     andthen (host_put a (h\<lparr>h_name := name,
         h_eth := (case ether of Some e \<Rightarrow> e | None \<Rightarrow> replicate 6 0),
         h_ip := (case ip of Some i \<Rightarrow> i | None \<Rightarrow> replicate 4 0)\<rparr>))
     (andthen (host_add S (Some a)) (ret a))))"

subsection \<open>Facts: the frame of the session operations\<close>

text \<open>
  \<open>same_hosts w0 w\<close>: the part of the state the session functions own is as in \<open>w0\<close>. What
  \<open>host_session_delete\<close> does to the listeners stays out of it.
\<close>

definition same_hosts :: "world \<Rightarrow> world \<Rightarrow> bool" where
  "same_hosts w0 w \<longleftrightarrow> g_hosts w = g_hosts w0 \<and> hheap w = hheap w0 \<and> sheap w = sheap w0
     \<and> brk w = brk w0 \<and> g_n_sessions w = g_n_sessions w0 \<and> c_session_max w = c_session_max w0
     \<and> c_session_timeout w = c_session_timeout w0 \<and> l_services w = l_services w0"

lemma same_hosts_simps [simp]:
  "same_hosts w w"
  "same_hosts w0 (w\<lparr>logs := ls\<rparr>) = same_hosts w0 w"
  "same_hosts w0 (w\<lparr>trace := tr\<rparr>) = same_hosts w0 w"
  "same_hosts w0 (w\<lparr>lheap := lh\<rparr>) = same_hosts w0 w"
  "same_hosts w0 (w\<lparr>g_listeners := g\<rparr>) = same_hosts w0 w"
  "same_hosts w0 (w\<lparr>fdtab := t\<rparr>) = same_hosts w0 w"
  "same_hosts w0 (w\<lparr>rmp_sid := i\<rparr>) = same_hosts w0 w"
  by (simp_all add: same_hosts_def)

lemma keeps_listener_cleanup:
  "(\<And>w lh. I w \<Longrightarrow> I (w\<lparr>lheap := lh\<rparr>)) \<Longrightarrow> (\<And>w tr. I w \<Longrightarrow> I (w\<lparr>trace := tr\<rparr>)) \<Longrightarrow>
   (\<And>w t. I w \<Longrightarrow> I (w\<lparr>fdtab := t\<rparr>)) \<Longrightarrow> keeps I (listener_cleanup l)"
  unfolding listener_cleanup_def i_listener_link_cleanup_def i_listener_udp_cleanup_def
    i_listener_rpc_udp_cleanup_def close_fd_def listener_free_def
  by (auto intro!: keeps_rules keeps_modify split: option.splits cleanup_fn.splits)

lemma keeps_session_close_fd: "keeps (same_hosts w0) (session_close_fd fd)"
  unfolding session_close_fd_def listener_search_by_fd_def listener_delete_def
    delete_unregistered_def listener_put_def
  by (auto intro!: keeps_rules keeps_modify keeps_listener_cleanup split: option.splits)

lemma each_close_frame:
  "each session_close_fd fds w = Ret (x, w') \<Longrightarrow> same_hosts w w'"
  by (rule keepsD [OF keeps_each]) (auto intro: keeps_session_close_fd)

subsection \<open>Facts: the session invariant\<close>

text \<open>
  The registered hosts that have a session, and the invariant of the session table: the
  host list ends, every session pointer of a registered host is live and belongs to one
  host only, the counter \<open>g_n_sessions\<close> counts them and respects the configured limit.
\<close>

definition session_of :: "world \<Rightarrow> addr \<Rightarrow> addr option" where
  "session_of w a = h_session (host_at w a)"

definition active :: "world \<Rightarrow> addr list \<Rightarrow> addr set" where
  "active w xs = {a \<in> set xs. session_of w a \<noteq> None}"

definition session_inv :: "world \<Rightarrow> addr list \<Rightarrow> bool" where
  "session_inv w xs \<longleftrightarrow> hosts w xs \<and> inj_on (session_of w) (active w xs)
     \<and> (\<forall>a \<in> active w xs. the (session_of w a) < brk w \<and> sheap w (the (session_of w a)) \<noteq> None)
     \<and> g_n_sessions w = int (card (active w xs)) \<and> g_n_sessions w \<le> max 0 (c_session_max w)"

lemma session_inv_frame: "same_hosts w0 w \<Longrightarrow> session_inv w xs \<longleftrightarrow> session_inv w0 xs"
  unfolding same_hosts_def session_inv_def active_def session_of_def host_at_def hosts_def inj_on_def
  by simp

lemma session_inv_logs [simp]: "session_inv (w\<lparr>logs := ls\<rparr>) xs \<longleftrightarrow> session_inv w xs"
  by (rule session_inv_frame) simp

lemma session_of_simps [simp]:
  "session_of (w\<lparr>logs := ls\<rparr>) a = session_of w a"
  "session_of (w\<lparr>trace := tr\<rparr>) a = session_of w a"
  by (simp_all add: session_of_def host_at_def)

lemma finite_active [simp]: "finite (active w xs)"
  by (simp add: active_def)

lemma session_inv_hosts: "session_inv w xs \<Longrightarrow> hosts w xs"
  by (simp add: session_inv_def)

lemma inv_host: "session_inv w xs \<Longrightarrow> a \<in> set xs \<Longrightarrow> hheap w a = Some (host_at w a)"
  by (auto simp: session_inv_def intro: hosts_alloc)

lemma inv_session:
  "session_inv w xs \<Longrightarrow> a \<in> set xs \<Longrightarrow> h_session (host_at w a) = Some p \<Longrightarrow> \<exists>s. sheap w p = Some s"
  by (auto simp: session_inv_def active_def session_of_def)

lemma hosts_put_session:
  "hosts w xs \<Longrightarrow> hheap w a = Some h \<Longrightarrow>
   chain ((hheap w)(a \<mapsto> h\<lparr>h_session := q\<rparr>)) h_next (g_hosts w) xs"
  unfolding hosts_def by (rule hl.chain_update_payload) simp_all

definition drop_session :: "addr \<Rightarrow> addr \<Rightarrow> world \<Rightarrow> world" where
  "drop_session a p w = w\<lparr>sheap := (sheap w)(p := None),
     hheap := (hheap w)(a \<mapsto> (host_at w a)\<lparr>h_session := None\<rparr>), g_n_sessions := g_n_sessions w - 1\<rparr>"

lemma drop_session_inv:
  assumes inv: "session_inv w xs" and a: "a \<in> set xs" and p: "session_of w a = Some p"
  shows "session_inv (drop_session a p w) xs"
proof -
  let ?w = "drop_session a p w"
  have so: "session_of ?w b = (if b = a then None else session_of w b)" for b
    by (simp add: session_of_def host_at_def drop_session_def)
  have act: "active ?w xs = active w xs - {a}"
    by (auto simp: active_def so)
  have mem: "a \<in> active w xs" using a p by (simp add: active_def)
  then have pos: "card (active w xs) > 0" by (auto simp: card_gt_0_iff)
  have "hosts ?w xs"
    using hosts_put_session [OF session_inv_hosts [OF inv] inv_host [OF inv a], of None]
    by (simp add: hosts_def drop_session_def)
  moreover have "inj_on (session_of ?w) (active ?w xs)"
    using inv by (auto simp: act so inj_on_def session_inv_def)
  moreover have "the (session_of ?w b) < brk ?w \<and> sheap ?w (the (session_of ?w b)) \<noteq> None"
    if b: "b \<in> active ?w xs" for b
  proof -
    have ba: "b \<in> active w xs" "b \<noteq> a" using b by (auto simp: act)
    then obtain q where q: "session_of w b = Some q" by (auto simp: active_def)
    have "q \<noteq> p"
      using inv ba mem p q by (auto simp: session_inv_def inj_on_def)
    then show ?thesis
      using inv ba q so [of b] by (auto simp: session_inv_def drop_session_def)
  qed
  moreover have "g_n_sessions ?w = int (card (active ?w xs))" "g_n_sessions ?w \<le> max 0 (c_session_max ?w)"
    using inv mem pos unfolding act by (auto simp: session_inv_def drop_session_def)
  ultimately show ?thesis by (simp add: session_inv_def)
qed

lemma host_session_delete_cases:
  assumes d: "host_session_delete (Some a) msg w = Ret (x, w')"
  shows "(session_of w a = None \<and> w' = w)
        \<or> (\<exists>p w1. session_of w a = Some p \<and> same_hosts w w1 \<and> w' = drop_session a p w1)"
proof -
  obtain h where h: "hheap w a = Some h"
    using d by (auto simp: host_session_delete_def bnd_Ret_iff store_Ret_iff)
  then have ha: "host_at w a = h" by (simp add: host_at_def)
  show ?thesis
  proof (cases "h_session h")
    case None
    with d h ha show ?thesis
      by (simp add: host_session_delete_def bnd_Ret_iff session_of_def)
  next
    case (Some p)
    with d h obtain s :: session_t and w1 w2 where
      e: "each session_close_fd (take SESSION_FD_MAX (s_fd s)) w = Ret ((), w1)"
      and w2: "log_msg (LOG_INFO OR LOG_BOOT) ''%s session for host %s deleted (%s)'' w1 = Ret ((), w2)"
      and w': "w' = w2\<lparr>sheap := (sheap w2)(p := None), hheap := (hheap w2)(a \<mapsto> h\<lparr>h_session := None\<rparr>),
        g_n_sessions := g_n_sessions w2 - 1\<rparr>"
      by (clarsimp simp: host_session_delete_def bnd_Ret_iff andthen_Ret_iff store_Ret_iff store_run
          simp del: SESSION_FD_MAX_def LOG_INFO_def LOG_BOOT_def)
    have "same_hosts w w2"
      using each_close_frame [OF e] w2 by (auto simp: log_msg_def split: if_splits)
    moreover have "session_of w a = Some p" "w' = drop_session a p w2"
      using w' ha Some h calculation by (simp_all add: drop_session_def session_of_def host_at_def same_hosts_def)
    ultimately show ?thesis by blast
  qed
qed

lemma keeps_host_session_delete [keeps_rules]:
  assumes "\<And>a. hp = Some a \<Longrightarrow> a \<in> set xs"
  shows "keeps (\<lambda>w. session_inv w xs) (host_session_delete hp msg)"
proof (rule keepsI)
  fix w x w'
  assume inv: "session_inv w xs" and d: "host_session_delete hp msg w = Ret (x, w')"
  show "session_inv w' xs"
  proof (cases hp)
    case None
    with inv d show ?thesis by (simp add: host_session_delete_def)
  next
    case (Some a)
    with d have "host_session_delete (Some a) msg w = Ret (x, w')" by simp
    from host_session_delete_cases [OF this] show ?thesis
    proof (elim disjE exE conjE)
      fix p w1
      assume p: "session_of w a = Some p" and f: "same_hosts w w1" and w': "w' = drop_session a p w1"
      have "session_inv w1 xs" using f inv by (simp add: session_inv_frame)
      moreover have "session_of w1 a = Some p"
        using p f by (simp add: session_of_def host_at_def same_hosts_def)
      ultimately show ?thesis using w' assms Some by (simp add: drop_session_inv)
    qed (use inv in simp)
  qed
qed

text \<open>One preservation lemma per operation.\<close>

lemma keeps_host_session_timeout [keeps_rules]:
  assumes "\<And>a. hp = Some a \<Longrightarrow> a \<in> set xs"
  shows "keeps (\<lambda>w. session_inv w xs) (host_session_timeout S hp)"
  unfolding host_session_timeout_def using assms
  by (auto intro!: keeps_rules split: option.splits)

lemma keeps_each_in: "(\<And>x. x \<in> set xs \<Longrightarrow> keeps I (f x)) \<Longrightarrow> keeps I (each f xs)"
  by (induction xs) (auto intro: keeps_rules)

lemma keeps_timeouts:
  assumes list: "\<And>w. I w \<Longrightarrow> hosts w xs" and one: "\<And>a. a \<in> set xs \<Longrightarrow> keeps I (host_session_timeout S (Some a))"
  shows "keeps I (util_host_session_timeout_all S)"
proof (rule keepsI)
  fix w x w'
  assume inv: "I w" and r: "util_host_session_timeout_all S w = Ret (x, w')"
  have "ll_nodes (hheap w) h_next (g_hosts w) = Ret xs"
    using list [OF inv] by (simp add: hosts_def ll_nodes_chain)
  with r have "each (\<lambda>n. host_session_timeout S (Some n)) xs w = Ret (x, w')"
    by (simp add: util_host_session_timeout_all_def bnd_Ret_iff)
  moreover have "keeps I (each (\<lambda>n. host_session_timeout S (Some n)) xs)"
    by (intro keeps_each_in one)
  ultimately show "I w'" using inv by (metis keepsD)
qed

lemma keeps_timeout_all [keeps_rules]:
  "keeps (\<lambda>w. session_inv w xs) (util_host_session_timeout_all S)"
  by (rule keeps_timeouts) (auto intro: keeps_host_session_timeout session_inv_hosts)

definition put_session :: "addr \<Rightarrow> session_t \<Rightarrow> world \<Rightarrow> world" where
  "put_session a s w = w\<lparr>g_n_sessions := g_n_sessions w + 1, brk := Suc (brk w),
     sheap := (sheap w)(brk w \<mapsto> s), hheap := (hheap w)(a \<mapsto> (host_at w a)\<lparr>h_session := Some (brk w)\<rparr>)\<rparr>"

lemma put_session_fields [simp]:
  "brk (put_session a s w) = Suc (brk w)"
  "sheap (put_session a s w) = (sheap w)(brk w \<mapsto> s)"
  "g_n_sessions (put_session a s w) = g_n_sessions w + 1"
  "c_session_max (put_session a s w) = c_session_max w"
  "session_of (put_session a s w) b = (if b = a then Some (brk w) else session_of w b)"
  by (simp_all add: put_session_def session_of_def host_at_def)

lemma put_session_inv:
  assumes inv: "session_inv w xs" and a: "a \<in> set xs" and p: "session_of w a = None"
    and room: "g_n_sessions w < c_session_max w"
  shows "session_inv (put_session a s w) xs"
proof -
  let ?w = "put_session a s w"
  have act: "active ?w xs = insert a (active w xs)"
    using a by (auto simp: active_def)
  have new: "a \<notin> active w xs" using p by (simp add: active_def)
  have old: "the (session_of w b) < brk w" "session_of w b \<noteq> None" if "b \<in> active w xs" for b
    using inv that by (auto simp: session_inv_def active_def)
  have "hosts ?w xs"
    using hosts_put_session [OF session_inv_hosts [OF inv] inv_host [OF inv a], of "Some (brk w)"]
    by (simp add: hosts_def put_session_def)
  moreover have "inj_on (session_of ?w) (active ?w xs)"
    using inv new old by (fastforce simp: act inj_on_def session_inv_def)
  moreover have "the (session_of ?w b) < brk ?w \<and> sheap ?w (the (session_of ?w b)) \<noteq> None"
    if b: "b \<in> active ?w xs" for b
    using inv b old [of b] by (auto simp: act session_inv_def)
  moreover have "g_n_sessions ?w = int (card (active ?w xs))" "g_n_sessions ?w \<le> max 0 (c_session_max ?w)"
    using inv new room unfolding act by (auto simp: session_inv_def)
  ultimately show ?thesis by (simp add: session_inv_def)
qed

text \<open>The deletion leaves the host without a session, and \<open>host_session_add\<close> is this.\<close>

lemma host_session_delete_none:
  "host_session_delete (Some a) msg w = Ret (x, w') \<Longrightarrow> session_of w' a = None"
  by (drule host_session_delete_cases) (auto simp: session_of_def host_at_def drop_session_def)

lemma host_session_delete_params:
  "host_session_delete (Some a) msg w = Ret (x, w') \<Longrightarrow> c_session_max w' = c_session_max w"
  by (drule host_session_delete_cases) (auto simp: drop_session_def same_hosts_def)

lemma host_session_add_cases:
  assumes "host_session_add S a service sid w = Ret (r, w')"
  obtains w1 where "andthen (util_host_session_timeout_all S) (host_session_delete (Some a) ''new request'') w = Ret ((), w1)"
    and "r \<longleftrightarrow> g_n_sessions w1 < c_session_max w1"
    and "\<exists>ls now. w' = (if r then put_session a (session_new\<lparr>s_service := service, s_atime := now, s_sid := sid\<rparr>) w1
       else w1)\<lparr>logs := ls\<rparr>"
proof -
  from assms obtain w0 w1 where
    t: "util_host_session_timeout_all S w = Ret ((), w0)"
      "host_session_delete (Some a) ''new request'' w0 = Ret ((), w1)"
    and rest: "host_session_create S a service sid w1 = Ret (r, w')"
    unfolding host_session_add_def andthen_unit_Ret by blast
  note rest = rest [unfolded host_session_create_def bnd_simps(3)]
  have "andthen (util_host_session_timeout_all S) (host_session_delete (Some a) ''new request'') w = Ret ((), w1)"
    using t by (auto simp: andthen_Ret_iff)
  moreover have "r \<longleftrightarrow> g_n_sessions w1 < c_session_max w1"
    using rest by (auto simp: andthen_Ret_iff bnd_Ret_iff split: if_splits)
  moreover have "\<exists>ls now. w' = (if r then put_session a (session_new\<lparr>s_service := service, s_atime := now, s_sid := sid\<rparr>) w1
       else w1)\<lparr>logs := ls\<rparr>"
  proof (cases "g_n_sessions w1 < c_session_max w1")
    case True
    show ?thesis
    proof (cases "hheap w1 a")
      case None
      with rest True show ?thesis by (simp add: andthen_def bnd_run)
    next
      case (Some h)
      with rest True show ?thesis
        by (auto simp: andthen_def bnd_run log_msg_run put_session_def host_at_def)
    qed
  next
    case False
    with rest have "\<not> r" "\<exists>ls. w' = w1\<lparr>logs := ls\<rparr>"
      by (auto simp: andthen_Ret_iff bnd_Ret_iff log_msg_def intro: exI [of _ "logs w'"] split: if_splits)
    then show ?thesis by auto
  qed
  ultimately show ?thesis using that by blast
qed

lemma keeps_host_session_add [keeps_rules]:
  assumes a: "a \<in> set xs"
  shows "keeps (\<lambda>w. session_inv w xs) (host_session_add S a service sid)"
proof (rule keepsI)
  fix w r w'
  assume inv: "session_inv w xs" and r: "host_session_add S a service sid w = Ret (r, w')"
  from r obtain w1 ls now where
    d: "andthen (util_host_session_timeout_all S) (host_session_delete (Some a) ''new request'') w = Ret ((), w1)"
    and res: "r \<longleftrightarrow> g_n_sessions w1 < c_session_max w1"
    and w': "w' = (if r then put_session a (session_new\<lparr>s_service := service, s_atime := now, s_sid := sid\<rparr>) w1
       else w1)\<lparr>logs := ls\<rparr>"
    by (rule host_session_add_cases) blast
  have "session_inv w1 xs"
  proof -
    have "keeps (\<lambda>w. session_inv w xs)
        (andthen (util_host_session_timeout_all S) (host_session_delete (Some a) ''new request''))"
      using a by (auto intro: keeps_rules)
    from keepsD [where I = "\<lambda>w. session_inv w xs", OF this d inv] show ?thesis .
  qed
  moreover have "session_of w1 a = None"
    using d by (auto simp: andthen_Ret_iff dest: host_session_delete_none)
  ultimately show "session_inv w' xs"
    using w' res a by (simp add: put_session_inv)
qed

lemma session_inv_touch:
  assumes "session_inv w xs" and "sheap w p = Some s"
  shows "session_inv (w\<lparr>sheap := (sheap w)(p \<mapsto> s')\<rparr>) xs"
proof -
  let ?w = "w\<lparr>sheap := (sheap w)(p \<mapsto> s')\<rparr>"
  have "session_of ?w = session_of w" "active ?w xs = active w xs"
    by (auto simp: active_def session_of_def host_at_def)
  then show ?thesis
    using assms by (auto simp: session_inv_def hosts_def simp del: fun_upd_apply) (auto)
qed

lemma keeps_host_session_check [keeps_rules]:
  "keeps (\<lambda>w. session_inv w xs) (host_session_check S a service sid)"
proof (rule keepsI)
  fix w r w'
  assume inv: "session_inv w xs" and r: "host_session_check S a service sid w = Ret (r, w')"
  have log: "session_inv v' xs" if "log_msg what fmt v = Ret (u, v')" "session_inv v xs" for what fmt v v' u
    using that by (auto simp: log_msg_def split: if_splits)
  from r obtain h where h: "hheap w a = Some h"
    by (auto simp: host_session_check_def bnd_Ret_iff store_Ret_iff)
  show "session_inv w' xs"
  proof (cases "h_session h")
    case None
    with r h inv show ?thesis
      by (auto simp: host_session_check_def bnd_Ret_iff andthen_Ret_iff elim: log)
  next
    case (Some p)
    with r h inv show ?thesis
      by (auto simp: host_session_check_def bnd_Ret_iff andthen_Ret_iff store_Ret_iff store_run
          session_inv_touch simp del: fun_upd_apply elim: log split: if_splits)
  qed
qed

subsection \<open>The session table as a state machine\<close>

text \<open>
  The steps of the session functions on registered hosts, and what they keep in every
  reachable state.
\<close>

inductive session_step :: "sys \<Rightarrow> addr list \<Rightarrow> world \<Rightarrow> world \<Rightarrow> bool" for S :: sys and xs :: "addr list" where
  step_delete: "a \<in> set xs \<Longrightarrow> host_session_delete (Some a) msg w = Ret ((), w') \<Longrightarrow> session_step S xs w w'"
| step_timeout: "util_host_session_timeout_all S w = Ret ((), w') \<Longrightarrow> session_step S xs w w'"
| step_add: "a \<in> set xs \<Longrightarrow> host_session_add S a service sid w = Ret (ok, w') \<Longrightarrow> session_step S xs w w'"
| step_check: "a \<in> set xs \<Longrightarrow> host_session_check S a service sid w = Ret (e, w') \<Longrightarrow> session_step S xs w w'"

inductive session_reach :: "sys \<Rightarrow> addr list \<Rightarrow> world \<Rightarrow> world \<Rightarrow> bool" for S :: sys and xs :: "addr list" where
  reach_start: "session_reach S xs w w"
| reach_step: "session_reach S xs w v \<Longrightarrow> session_step S xs v u \<Longrightarrow> session_reach S xs w u"

lemma session_step_inv: "session_step S xs w w' \<Longrightarrow> session_inv w xs \<Longrightarrow> session_inv w' xs"
proof (induction rule: session_step.induct)
  case (step_delete a msg w w')
  then show ?case by (metis keeps_host_session_delete keepsD option.inject)
next
  case (step_timeout w w')
  then show ?case by (metis keeps_timeout_all keepsD)
next
  case (step_add a service sid w ok w')
  then show ?case by (metis keeps_host_session_add keepsD)
next
  case (step_check a service sid w e w')
  then show ?case by (metis keeps_host_session_check keepsD)
qed

subsection \<open>The abstract session table\<close>

text \<open>
  What the session functions promise: a table from hosts to sessions, from which a request
  first drops the expired sessions and the host's own, and into which it enters a new
  session if fewer than the maximum remain.
\<close>

type_synonym session_table = "addr \<Rightarrow> session_t option"

definition fresh_session :: "mask \<Rightarrow> int \<Rightarrow> int \<Rightarrow> session_t" where
  "fresh_session service now sid =
     session_new\<lparr>s_service := service, s_atime := to_int32 now, s_sid := sid\<rparr>"

definition spec_expire :: "int \<Rightarrow> int \<Rightarrow> session_table \<Rightarrow> session_table" where
  "spec_expire now tmo m = (\<lambda>a. case m a of
      None \<Rightarrow> None
    | Some s \<Rightarrow> if to_int32 (s_atime s + tmo) < now then None else Some s)"

definition spec_add :: "int \<Rightarrow> int \<Rightarrow> int \<Rightarrow> addr \<Rightarrow> mask \<Rightarrow> int \<Rightarrow> session_table \<Rightarrow> bool \<times> session_table" where
  "spec_add now tmo mx a service sid m =
     (let m1 = (spec_expire now tmo m)(a := None)
      in if int (card (dom m1)) < mx then (True, m1(a \<mapsto> fresh_session service now sid)) else (False, m1))"

definition spec_check :: "int \<Rightarrow> addr \<Rightarrow> mask \<Rightarrow> int \<Rightarrow> session_table \<Rightarrow> int \<times> session_table" where
  "spec_check now a service sid m = (case m a of
      None \<Rightarrow> (E_NOSESSION, m)
    | Some s \<Rightarrow>
        if s_service s \<noteq> service then (E_NOSESSION, m)
        else if s_sid s \<noteq> sid then (E_BADSID, m)
        else (E_NOERROR, m(a \<mapsto> s\<lparr>s_atime := to_int32 now\<rparr>)))"

definition table :: "world \<Rightarrow> addr list \<Rightarrow> session_table" where
  "table w xs = (\<lambda>a. if a \<in> set xs then Option.bind (session_of w a) (sheap w) else None)"

text \<open>
  No descriptor held by a session is that of a listener, so that deleting the session
  deletes no listener.
\<close>

definition quiet :: "world \<Rightarrow> bool" where
  "quiet w \<longleftrightarrow> (\<forall>p s fd. sheap w p = Some s \<longrightarrow> fd \<in> set (take SESSION_FD_MAX (s_fd s)) \<longrightarrow> fd \<noteq> 0 \<longrightarrow>
     ll_find (lheap w) l_next (\<lambda>n. l_fd n = fd) (g_listeners w) = Ret None)"

text \<open>Everything outside the sessions is as in \<open>w0\<close>.\<close>

definition session_frame :: "world \<Rightarrow> world \<Rightarrow> bool" where
  "session_frame w0 w \<longleftrightarrow> trace w = trace w0 \<and> g_hosts w = g_hosts w0 \<and> lheap w = lheap w0
     \<and> g_listeners w = g_listeners w0 \<and> c_session_max w = c_session_max w0
     \<and> c_session_timeout w = c_session_timeout w0 \<and> fdtab w = fdtab w0
     \<and> (\<forall>a. map_option (\<lambda>h. h\<lparr>h_session := None\<rparr>) (hheap w a) = map_option (\<lambda>h. h\<lparr>h_session := None\<rparr>) (hheap w0 a))"

definition session_state :: "world \<Rightarrow> addr list \<Rightarrow> bool" where
  "session_state w xs \<longleftrightarrow> session_inv w xs \<and> quiet w"

lemma session_state_logs [simp]: "session_state (w\<lparr>logs := ls\<rparr>) xs = session_state w xs"
  by (simp add: session_state_def quiet_def)

lemma session_state_sid [simp]: "session_state (w\<lparr>rmp_sid := i\<rparr>) xs = session_state w xs"
  using session_inv_frame [of w "w\<lparr>rmp_sid := i\<rparr>" xs] by (simp add: session_state_def quiet_def)

lemma table_sid [simp]: "table (w\<lparr>rmp_sid := i\<rparr>) xs = table w xs"
  by (simp add: table_def session_of_def host_at_def cong: if_cong)

lemma table_logs [simp]: "table (w\<lparr>logs := ls\<rparr>) xs = table w xs"
  by (simp add: table_def cong: if_cong)

lemma table_dom: "session_inv w xs \<Longrightarrow> dom (table w xs) = active w xs"
  by (fastforce simp: table_def active_def session_inv_def Option.bind_eq_Some_conv split: if_splits)

lemma table_count: "session_inv w xs \<Longrightarrow> int (card (dom (table w xs))) = g_n_sessions w"
  by (simp add: table_dom session_inv_def)

lemma quiet_search:
  "quiet w \<Longrightarrow> sheap w p = Some s \<Longrightarrow> fd \<in> set (take SESSION_FD_MAX (s_fd s)) \<Longrightarrow> fd \<noteq> 0 \<Longrightarrow>
   listener_search_by_fd fd (w\<lparr>logs := ls\<rparr>) = Ret (None, w\<lparr>logs := ls\<rparr>)"
  by (simp add: quiet_def listener_search_by_fd_def lift_def)

lemma close_quiet:
  assumes "quiet w" "sheap w p = Some s" "fd \<in> set (take SESSION_FD_MAX (s_fd s))"
  shows "runs (session_close_fd fd) (w\<lparr>logs := ls\<rparr>) () w"
proof (cases "fd = 0")
  case True
  then show ?thesis by (simp add: session_close_fd_def runs_def)
next
  case False
  with quiet_search [OF assms False] show ?thesis
    by (simp add: session_close_fd_def bnd_run listener_delete_def runs_def log_msg_run)
qed

lemma host_session_delete_runs:
  assumes q: "quiet w" and h: "hheap w a = Some h" and p: "h_session h = Some p" "sheap w p = Some s"
  shows "runs (host_session_delete (Some a) msg) w () (drop_session a p w)"
proof -
  have c: "runs (each session_close_fd (take SESSION_FD_MAX (s_fd s))) (w\<lparr>logs := logs w\<rparr>) () w"
    by (rule runs_each) (rule close_quiet [OF q p(2)])
  then obtain ls where "each session_close_fd (take SESSION_FD_MAX (s_fd s)) w = Ret ((), w\<lparr>logs := ls\<rparr>)"
    by (auto simp: runs_iff)
  then show ?thesis
    using h p by (simp add: host_session_delete_def bnd_run andthen_def log_msg_run runs_def drop_session_def
        host_at_def del: SESSION_FD_MAX_def)
qed

text \<open>
  \<open>srun m w x t xs\<close>: from a good state the command returns \<open>x\<close> in a good state whose table
  is \<open>t\<close>, and changes nothing but sessions and the log.
\<close>

definition srun :: "'a cmd \<Rightarrow> world \<Rightarrow> 'a \<Rightarrow> session_table \<Rightarrow> addr list \<Rightarrow> bool" where
  "srun m w x t xs \<longleftrightarrow> (\<exists>w'. runs m w x w' \<and> session_state w' xs \<and> session_frame w w' \<and> table w' xs = t)"

lemma session_frame_refl [simp]: "session_frame w w"
  by (simp add: session_frame_def)

lemma session_frame_logs [simp]: "session_frame w0 (w\<lparr>logs := ls\<rparr>) = session_frame w0 w"
  by (simp add: session_frame_def)

lemma session_frame_trans: "session_frame w0 w1 \<Longrightarrow> session_frame w1 w2 \<Longrightarrow> session_frame w0 w2"
  by (simp add: session_frame_def)

lemma srun_andthen:
  assumes "srun m w () t xs"
    and k: "\<And>w1. session_state w1 xs \<Longrightarrow> session_frame w w1 \<Longrightarrow> table w1 xs = t \<Longrightarrow> srun k w1 x t' xs"
  shows "srun (andthen m k) w x t' xs"
proof -
  obtain w1 ls where m: "m w = Ret ((), w1\<lparr>logs := ls\<rparr>)"
    and s: "session_state w1 xs" and f: "session_frame w w1" and t: "table w1 xs = t"
    using assms(1) by (auto simp: srun_def runs_iff)
  obtain w2 ls2 where k': "k (w1\<lparr>logs := ls\<rparr>) = Ret (x, w2\<lparr>logs := ls2\<rparr>)"
    and s2: "session_state w2 xs" "session_frame (w1\<lparr>logs := ls\<rparr>) w2" "table w2 xs = t'"
    using k [of "w1\<lparr>logs := ls\<rparr>"] s f t by (auto simp: srun_def runs_iff)
  have "runs (andthen m k) w x w2"
    using m k' by (auto simp: runs_iff andthen_def bnd_run)
  moreover have "session_frame w w2"
    using f s2(2) by (simp add: session_frame_def)
  ultimately show ?thesis using s2 by (auto simp: srun_def)
qed

lemma table_not_active: "session_of w a = None \<Longrightarrow> (table w xs)(a := None) = table w xs"
  by (auto simp: table_def fun_eq_iff)

lemma srun_drop:
  assumes st: "session_state w xs" and a: "a \<in> set xs" and p: "session_of w a = Some p"
    and r: "runs m w () (drop_session a p w)"
  shows "srun m w () ((table w xs)(a := None)) xs"
proof -
  let ?w = "drop_session a p w"
  have inv: "session_inv w xs" and q: "quiet w" using st by (simp_all add: session_state_def)
  have so: "session_of ?w b = (if b = a then None else session_of w b)" for b
    by (simp add: session_of_def host_at_def drop_session_def)
  have "quiet ?w"
    using q by (simp add: quiet_def drop_session_def)
  then have "session_state ?w xs"
    using drop_session_inv [OF inv a p] by (simp add: session_state_def)
  moreover have "session_frame w ?w"
    using inv_host [OF inv a] by (simp add: session_frame_def drop_session_def)
  moreover have "session_of w b \<noteq> Some p" if "b \<in> set xs" "b \<noteq> a" for b
    using inv that a p by (auto simp: session_inv_def active_def inj_on_def)
  then have "table ?w xs b = ((table w xs)(a := None)) b" for b
    using so [of b] by (cases "session_of w b") (auto simp: table_def drop_session_def)
  then have "table ?w xs = (table w xs)(a := None)" ..
  ultimately show ?thesis using r unfolding srun_def by blast
qed

lemma srun_delete:
  assumes st: "session_state w xs" and a: "a \<in> set xs"
  shows "srun (host_session_delete (Some a) msg) w () ((table w xs)(a := None)) xs"
proof -
  have inv: "session_inv w xs" and q: "quiet w" using st by (simp_all add: session_state_def)
  show ?thesis
  proof (cases "session_of w a")
    case None
    then have "host_session_delete (Some a) msg w = Ret ((), w)"
      using inv_host [OF inv a] by (simp add: host_session_delete_def bnd_run session_of_def)
    then show ?thesis
      using st None by (auto simp: srun_def table_not_active intro: runsI)
  next
    case (Some p)
    then obtain s where "sheap w p = Some s"
      using inv_session [OF inv a] by (auto simp: session_of_def)
    with srun_drop [OF st a Some] host_session_delete_runs [OF q inv_host [OF inv a]] Some show ?thesis
      by (simp add: session_of_def)
  qed
qed

lemma srun_timeout:
  assumes st: "session_state w xs" and a: "a \<in> set xs"
  shows "srun (host_session_timeout S (Some a)) w ()
     ((table w xs)(a := spec_expire (s_time S (trace w)) (c_session_timeout w) (table w xs) a)) xs"
proof -
  have inv: "session_inv w xs" using st by (simp add: session_state_def)
  note h = inv_host [OF inv a]
  show ?thesis
  proof (cases "session_of w a")
    case None
    then have "host_session_timeout S (Some a) w = Ret ((), w)"
      using h by (simp add: host_session_timeout_def bnd_run session_of_def)
    moreover have "table w xs a = None" using None by (simp add: table_def)
    ultimately show ?thesis
      using st None by (auto simp: srun_def spec_expire_def table_not_active intro: runsI)
  next
    case (Some p)
    then obtain s where s: "sheap w p = Some s"
      using inv_session [OF inv a] by (auto simp: session_of_def)
    have t: "table w xs a = Some s" using a Some s by (simp add: table_def)
    let ?e = "to_int32 (s_atime s + c_session_timeout w) < s_time S (trace w)"
    have run: "host_session_timeout S (Some a) w =
        (if ?e then host_session_delete (Some a) ''timeout'' w else Ret ((), w))"
      using h Some s by (simp add: host_session_timeout_def bnd_run session_of_def)
    show ?thesis
    proof (cases ?e)
      case True
      with run srun_delete [OF st a, of "''timeout''"] t show ?thesis
        by (simp add: srun_def runs_def spec_expire_def)
    next
      case False
      moreover from False have "(table w xs)(a := spec_expire (s_time S (trace w)) (c_session_timeout w) (table w xs) a)
          = table w xs" using t by (auto simp: spec_expire_def)
      ultimately show ?thesis using run st by (auto simp: srun_def intro: runsI)
    qed
  qed
qed

lemma spec_expire_at: "m a = m' a \<Longrightarrow> spec_expire now tmo m a = spec_expire now tmo m' a"
  by (simp add: spec_expire_def)

lemma srun_timeouts:
  assumes "session_state w xs" and "set ys \<subseteq> set xs" and "distinct ys"
  shows "srun (each (\<lambda>n. host_session_timeout S (Some n)) ys) w ()
     (\<lambda>a. if a \<in> set ys then spec_expire (s_time S (trace w)) (c_session_timeout w) (table w xs) a
          else table w xs a) xs"
  using assms
proof (induction ys arbitrary: w)
  case Nil
  then show ?case by (auto simp: srun_def intro: runsI)
next
  case (Cons y ys)
  let ?e = "spec_expire (s_time S (trace w)) (c_session_timeout w)"
  have y: "y \<in> set xs" "y \<notin> set ys" "set ys \<subseteq> set xs" "distinct ys" using Cons.prems by auto
  have "srun (each (\<lambda>n. host_session_timeout S (Some n)) ys) w1 ()
      (\<lambda>a. if a \<in> set (y # ys) then ?e (table w xs) a else table w xs a) xs"
    if w1: "session_state w1 xs" "session_frame w w1" "table w1 xs = (table w xs)(y := ?e (table w xs) y)" for w1
  proof -
    have par: "trace w1 = trace w" "c_session_timeout w1 = c_session_timeout w"
      using w1(2) by (simp_all add: session_frame_def)
    have eq: "(\<lambda>a. if a \<in> set ys then ?e (table w1 xs) a else table w1 xs a)
        = (\<lambda>a. if a \<in> set (y # ys) then ?e (table w xs) a else table w xs a)"
      using y(2) w1(3) by (auto simp: fun_eq_iff intro: spec_expire_at)
    show ?thesis using Cons.IH [OF w1(1) y(3,4)] unfolding par eq .
  qed
  then show ?case
    unfolding each_simps by (rule srun_andthen [OF srun_timeout [OF Cons.prems(1) y(1)]])
qed

lemma srun_timeout_all:
  assumes st: "session_state w xs"
  shows "srun (util_host_session_timeout_all S) w ()
     (spec_expire (s_time S (trace w)) (c_session_timeout w) (table w xs)) xs"
proof -
  have h: "hosts w xs" using st by (simp add: session_state_def session_inv_def)
  then have "util_host_session_timeout_all S w = each (\<lambda>n. host_session_timeout S (Some n)) xs w"
    by (simp add: util_host_session_timeout_all_def hosts_def ll_nodes_chain bnd_run)
  moreover have "distinct xs" using h by (simp add: hosts_def chain_distinct)
  moreover have "(\<lambda>a. if a \<in> set xs then spec_expire n t (table w xs) a else table w xs a)
      = spec_expire n t (table w xs)" for n t
    by (auto simp: fun_eq_iff spec_expire_def table_def)
  ultimately show ?thesis
    using srun_timeouts [OF st subset_refl, of S] by (simp add: srun_def runs_def)
qed

lemma srun_enter:
  assumes st: "session_state w xs" and a: "a \<in> set xs" and none: "table w xs a = None"
    and room: "g_n_sessions w < c_session_max w" and fd: "set (take SESSION_FD_MAX (s_fd s)) \<subseteq> {0}"
    and r: "runs m w x (put_session a s w)"
  shows "srun m w x ((table w xs)(a \<mapsto> s)) xs"
proof -
  let ?w = "put_session a s w"
  have inv: "session_inv w xs" and q: "quiet w" using st by (simp_all add: session_state_def)
  have so: "session_of w a = None"
    using inv_session [OF inv a] none a by (cases "session_of w a") (auto simp: table_def session_of_def)
  have "quiet ?w"
    using q fd by (auto simp: quiet_def put_session_def)
  then have "session_state ?w xs"
    using put_session_inv [OF inv a so room] by (simp add: session_state_def)
  moreover have "session_frame w ?w"
    using inv_host [OF inv a] by (simp add: session_frame_def put_session_def)
  moreover have "session_of w b \<noteq> Some (brk w)" if "b \<in> set xs" for b
    using inv that by (fastforce simp: session_inv_def active_def)
  then have "table ?w xs b = ((table w xs)(a \<mapsto> s)) b" for b
    using a by (cases "session_of w b") (auto simp: table_def)
  then have "table ?w xs = (table w xs)(a \<mapsto> s)" ..
  ultimately show ?thesis using r unfolding srun_def by blast
qed

text \<open>The refinement: each session function computes its specification.\<close>

lemma srun_create:
  assumes st: "session_state w xs" and a: "a \<in> set xs" and none: "table w xs a = None"
  shows "srun (host_session_create S a service sid) w (g_n_sessions w < c_session_max w)
     (if g_n_sessions w < c_session_max w
      then (table w xs)(a \<mapsto> fresh_session service (s_time S (trace w)) sid) else table w xs) xs"
proof -
  let ?s = "fresh_session service (s_time S (trace w)) sid"
  have h: "hheap w a = Some (host_at w a)"
    using st a by (auto simp: session_state_def intro: inv_host)
  show ?thesis
  proof (cases "g_n_sessions w < c_session_max w")
    case True
    with h have "runs (host_session_create S a service sid) w True (put_session a ?s w)"
      by (simp add: host_session_create_def bnd_run andthen_def log_msg_run runs_def put_session_def
          fresh_session_def)
    moreover have "set (take SESSION_FD_MAX (s_fd ?s)) \<subseteq> {0}"
      by (simp add: fresh_session_def session_new_def)
    ultimately show ?thesis
      using srun_enter [OF st a none True] True by simp
  next
    case False
    then have "runs (host_session_create S a service sid) w False w"
      by (simp add: host_session_create_def bnd_run andthen_def log_msg_run runs_def)
    with False st show ?thesis by (auto simp: srun_def)
  qed
qed

lemma srun_add:
  assumes st: "session_state w xs" and a: "a \<in> set xs"
  shows "srun (host_session_add S a service sid) w
     (fst (spec_add (s_time S (trace w)) (c_session_timeout w) (c_session_max w) a service sid (table w xs)))
     (snd (spec_add (s_time S (trace w)) (c_session_timeout w) (c_session_max w) a service sid (table w xs))) xs"
  unfolding host_session_add_def
proof (rule srun_andthen [OF srun_timeout_all [OF st]])
  let ?m0 = "spec_expire (s_time S (trace w)) (c_session_timeout w) (table w xs)"
  let ?spec = "spec_add (s_time S (trace w)) (c_session_timeout w) (c_session_max w) a service sid (table w xs)"
  fix w1 assume w1: "session_state w1 xs" "session_frame w w1" "table w1 xs = ?m0"
  show "srun (andthen (host_session_delete (Some a) ''new request'') (host_session_create S a service sid)) w1
      (fst ?spec) (snd ?spec) xs"
  proof (rule srun_andthen [OF srun_delete [OF w1(1) a]])
    fix w2 assume w2: "session_state w2 xs" "session_frame w1 w2" "table w2 xs = (table w1 xs)(a := None)"
    have par: "trace w2 = trace w" "c_session_max w2 = c_session_max w"
      using w1(2) w2(2) by (simp_all add: session_frame_def)
    have n: "g_n_sessions w2 = int (card (dom (?m0(a := None))))"
      using table_count [of w2 xs] w2 w1(3) by (simp add: session_state_def)
    have "table w2 xs a = None" using w2(3) by simp
    from srun_create [OF w2(1) a this, of S service sid]
    show "srun (host_session_create S a service sid) w2 (fst ?spec) (snd ?spec) xs"
      unfolding par n w2(3) w1(3) spec_add_def Let_def by (simp split: if_splits)
  qed
qed

lemma session_inv_put: "session_state w xs \<Longrightarrow> sheap w p = Some s \<Longrightarrow> s_fd s' = s_fd s \<Longrightarrow>
   session_state (w\<lparr>sheap := (sheap w)(p \<mapsto> s')\<rparr>) xs"
  by (auto simp: session_state_def session_inv_touch quiet_def simp del: fun_upd_apply)
    (auto split: if_splits)

lemma srun_check:
  assumes st: "session_state w xs" and a: "a \<in> set xs"
  shows "srun (host_session_check S a service sid) w
     (fst (spec_check (s_time S (trace w)) a service sid (table w xs)))
     (snd (spec_check (s_time S (trace w)) a service sid (table w xs))) xs"
proof -
  have inv: "session_inv w xs" using st by (simp add: session_state_def)
  note h = inv_host [OF inv a]
  show ?thesis
  proof (cases "session_of w a")
    case None
    then have "table w xs a = None" by (simp add: table_def)
    moreover have "runs (host_session_check S a service sid) w E_NOSESSION w"
      using h None by (simp add: host_session_check_def bnd_run andthen_def log_msg_run runs_def session_of_def)
    ultimately show ?thesis using st by (auto simp: srun_def spec_check_def)
  next
    case (Some p)
    then obtain s where s: "sheap w p = Some s"
      using inv_session [OF inv a] by (auto simp: session_of_def)
    have t: "table w xs a = Some s" using a Some s by (simp add: table_def)
    show ?thesis
    proof (cases "s_service s = service \<and> s_sid s = sid")
      case True
      let ?s = "s\<lparr>s_atime := to_int32 (s_time S (trace w))\<rparr>"
      let ?w = "w\<lparr>sheap := (sheap w)(p \<mapsto> ?s)\<rparr>"
      have "runs (host_session_check S a service sid) w E_NOERROR ?w"
        using h Some s True by (simp add: host_session_check_def bnd_run andthen_def runs_def session_of_def)
      moreover have "session_state ?w xs" by (rule session_inv_put [OF st s]) simp
      moreover have "session_frame w ?w" by (simp add: session_frame_def)
      moreover have "session_of w b \<noteq> Some p" if "b \<in> set xs" "b \<noteq> a" for b
        using inv that a Some by (auto simp: session_inv_def active_def inj_on_def)
      then have "table ?w xs b = ((table w xs)(a \<mapsto> ?s)) b" for b
        using a Some by (cases "session_of w b") (auto simp: table_def session_of_def host_at_def)
      then have "table ?w xs = (table w xs)(a \<mapsto> ?s)" ..
      ultimately show ?thesis using t True by (auto simp: srun_def spec_check_def)
    next
      case False
      then have "runs (host_session_check S a service sid) w
          (fst (spec_check (s_time S (trace w)) a service sid (table w xs))) w"
        using h Some s t by (auto simp: host_session_check_def bnd_run andthen_def log_msg_run runs_def
            session_of_def spec_check_def)
      with False st t show ?thesis by (auto simp: srun_def spec_check_def)
    qed
  qed
qed

subsection \<open>The files of a host as a registry\<close>

lemma same_name_equivp: "equivp same_name"
  by (auto simp: equivp_def same_name_def fun_eq_iff)

lemma file_insert_files:
  assumes "host_file_insert hp f w = Ret ((), w')"
  shows "h_files (host_at w' hp) = (if \<exists>n \<in> set (h_files (host_at w hp)). same_name (f_name n) (f_name f)
     then h_files (host_at w hp) else h_files (host_at w hp) @ [f])"
proof -
  obtain h where h: "hheap w hp = Some h"
    using assms by (auto simp: host_file_insert_def bnd_Ret_iff store_Ret_iff)
  let ?P = "\<lambda>n. f_name n = None \<or> same_name (f_name n) (f_name f)"
  show ?thesis
  proof (cases "find ?P (h_files h)")
    case None
    then have "\<not> (\<exists>n \<in> set (h_files h). same_name (f_name n) (f_name f))"
      by (simp add: find_None_iff)
    moreover have "w' = w\<lparr>hheap := (hheap w)(hp \<mapsto> h\<lparr>h_files := h_files h @ [f]\<rparr>)\<rparr>"
      using assms h None by (simp add: host_file_insert_def bnd_run)
    ultimately show ?thesis using h by (simp add: host_at_def)
  next
    case (Some n)
    then have "n \<in> set (h_files h)" "?P n" by (auto simp: find_Some_iff)
    moreover have "f_name n \<noteq> None"
      using assms h Some by (auto simp: host_file_insert_def bnd_run split: if_splits)
    moreover have "hheap w' = hheap w"
      using assms h Some by (auto simp: host_file_insert_def bnd_run log_msg_def split: if_splits)
    ultimately show ?thesis using h by (auto simp: host_at_def)
  qed
qed

interpretation hf: registry "\<lambda>w. h_files (host_at w hp)" f_name same_name "\<lambda>f. f" "host_file_insert hp" for hp
  by unfold_locales (use same_name_equivp file_insert_files in \<open>auto\<close>)

subsection \<open>The list of hosts\<close>

lemma host_link_empty: "g_hosts w = None \<Longrightarrow> host_link a w = Ret ((), w\<lparr>g_hosts := Some a\<rparr>)"
  by (simp add: host_link_def)

text \<open>A host whose name no registered host has becomes the successor of the last one.\<close>

lemma host_link_new:
  assumes nh: "named_hosts w xs" and ne: "xs \<noteq> []" and a: "hheap w a = Some h"
    and new: "\<And>b. b \<in> set xs \<Longrightarrow> \<not> same_name (h_name h) (h_name (host_at w b))"
  shows "host_link a w =
     Ret ((), w\<lparr>hheap := (hheap w)(last xs \<mapsto> set_h_next (Some a) (host_at w (last xs)))\<rparr>)"
proof -
  have c: "chain (hheap w) h_next (g_hosts w) xs"
    and names: "\<And>b. b \<in> set xs \<Longrightarrow> h_name (host_at w b) \<noteq> None"
    using nh by (auto simp: named_hosts_def hosts_def)
  have last: "last xs \<in> set xs" using ne by simp
  have "find (\<lambda>b. (h_name (the (hheap w b)) = None \<or> same_name (h_name h) (h_name (the (hheap w b))))
        \<or> h_next (the (hheap w b)) = None) xs = Some (last xs)"
    by (rule hl.insertion_point [OF c ne, of "\<lambda>n. h_name n = None \<or> same_name (h_name h) (h_name n)"])
      (use new names in \<open>simp add: host_at_def\<close>)
  with ll_find_chain [OF c] have "ll_find (hheap w) h_next
      (\<lambda>n. (h_name n = None \<or> same_name (h_name h) (h_name n)) \<or> h_next n = None) (g_hosts w) = Ret (Some (last xs))"
    by simp
  moreover obtain g where "g_hosts w = Some g" using c ne by (cases xs) auto
  moreover have "hheap w (last xs) = Some (host_at w (last xs))"
    using hosts_alloc [of w xs] nh last by (simp add: named_hosts_def)
  ultimately show ?thesis
    using a new [OF last] names [OF last] by (simp add: host_link_def bnd_run)
qed

lemma host_link_chain:
  assumes nh: "named_hosts w xs" and ne: "xs \<noteq> []" and a: "hheap w a = Some h" "a \<notin> set xs" "h_next h = None"
  shows "hosts (w\<lparr>hheap := (hheap w)(last xs \<mapsto> set_h_next (Some a) (host_at w (last xs)))\<rparr>) (xs @ [a])"
proof -
  obtain ys where xs: "xs = ys @ [last xs]" using ne by (metis append_butlast_last_id)
  have c: "chain (hheap w) h_next (g_hosts w) (ys @ [last xs])"
    using nh xs by (simp add: named_hosts_def hosts_def)
  have l: "hheap w (last xs) = Some (host_at w (last xs))"
    using hosts_alloc [of w xs] nh ne by (simp add: named_hosts_def)
  have "chain ((hheap w)(a \<mapsto> h, last xs \<mapsto> set_h_next (Some a) (host_at w (last xs)))) h_next (g_hosts w)
      (ys @ [last xs, a])"
    by (rule hl.chain_append [OF c l _ a(3)]) (use a(2) xs in simp)
  moreover have "(hheap w)(a \<mapsto> h) = hheap w" using a(1) by (simp add: fun_upd_idem)
  ultimately show ?thesis using xs by (simp add: hosts_def) (metis append_Cons append_Nil append_assoc)
qed

lemma host_link_dup:
  assumes nh: "named_hosts w xs" and a: "hheap w a = Some h"
    and dup: "b \<in> set xs" "same_name (h_name h) (h_name (host_at w b))"
  shows "runs (host_link a) w () w"
proof -
  have c: "chain (hheap w) h_next (g_hosts w) xs"
    and names: "\<And>b. b \<in> set xs \<Longrightarrow> h_name (host_at w b) \<noteq> None"
    using nh by (auto simp: named_hosts_def hosts_def)
  let ?D = "\<lambda>n. h_name n = None \<or> same_name (h_name h) (h_name n)"
  obtain d where d: "d \<in> set xs" "?D (the (hheap w d))"
      "find (\<lambda>b. ?D (the (hheap w b)) \<or> h_next (the (hheap w b)) = None) xs = Some d"
    using hl.insertion_dup [OF c dup(1), of ?D] dup(2) by (auto simp: host_at_def)
  have "ll_find (hheap w) h_next (\<lambda>n. ?D n \<or> h_next n = None) (g_hosts w) = Ret (Some d)"
    using ll_find_chain [OF c] d(3) by simp
  moreover obtain g where "g_hosts w = Some g" using c dup(1) by (cases xs) auto
  moreover have "hheap w d = Some (host_at w d)"
    using hosts_alloc [of w xs] nh d(1) by (simp add: named_hosts_def)
  ultimately show ?thesis
    using a d(2) names [OF d(1)] by (auto simp: host_link_def bnd_run runs_def log_msg_run host_at_def)
qed

text \<open>
  Linking a host whose \<open>next\<close> already points into the list makes the list cyclic: a search
  that no host satisfies does not end.
\<close>

lemma host_link_cycle:
  assumes nh: "named_hosts w xs" and ne: "xs \<noteq> []" and a: "hheap w a = Some h" "h_next h = Some s"
    and s: "s \<in> set xs" and new: "a \<notin> set xs"
    and fresh: "\<And>b. b \<in> set xs \<Longrightarrow> \<not> same_name (h_name h) (h_name (host_at w b))"
    and P: "\<not> P h" "\<And>b. b \<in> set xs \<Longrightarrow> \<not> P (host_at w b)" "\<And>n q. P (set_h_next q n) = P n"
    and run: "host_link a w = Ret ((), w')"
  shows "host_scan P w' = Loop"
proof -
  have h': "hheap w' = (hheap w)(last xs \<mapsto> set_h_next (Some a) (host_at w (last xs)))" "g_hosts w' = g_hosts w"
    using run host_link_new [OF nh ne a(1) fresh] by auto
  have c: "chain (hheap w) h_next (g_hosts w) xs" using nh by (simp add: named_hosts_def hosts_def)
  obtain g where g: "g_hosts w = Some g" "g \<in> set xs" using c ne by (cases xs) auto
  let ?C = "insert a (set xs)"
  have closed: "\<exists>n d. hheap w' b = Some n \<and> \<not> P n \<and> h_next n = Some d \<and> d \<in> ?C" if b: "b \<in> ?C" for b
  proof -
    consider "b = a" | "b = last xs" "b \<noteq> a" | "b \<in> set xs" "b \<noteq> last xs"
      using b by auto
    then show ?thesis
    proof cases
      case 1
      moreover have "a \<noteq> last xs" using new ne by auto
      ultimately show ?thesis using h' a s P(1) by simp
    next
      case 2
      then show ?thesis using h' P(2) [of "last xs"] P(3) ne hl.nxt_set by simp
    next
      case 3
      then obtain d where d: "h_next (host_at w b) = Some d"
        using hl.chain_last_None [OF c, of b] by (auto simp: host_at_def)
      have "d \<in> set xs"
        by (rule chain_next_mem [OF c 3(1)]) (use d in \<open>simp add: host_at_def\<close>)
      moreover have "hheap w b = Some (host_at w b)"
        using hosts_alloc [of w xs] nh 3(1) by (simp add: named_hosts_def)
      ultimately show ?thesis using 3 h' d P(2) [of b] by simp
    qed
  qed
  have "ll_walk (hheap w') h_next P (Some g) = None"
    by (rule walk_cycle [where C = ?C, OF closed]) (use g in auto)
  then show ?thesis using g h' by (simp add: host_scan_def ll_find_def bnd_run)
qed

subsection \<open>Facts: what the servers use of a session\<close>

lemma session_set_run:
  "hheap w a = Some h \<Longrightarrow> h_session h = Some p \<Longrightarrow> sheap w p = Some s \<Longrightarrow>
   session_set a f w = Ret ((), w\<lparr>sheap := (sheap w)(p \<mapsto> f s)\<rparr>)"
  by (simp add: session_set_def bnd_run)

lemma frame_host:
  assumes "session_frame w w1" "hheap w a = Some h"
  obtains h1 where "hheap w1 a = Some h1" "h_ip h1 = h_ip h" "h_service h1 = h_service h"
proof -
  have "map_option (\<lambda>h. h\<lparr>h_session := None\<rparr>) (hheap w1 a) = Some (h\<lparr>h_session := None\<rparr>)"
    using assms by (simp add: session_frame_def)
  then obtain h1 where h1: "hheap w1 a = Some h1" "h1\<lparr>h_session := None\<rparr> = h\<lparr>h_session := None\<rparr>"
    by auto
  from h1(2) have "h_ip (h1\<lparr>h_session := None\<rparr>) = h_ip (h\<lparr>h_session := None\<rparr>)"
    "h_service (h1\<lparr>h_session := None\<rparr>) = h_service (h\<lparr>h_session := None\<rparr>)" by simp_all
  with h1(1) that show ?thesis by simp
qed

lemma frame_hosts: "session_state w1 xs \<Longrightarrow> hosts w1 xs"
  by (simp add: session_state_def session_inv_def)

lemma session_check_ok:
  assumes "hheap w a = Some h" "h_session h = Some p" "sheap w p = Some s"
    "s_service s = service" "s_sid s = sid"
  shows "host_session_check S a service sid w
     = Ret (E_NOERROR, w\<lparr>sheap := (sheap w)(p \<mapsto> s\<lparr>s_atime := to_int32 (s_time S (trace w))\<rparr>)\<rparr>)"
  using assms by (simp add: host_session_check_def bnd_run andthen_def)

lemma open_rdonly_run:
  "s_open S (trace w) p = Inr (fd, c) \<Longrightarrow> open_rdonly S (Some p) w
     = Ret (Inr fd, w\<lparr>trace := trace w @ [OpenFile p], fdtab := (fdtab w)(fd \<mapsto> c)\<rparr>)"
  by (simp add: open_rdonly_def bnd_run andthen_def)

text \<open>A new session, as the two file servers get it from \<open>host_session_add\<close>.\<close>

lemma session_add_new:
  assumes st: "session_state w xs" and a: "a \<in> set xs"
    and room: "fst (spec_add (s_time S (trace w)) (c_session_timeout w) (c_session_max w) a service sid (table w xs))"
  obtains w1 h1 p where "runs (host_session_add S a service sid) w True w1" "session_state w1 xs"
    "session_frame w w1" "hheap w1 a = Some h1" "h_ip h1 = h_ip (host_at w a)"
    "h_service h1 = h_service (host_at w a)" "h_session h1 = Some p"
    "sheap w1 p = Some (fresh_session service (s_time S (trace w)) sid)"
proof -
  let ?now = "s_time S (trace w)"
  have ha: "hheap w a = Some (host_at w a)" using hosts_alloc [OF frame_hosts [OF st]] a by simp
  have "snd (spec_add ?now (c_session_timeout w) (c_session_max w) a service sid (table w xs)) a
      = Some (fresh_session service ?now sid)"
    using room by (simp add: spec_add_def Let_def split: if_splits)
  then obtain w1 where w1: "runs (host_session_add S a service sid) w True w1" "session_state w1 xs"
    "session_frame w w1" and tab: "table w1 xs a = Some (fresh_session service ?now sid)"
    using srun_add [OF st a, of S service sid] room by (auto simp: srun_def)
  obtain h1 where h1: "hheap w1 a = Some h1" "h_ip h1 = h_ip (host_at w a)" "h_service h1 = h_service (host_at w a)"
    by (rule frame_host [OF w1(3) ha])
  obtain p where "h_session h1 = Some p" "sheap w1 p = Some (fresh_session service ?now sid)"
    using tab a h1(1) by (auto simp: table_def session_of_def host_at_def Option.bind_eq_Some_conv)
  with w1 h1 that show ?thesis by blast
qed

end
