(* ===== verification/Tokenize.thy ===== *)
theory Tokenize
  imports Host
begin

text \<open>
  \<open>src/tokenize.c\<close>: the tokenizer of the configuration file. It reads the file in blocks of
  4096 bytes and keeps a ring of five tokens that it always fills before it hands out one.
  The structure is passed around as a value; the position of the descriptor, which the
  kernel keeps, is its field \<open>tz_offs\<close>. The columns \<open>x\<close> are written but never read and left
  out.

  The second half of the theory states what the functions compute: the tokens of the whole
  text, as the pure function \<open>tokens\<close> gives them, in order, independently of the blocks the
  file is read in and of the ring.
\<close>

subsection \<open>Messages about the configuration\<close>

text \<open>
  A message is formatted into \<open>msg[4096]\<close> and then passed to \<open>log_msg\<close> as its format, so that
  a conversion in a word of the file reads an argument that does not exist.
\<close>

fun format_ok :: "string \<Rightarrow> bool" where
  "format_ok [] = True"
| "format_ok (c # cs) =
     (if c = CHR ''%'' then (case cs of d # ds \<Rightarrow> d = CHR ''%'' \<and> format_ok ds | [] \<Rightarrow> False)
      else format_ok cs)"

definition located :: "string \<Rightarrow> int \<Rightarrow> string \<Rightarrow> string" where
  "located fname line msg = take 4095 (fname @ '':'' @ show_int line @ '': '' @ msg)"

definition log_located :: "mask \<Rightarrow> string \<Rightarrow> int \<Rightarrow> string \<Rightarrow> unit cmd" where
  "log_located level fname line msg =
     (let text = located fname line msg
      in if format_ok text then log_msg (level OR LOG_CONF) text else undef ''log_msg: conversion without argument'')"

text \<open>Code behind an error message is not reached; \<open>fatal_exits\<close> below shows it.\<close>

definition fatal :: "unit cmd \<Rightarrow> 'a cmd" where
  "fatal m = andthen m (undef ''code behind an error message'')"

subsection \<open>The tokenizer\<close>

definition TOKENIZE_LOOKAHEAD :: nat where [simp]: "TOKENIZE_LOOKAHEAD = 4"
definition TOKENIZE_BUFSIZE :: nat where [simp]: "TOKENIZE_BUFSIZE = 4096"

text \<open>
  \<open>tz_b\<close> is the part \<open>b[0..e)\<close> of the block; \<open>tz_ts\<close> is \<open>None\<close> for the start index -1.
  \<open>tz_past\<close> says that a terminator has been written behind the array of a token.
\<close>

record gen_tokenize_t =
  tz_fname :: string
  tz_fd :: int
  tz_offs :: nat
  tz_s :: nat
  tz_e :: nat
  tz_y :: int
  tz_b :: string
  tz_ts :: "nat option"
  tz_te :: nat
  tz_t :: "string list"
  tz_past :: bool

definition gen_tokenize_error :: "gen_tokenize_t \<Rightarrow> string \<Rightarrow> 'a cmd" where
  "gen_tokenize_error tz msg = fatal (log_located LOG_ERR (tz_fname tz) (tz_y tz + 1) msg)"

definition gen_tokenize_warn :: "gen_tokenize_t \<Rightarrow> string \<Rightarrow> unit cmd" where
  "gen_tokenize_warn tz msg = log_located LOG_WARN (tz_fname tz) (tz_y tz + 1) msg"

definition gen_tokenize_new :: "sys \<Rightarrow> string option \<Rightarrow> gen_tokenize_t cmd" where
  "gen_tokenize_new S filename = (case filename of
      None \<Rightarrow> fatal (log_msg (LOG_ERR OR LOG_CONF) ''tokenize open %s: filename is NULL'')
    | Some f \<Rightarrow> bnd (open_rdonly S (Some f)) (\<lambda>r. case r of
          Inl e \<Rightarrow> fatal (log_msg (LOG_ERR OR LOG_CONF) ''tokenize open %s: %s'')
        | Inr fd \<Rightarrow> ret \<lparr>tz_fname = f, tz_fd = fd, tz_offs = 0, tz_s = 0, tz_e = 0, tz_y = 0, tz_b = '''',
            tz_ts = None, tz_te = 0, tz_t = replicate (TOKENIZE_LOOKAHEAD + 1) '''', tz_past = False\<rparr>))"

text \<open>The descriptor stays open.\<close>

definition gen_tokenize_close :: "gen_tokenize_t \<Rightarrow> unit cmd" where
  "gen_tokenize_close tz = ret ()"

definition gen_tokenize_read :: "sys \<Rightarrow> gen_tokenize_t \<Rightarrow> (bool \<times> gen_tokenize_t) cmd" where
  "gen_tokenize_read S tz =
     (if tz_e tz \<le> tz_s tz then
        bnd (asks (\<lambda>w. if s_read_fails S (trace w) (tz_fd tz) then None else fdtab w (tz_fd tz))) (\<lambda>content.
        andthen (emit (ReadAt (tz_fd tz) (int (tz_offs tz)) 4096)) (case content of
          None \<Rightarrow> fatal (log_msg (LOG_ERR OR LOG_CONF) ''read %s: %s'')
        | Some c \<Rightarrow>
            let d = take 4096 (drop (tz_offs tz) c) in
            ret (d \<noteq> [], tz\<lparr>tz_s := 0, tz_e := length d, tz_b := map char_at d,
              tz_offs := tz_offs tz + length d\<rparr>)))
      else ret (True, tz))"

subsection \<open>One character\<close>

text \<open>
  The state of the scan of one token: the characters in \<open>tok->b\<close>, the flag \<open>esc\<close>, the open
  quote (1 single, 2 double) and the flag \<open>com\<close>.
\<close>

record lexstate =
  lx_out :: string
  lx_esc :: bool
  lx_quo :: nat
  lx_com :: bool

definition lex0 :: lexstate where
  "lex0 = \<lparr>lx_out = '''', lx_esc = False, lx_quo = 0, lx_com = False\<rparr>"

text \<open>
  What a character does: the scan goes on, the token ends with it, or the token ends before
  it and it is put back.
\<close>

datatype lexed = More lexstate | Tok string | Unread string

definition newline :: "char \<Rightarrow> bool" where
  "newline c \<longleftrightarrow> code c = 10 \<or> code c = 13"

definition lex_put :: "char \<Rightarrow> lexstate \<Rightarrow> lexstate" where
  "lex_put c st = st\<lparr>lx_out := lx_out st @ [c]\<rparr>"

definition lex_char :: "lexstate \<Rightarrow> char \<Rightarrow> lexed" where
  "lex_char st c =
     (if newline c \<and> lx_com st then More (st\<lparr>lx_com := False\<rparr>)
      else if lx_com st then More st
      else if code c = 0 then (if lx_out st = [] then More st else Tok (lx_out st))
      else if lx_esc st then More (lex_put c st\<lparr>lx_esc := False\<rparr>)
      else if lx_quo st = 2 \<and> code c = 0x22 then More (st\<lparr>lx_quo := 0\<rparr>)
      else if lx_quo st = 1 \<and> code c = 0x27 then More (st\<lparr>lx_quo := 0\<rparr>)
      else if lx_quo st \<noteq> 0 then More (lex_put c st)
      else if code c = 0x5C then More (st\<lparr>lx_esc := True\<rparr>)
      else if code c = 0x22 then More (st\<lparr>lx_quo := 2\<rparr>)
      else if code c = 0x27 then More (st\<lparr>lx_quo := 1\<rparr>)
      else if newline c \<or> code c = 0x20 \<or> code c = 9 then
        (if lx_out st \<noteq> [] then Tok (lx_out st) else More st)
      else if c = CHR ''#'' then More (st\<lparr>lx_com := True\<rparr>)
      else if c = CHR '';'' then (if lx_out st = [] then Tok '';'' else Unread (lx_out st))
      else More (lex_put c st))"

subsection \<open>Filling the ring\<close>

text \<open>The characters that have not been scanned yet.\<close>

definition tz_rest :: "gen_tokenize_t \<Rightarrow> world \<Rightarrow> string" where
  "tz_rest tz w = drop (tz_s tz) (take (tz_e tz) (tz_b tz))
     @ map char_at (drop (tz_offs tz) (case fdtab w (tz_fd tz) of Some c \<Rightarrow> c | None \<Rightarrow> []))"

definition tz_ahead :: "gen_tokenize_t \<Rightarrow> world \<Rightarrow> nat" where
  "tz_ahead tz w = (tz_e tz - tz_s tz)
     + (length (case fdtab w (tz_fd tz) of Some c \<Rightarrow> c | None \<Rightarrow> []) - tz_offs tz)"

lemma tokenize_read_True:
  assumes "gen_tokenize_read S tz w = Ret ((True, tz'), w')"
  shows "tz_s tz' < tz_e tz'" and "tz_ahead tz' w' = tz_ahead tz w" and "fdtab w' = fdtab w"
  using assms by (auto simp: gen_tokenize_read_def bnd_Ret_iff andthen_Ret_iff fatal_def tz_ahead_def Let_def
      split: if_splits option.splits)

text \<open>The inner loop: a token, or \<open>None\<close> when the file ends first.\<close>

definition count_line :: "char \<Rightarrow> gen_tokenize_t \<Rightarrow> gen_tokenize_t" where
  "count_line c tz = tz\<lparr>tz_s := tz_s tz + 1, tz_y := tz_y tz + (if newline c then 1 else 0)\<rparr>"

lemma tz_ahead_less:
  "gen_tokenize_read S tz w = Ret ((True, tz'), w') \<Longrightarrow> tz_ahead (count_line c tz') w' < tz_ahead tz w"
  using tokenize_read_True [of S tz w tz' w'] by (auto simp: tz_ahead_def count_line_def)

function scan_token :: "sys \<Rightarrow> lexstate \<Rightarrow> gen_tokenize_t \<Rightarrow> (string option \<times> gen_tokenize_t) cmd" where
  "scan_token S st tz w =
     (if length (lx_out st) \<ge> TOKENIZE_BUFSIZE then Ret ((Some (lx_out st), tz), w)
      else (case gen_tokenize_read S tz w of
          Ret ((False, tz'), w') \<Rightarrow> Ret ((None, tz'), w')
        | Ret ((True, tz'), w') \<Rightarrow>
            (case lex_char st (tz_b tz' ! tz_s tz') of
               More st' \<Rightarrow> scan_token S st' (count_line (tz_b tz' ! tz_s tz') tz') w'
             | Tok t \<Rightarrow> Ret ((Some t, count_line (tz_b tz' ! tz_s tz') tz'), w')
             | Unread t \<Rightarrow> Ret ((Some t, tz'), w'))
        | Exit e \<Rightarrow> Exit e
        | Undef e \<Rightarrow> Undef e
        | Loop \<Rightarrow> Loop))"
  by pat_completeness auto
termination
  by (relation "measure (\<lambda>(S, st, tz, w). tz_ahead tz w)") (auto intro: tz_ahead_less)

declare scan_token.simps [simp del]

text \<open>
  The outer loop stores a token and goes on until the ring is full. Behind the scan, \<open>t\<close> is
  4096 or 4097, and \<open>tok->b[t] = 0\<close> is a write behind \<open>b[4096]\<close>: into the column of the next
  token, or for the last one into the padding at the end of the structure. An empty ring
  starts again at 0, wherever the token was stored. The ring has five places, so five turns
  are enough.
\<close>

definition ring_put :: "string \<Rightarrow> gen_tokenize_t \<Rightarrow> gen_tokenize_t" where
  "ring_put t tz = tz\<lparr>tz_t := (tz_t tz)[tz_te tz := t],
     tz_te := (if tz_te tz + 1 > TOKENIZE_LOOKAHEAD then 0 else tz_te tz + 1),
     tz_ts := (case tz_ts tz of None \<Rightarrow> Some 0 | Some s \<Rightarrow> Some s), tz_past := True\<rparr>"

fun fill_ring :: "nat \<Rightarrow> sys \<Rightarrow> gen_tokenize_t \<Rightarrow> gen_tokenize_t cmd" where
  "fill_ring n S tz =
     (if tz_ts tz = Some (tz_te tz) then ret tz
      else case n of
        0 \<Rightarrow> lift Loop
      | Suc m \<Rightarrow> bnd (scan_token S lex0 tz) (\<lambda>(r, tz'). case r of
            None \<Rightarrow> ret tz'
          | Some t \<Rightarrow> fill_ring m S (ring_put t tz')))"

declare fill_ring.simps [simp del]

definition gen_tokenize_tokenize :: "sys \<Rightarrow> gen_tokenize_t \<Rightarrow> gen_tokenize_t cmd" where
  "gen_tokenize_tokenize S tz = fill_ring (TOKENIZE_LOOKAHEAD + 1) S tz"

subsection \<open>Reading tokens\<close>

text \<open>
  The result is the new contents of the caller's array of \<open>l\<close> bytes, \<open>None\<close> for the return
  value 0, which leaves it alone.
\<close>

definition gen_tokenize_ahead :: "sys \<Rightarrow> gen_tokenize_t \<Rightarrow> int \<Rightarrow> nat \<Rightarrow> (string option \<times> gen_tokenize_t) cmd" where
  "gen_tokenize_ahead S tz n l = bnd (gen_tokenize_tokenize S tz) (\<lambda>tz'. case tz_ts tz' of
       None \<Rightarrow> ret (None, tz')
     | Some s \<Rightarrow>
         let d = int (tz_te tz') - int s; m = (if d \<le> 0 then d + int TOKENIZE_LOOKAHEAD else d) in
         if n > m then ret (None, tz')
         else ret (Some (strncpy l (tz_t tz' ! nat ((n + int s) mod (int TOKENIZE_LOOKAHEAD + 1)))), tz'))"

definition ring_get :: "gen_tokenize_t \<Rightarrow> gen_tokenize_t" where
  "ring_get tz = (let s = (case tz_ts tz of None \<Rightarrow> 0 | Some s \<Rightarrow> if s + 1 > TOKENIZE_LOOKAHEAD then 0 else s + 1)
     in tz\<lparr>tz_ts := (if s = tz_te tz then None else Some s)\<rparr>)"

definition gen_tokenize_next :: "sys \<Rightarrow> gen_tokenize_t \<Rightarrow> nat \<Rightarrow> (string option \<times> gen_tokenize_t) cmd" where
  "gen_tokenize_next S tz l = bnd (gen_tokenize_ahead S tz 0 l) (\<lambda>(r, tz'). case r of
       Some w \<Rightarrow> ret (Some w, ring_get tz')
     | None \<Rightarrow> ret (None, tz'))"

definition gen_tokenize_get :: "sys \<Rightarrow> gen_tokenize_t \<Rightarrow> nat \<Rightarrow> (string \<times> gen_tokenize_t) cmd" where
  "gen_tokenize_get S tz l = bnd (gen_tokenize_next S tz l) (\<lambda>(r, tz'). case r of
       Some w \<Rightarrow> ret (w, tz')
     | None \<Rightarrow> gen_tokenize_error tz' ''unexpected end of file'')"

text \<open>The quoted word overwrites the token in \<open>b\<close> before both are printed.\<close>

definition gen_tokenize_expect :: "sys \<Rightarrow> gen_tokenize_t \<Rightarrow> string \<Rightarrow> gen_tokenize_t cmd" where
  "gen_tokenize_expect S tz w = bnd (gen_tokenize_get S tz 4096) (\<lambda>(b, tz').
     if read_buf b = Some w then ret tz'
     else bnd (lift (str_do_quote (Some w) (Some 4096) b)) (\<lambda>q.
       gen_tokenize_error tz' (''expecting '' @ w @ '', got '' @ [CHR 0x22] @ q @ [CHR 0x22])))"

subsection \<open>The tokens of a text\<close>

fun lex :: "lexstate \<Rightarrow> string \<Rightarrow> (string \<times> string) option" where
  "lex st [] = (if length (lx_out st) \<ge> TOKENIZE_BUFSIZE then Some (lx_out st, []) else None)"
| "lex st (c # cs) =
     (if length (lx_out st) \<ge> TOKENIZE_BUFSIZE then Some (lx_out st, c # cs)
      else (case lex_char st c of
          More st' \<Rightarrow> lex st' cs
        | Tok t \<Rightarrow> Some (t, cs)
        | Unread t \<Rightarrow> Some (t, c # cs)))"

lemma lex_length: "lex st s = Some (t, r) \<Longrightarrow> length r \<le> length s"
  by (induction st s rule: lex.induct) (auto split: if_splits lexed.splits)

lemma lex0_simps [simp]: "lx_out lex0 = []" "\<not> lx_esc lex0" "lx_quo lex0 = 0" "\<not> lx_com lex0"
  by (simp_all add: lex0_def)

lemma lex_char_Unread: "lex_char st c = Unread t \<Longrightarrow> lx_out st \<noteq> []"
  by (auto simp: lex_char_def split: if_splits)

lemma lex_shorter: "lex st s = Some (t, r) \<Longrightarrow> lx_out st = [] \<Longrightarrow> length r < length s"
proof (cases s)
  case (Cons c cs)
  assume "lex st s = Some (t, r)" "lx_out st = []"
  with Cons show ?thesis
    by (auto split: lexed.splits dest: lex_length lex_char_Unread)
qed auto

function tokens :: "string \<Rightarrow> string list" where
  "tokens s = (case lex lex0 s of None \<Rightarrow> [] | Some (t, r) \<Rightarrow> t # tokens r)"
  by pat_completeness auto
termination
  by (relation "measure length") (auto dest: lex_shorter)

declare tokens.simps [simp del]

subsection \<open>Facts: the scan of one token\<close>

lemma fatal_exits:
  assumes "log_ok (lg w)" "format_ok (located fname line msg)"
  shows "fatal (log_located LOG_ERR fname line msg) w = Exit (located fname line msg)"
  using assms log_err_exits [of w "LOG_ERR OR LOG_CONF"] by (simp add: fatal_def log_located_def andthen_def bnd_run)

text \<open>The descriptor is open and reads without errors, and the block is what was read.\<close>

definition reads :: "sys \<Rightarrow> int \<Rightarrow> bool" where
  "reads S fd \<longleftrightarrow> (\<forall>tr. \<not> s_read_fails S tr fd)"

definition buf_ok :: "gen_tokenize_t \<Rightarrow> world \<Rightarrow> bool" where
  "buf_ok tz w \<longleftrightarrow> tz_e tz = length (tz_b tz) \<and> tz_s tz \<le> tz_e tz \<and> fdtab w (tz_fd tz) \<noteq> None"

definition same_ring :: "gen_tokenize_t \<Rightarrow> gen_tokenize_t \<Rightarrow> bool" where
  "same_ring tz tz' \<longleftrightarrow> tz_ts tz' = tz_ts tz \<and> tz_te tz' = tz_te tz \<and> tz_t tz' = tz_t tz \<and> tz_past tz' = tz_past tz
     \<and> tz_fname tz' = tz_fname tz \<and> tz_fd tz' = tz_fd tz"

lemma same_ring_refl [simp]: "same_ring tz tz"
  by (simp add: same_ring_def)

lemma same_ring_trans: "same_ring a b \<Longrightarrow> same_ring b c \<Longrightarrow> same_ring a c"
  by (simp add: same_ring_def)

lemma same_ring_count [simp]: "same_ring a (count_line c b) = same_ring a b"
  by (simp add: same_ring_def count_line_def)

lemma only_io_fdtab: "only_io w w' \<Longrightarrow> fdtab w' = fdtab w"
  by (cases w; cases w') (simp add: only_io_def)

lemma only_io_trans: "only_io a b \<Longrightarrow> only_io b c \<Longrightarrow> only_io a c"
  by (simp add: only_io_def)

lemma tokenize_read_spec:
  assumes "buf_ok tz w" "reads S (tz_fd tz)"
  shows "\<exists>tz' w'. gen_tokenize_read S tz w = Ret ((tz_rest tz w \<noteq> [], tz'), w') \<and> only_io w w' \<and> buf_ok tz' w'
    \<and> same_ring tz tz' \<and> tz_rest tz' w' = tz_rest tz w
    \<and> (tz_rest tz w \<noteq> [] \<longrightarrow> tz_s tz' < tz_e tz')"
proof (cases "tz_e tz \<le> tz_s tz")
  case False
  with assms show ?thesis
    by (auto simp: gen_tokenize_read_def buf_ok_def tz_rest_def)
next
  case True
  obtain c where c: "fdtab w (tz_fd tz) = Some c" using assms(1) by (auto simp: buf_ok_def)
  have rest: "tz_rest tz w = map char_at (drop (tz_offs tz) c)"
    using True c by (simp add: tz_rest_def)
  have "take 4096 (drop (tz_offs tz) c) @ drop (tz_offs tz + min (length c - tz_offs tz) 4096) c = drop (tz_offs tz) c"
    using append_take_drop_id [of 4096 "drop (tz_offs tz) c"]
    by (cases "length c - tz_offs tz \<le> 4096") (simp_all add: min_def add.commute)
  then have "map char_at (take 4096 (drop (tz_offs tz) c)) @ map char_at (drop (tz_offs tz + min (length c - tz_offs tz) 4096) c)
      = tz_rest tz w"
    by (simp only: rest map_append [symmetric])
  with True c assms rest show ?thesis
    by (simp add: gen_tokenize_read_def bnd_run andthen_def Let_def reads_def buf_ok_def same_ring_def
        tz_rest_def)
qed

lemma tokenize_current:
  assumes "buf_ok tz w" "tz_s tz < tz_e tz" "tz_rest tz w = c # cs"
  shows "tz_b tz ! tz_s tz = c" and "tz_rest (count_line c tz) w = cs" and "buf_ok (count_line c tz) w"
proof -
  have b: "drop (tz_s tz) (tz_b tz) = tz_b tz ! tz_s tz # drop (Suc (tz_s tz)) (tz_b tz)"
    using assms(1,2) by (simp add: buf_ok_def Cons_nth_drop_Suc)
  show "tz_b tz ! tz_s tz = c" "tz_rest (count_line c tz) w = cs" "buf_ok (count_line c tz) w"
    using assms b by (auto simp: tz_rest_def count_line_def buf_ok_def)
qed

text \<open>One call of the inner loop takes the next token off the text.\<close>

lemma scan_token_spec:
  assumes "buf_ok tz w" "reads S (tz_fd tz)"
  shows "\<exists>tz' w'. scan_token S st tz w = Ret ((map_option fst (lex st (tz_rest tz w)), tz'), w') \<and> only_io w w'
    \<and> buf_ok tz' w' \<and> same_ring tz tz'
    \<and> tz_rest tz' w' = (case lex st (tz_rest tz w) of Some (_, r) \<Rightarrow> r | None \<Rightarrow> [])"
  using assms
proof (induction "tz_rest tz w" arbitrary: st tz w)
  case Nil
  obtain tz' w' where r: "gen_tokenize_read S tz w = Ret ((False, tz'), w')" "only_io w w'" "buf_ok tz' w'"
    "same_ring tz tz'" "tz_rest tz' w' = []"
    using tokenize_read_spec [OF Nil.prems] Nil.hyps by auto
  then show ?case
    using Nil by (subst scan_token.simps) (auto simp: Nil.hyps [symmetric])
next
  case (Cons c cs)
  have nr: "tz_rest tz w = c # cs" using Cons.hyps(2) by simp
  obtain tz1 w1 where r: "gen_tokenize_read S tz w = Ret ((True, tz1), w1)" "only_io w w1" "buf_ok tz1 w1"
    "same_ring tz tz1" "tz_rest tz1 w1 = c # cs" "tz_s tz1 < tz_e tz1"
    using tokenize_read_spec [OF Cons.prems] unfolding nr by auto
  note cur = tokenize_current [OF r(3,6,5)]
  show ?case
  proof (cases "length (lx_out st) \<ge> TOKENIZE_BUFSIZE")
    case True
    with Cons.prems nr show ?thesis
      by (subst scan_token.simps) (auto simp: nr)
  next
    case False
    show ?thesis
    proof (cases "lex_char st c")
      case (More st')
      have rd: "reads S (tz_fd (count_line c tz1))"
        using Cons.prems(2) r(4) by (simp add: same_ring_def count_line_def)
      obtain tz2 w2 where "scan_token S st' (count_line c tz1) w1 = Ret ((map_option fst (lex st' cs), tz2), w2)"
        "only_io w1 w2" "buf_ok tz2 w2" "same_ring (count_line c tz1) tz2"
        "tz_rest tz2 w2 = (case lex st' cs of Some (_, r) \<Rightarrow> r | None \<Rightarrow> [])"
        using Cons.hyps(1) [OF cur(2) [symmetric] cur(3) rd, of st'] cur(2) by auto
      moreover have "same_ring tz tz2"
        using r(4) calculation(4) by (simp add: same_ring_def count_line_def)
      ultimately show ?thesis
        using More False r cur(1) nr
        by (subst scan_token.simps) (auto intro: only_io_trans)
    next
      case (Tok t)
      then show ?thesis
        using False r cur nr by (subst scan_token.simps) auto
    next
      case (Unread t)
      then show ?thesis
        using False r cur nr by (subst scan_token.simps) auto
    qed
  qed
qed

subsection \<open>Facts: the ring\<close>

text \<open>The tokens in the ring, oldest first.\<close>

definition ring_size :: "gen_tokenize_t \<Rightarrow> nat" where
  "ring_size tz = (case tz_ts tz of None \<Rightarrow> 0
    | Some s \<Rightarrow> if tz_te tz > s then tz_te tz - s else tz_te tz + 5 - s)"

definition ring :: "gen_tokenize_t \<Rightarrow> string list" where
  "ring tz = map (\<lambda>i. tz_t tz ! (((case tz_ts tz of None \<Rightarrow> 0 | Some s \<Rightarrow> s) + i) mod 5)) [0..<ring_size tz]"

definition ring_ok :: "gen_tokenize_t \<Rightarrow> bool" where
  "ring_ok tz \<longleftrightarrow> tz_te tz < 5 \<and> length (tz_t tz) = 5 \<and> (case tz_ts tz of None \<Rightarrow> True | Some s \<Rightarrow> s < 5)"

lemma same_ring_ring: "same_ring a b \<Longrightarrow> ring b = ring a \<and> ring_ok b = ring_ok a \<and> ring_size b = ring_size a"
  by (auto simp: same_ring_def ring_def ring_ok_def ring_size_def split: option.split)



lemma ring_put_ok: "ring_ok tz \<Longrightarrow> ring_ok (ring_put t tz)"
  by (auto simp: ring_ok_def ring_put_def split: option.splits)

lemma ring_put_first: "ring_ok tz \<Longrightarrow> tz_ts tz = None \<Longrightarrow> tz_te tz = 0 \<Longrightarrow> ring (ring_put t tz) = [t] \<and> ring_size (ring_put t tz) = 1"
  by (auto simp: ring_ok_def ring_put_def ring_def ring_size_def)

lemma ring_put_next:
  assumes "ring_ok tz" "tz_ts tz = Some s" "s \<noteq> tz_te tz"
  shows "ring (ring_put t tz) = ring tz @ [t]" and "ring_size (ring_put t tz) = Suc (ring_size tz)"
proof -
  define n where "n = ring_size tz"
  have bounds: "s < 5" "tz_te tz < 5" "length (tz_t tz) = 5" using assms by (auto simp: ring_ok_def)
  have n: "n = (if tz_te tz > s then tz_te tz - s else tz_te tz + 5 - s)" "n \<le> 4"
    using assms bounds by (auto simp: n_def ring_size_def)
  have stop: "(s + n) mod 5 = tz_te tz"
    using bounds n by (cases "tz_te tz > s") (auto simp: mod_if)
  have before: "(s + i) mod 5 \<noteq> tz_te tz" if "i < n" for i
    using that bounds n assms(3) by (auto simp: mod_if split: if_splits)
  have ts: "tz_ts (ring_put t tz) = Some s" "tz_t (ring_put t tz) = (tz_t tz)[tz_te tz := t]"
    "tz_te (ring_put t tz) = (if tz_te tz = 4 then 0 else tz_te tz + 1)"
    using assms(2) bounds by (auto simp: ring_put_def)
  show size: "ring_size (ring_put t tz) = Suc (ring_size tz)"
    unfolding n_def [symmetric] using ts bounds n assms(3) by (auto simp: ring_size_def)
  have "map (\<lambda>i. (tz_t tz)[tz_te tz := t] ! ((s + i) mod 5)) [0..<Suc n] =
      map (\<lambda>i. tz_t tz ! ((s + i) mod 5)) [0..<n] @ [t]"
    using before stop bounds by (auto simp: nth_list_update) blast
  then show "ring (ring_put t tz) = ring tz @ [t]"
    unfolding ring_def size n_def [symmetric] using ts assms(2) by simp
qed

lemma ring_get_spec:
  assumes "ring_ok tz" "tz_ts tz = Some s"
  shows "ring tz = tz_t tz ! s # ring (ring_get tz)" and "ring_ok (ring_get tz)"
proof -
  have bounds: "s < 5" "tz_te tz < 5" "length (tz_t tz) = 5" using assms by (auto simp: ring_ok_def)
  define s' where "s' = (s + 1) mod 5"
  have s': "s' = (if s = 4 then 0 else s + 1)" "s' < 5" using bounds by (auto simp: s'_def mod_if)
  have get: "ring_get tz = tz\<lparr>tz_ts := (if s' = tz_te tz then None else Some s')\<rparr>"
    using assms(2) bounds s' by (auto simp: ring_get_def Let_def)
  show "ring_ok (ring_get tz)" using bounds s' by (simp add: get ring_ok_def)
  have size: "ring_size tz = Suc (ring_size (ring_get tz))"
    using assms(2) bounds s' by (auto simp: get ring_size_def split: if_splits)
  have "ring (ring_get tz) = map (\<lambda>i. tz_t tz ! ((s' + i) mod 5)) [0..<ring_size (ring_get tz)]"
    by (auto simp: get ring_def ring_size_def)
  also have "\<dots> = map (\<lambda>i. tz_t tz ! ((s + Suc i) mod 5)) [0..<ring_size (ring_get tz)]"
    by (simp add: s'_def mod_add_left_eq)
  finally show "ring tz = tz_t tz ! s # ring (ring_get tz)"
    using assms(2) bounds by (simp add: ring_def size map_upt_Suc del: upt_Suc)
qed

lemma ring_full: "ring_ok tz \<Longrightarrow> ring_size tz \<ge> 5 \<Longrightarrow> tz_ts tz = Some (tz_te tz)"
  by (auto simp: ring_ok_def ring_size_def split: option.splits if_splits)

text \<open>
  The invariant of the tokenizer: an empty ring whose place to write is not 0 is possible
  only behind the last token.
\<close>

definition tz_ok :: "gen_tokenize_t \<Rightarrow> world \<Rightarrow> bool" where
  "tz_ok tz w \<longleftrightarrow> buf_ok tz w \<and> ring_ok tz \<and> (tz_ts tz = None \<longrightarrow> tz_te tz = 0 \<or> tokens (tz_rest tz w) = [])"

text \<open>The tokens that are still to come.\<close>

definition upcoming :: "gen_tokenize_t \<Rightarrow> world \<Rightarrow> string list" where
  "upcoming tz w = ring tz @ tokens (tz_rest tz w)"

lemma tokens_Nil: "tokens [] = []"
  by (simp add: tokens.simps)

lemma tz_same_files: "fdtab w' = fdtab w \<Longrightarrow> tz_ok tz w' = tz_ok tz w \<and> upcoming tz w' = upcoming tz w"
  unfolding tz_ok_def buf_ok_def upcoming_def tz_rest_def by simp

lemma buf_ok_ring [simp]: "buf_ok (ring_put t tz) w = buf_ok tz w" "buf_ok (ring_get tz) w = buf_ok tz w"
  by (simp_all add: buf_ok_def ring_put_def ring_get_def Let_def)

lemma tz_rest_ring [simp]: "tz_rest (ring_put t tz) w = tz_rest tz w" "tz_rest (ring_get tz) w = tz_rest tz w"
  by (simp_all add: tz_rest_def ring_put_def ring_get_def Let_def)

lemma tz_fd_ring [simp]: "tz_fd (ring_put t tz) = tz_fd tz" "tz_fd (ring_get tz) = tz_fd tz"
  "tz_fname (ring_put t tz) = tz_fname tz" "tz_fname (ring_get tz) = tz_fname tz"
  by (simp_all add: ring_put_def ring_get_def Let_def)

text \<open>Filling the ring moves tokens from the text to the ring; an empty ring then means the end.\<close>

lemma fill_ring_spec:
  assumes "tz_ok tz w" "reads S (tz_fd tz)" "ring_size tz + n \<ge> 5"
  shows "\<exists>tz' w'. fill_ring n S tz w = Ret (tz', w') \<and> only_io w w' \<and> tz_ok tz' w'
    \<and> tz_fd tz' = tz_fd tz \<and> tz_fname tz' = tz_fname tz \<and> upcoming tz' w' = upcoming tz w
    \<and> (tz_ts tz' = Some (tz_te tz') \<or> tokens (tz_rest tz' w') = [])"
  using assms
proof (induction n arbitrary: tz w)
  case 0
  then have "tz_ts tz = Some (tz_te tz)" by (auto intro: ring_full simp: tz_ok_def)
  with 0 show ?case by (subst fill_ring.simps) auto
next
  case (Suc n)
  show ?case
  proof (cases "tz_ts tz = Some (tz_te tz)")
    case True
    with Suc.prems show ?thesis by (subst fill_ring.simps) auto
  next
    case not_full: False
    have ok: "buf_ok tz w" "ring_ok tz" using Suc.prems by (auto simp: tz_ok_def)
    obtain tz1 w1 where s: "scan_token S lex0 tz w = Ret ((map_option fst (lex lex0 (tz_rest tz w)), tz1), w1)"
      "only_io w w1" "buf_ok tz1 w1" "same_ring tz tz1"
      "tz_rest tz1 w1 = (case lex lex0 (tz_rest tz w) of Some (_, r) \<Rightarrow> r | None \<Rightarrow> [])"
      using scan_token_spec [OF ok(1) Suc.prems(2)] by blast
    note same = same_ring_ring [OF s(4)]
    show ?thesis
    proof (cases "lex lex0 (tz_rest tz w)")
      case None
      then have "tokens (tz_rest tz w) = []" by (simp add: tokens.simps)
      with None s same ok not_full show ?thesis
        by (subst fill_ring.simps) (auto simp: bnd_run tz_ok_def upcoming_def tokens_Nil same_ring_def ring_def ring_size_def)
    next
      case (Some p)
      obtain t r where p: "p = (t, r)" by fastforce
      have toks: "tokens (tz_rest tz w) = t # tokens r" using Some p by (simp add: tokens.simps)
      have ts1: "tz_ts tz1 = tz_ts tz" "tz_te tz1 = tz_te tz" "tz_fd tz1 = tz_fd tz" "tz_fname tz1 = tz_fname tz"
        using s(4) by (simp_all add: same_ring_def)
      have put: "ring (ring_put t tz1) = ring tz @ [t]" "ring_size (ring_put t tz1) = Suc (ring_size tz)"
      proof (atomize (full), cases "tz_ts tz")
        case None
        then have "tz_te tz = 0" using Suc.prems(1) toks by (simp add: tz_ok_def)
        moreover have "ring tz = []" "ring_size tz = 0" using None by (simp_all add: ring_def ring_size_def)
        ultimately show "ring (ring_put t tz1) = ring tz @ [t] \<and> ring_size (ring_put t tz1) = Suc (ring_size tz)"
          using ring_put_first [of tz1 t] same ok ts1 None by simp
      next
        case (Some s)
        with not_full show "ring (ring_put t tz1) = ring tz @ [t] \<and> ring_size (ring_put t tz1) = Suc (ring_size tz)"
          using ring_put_next [of tz1 s t] same ok ts1 by simp
      qed
      have rest: "tz_rest tz1 w1 = r" using s(5) Some p by simp
      have ok2: "tz_ok (ring_put t tz1) w1"
      proof -
        have "tz_ts (ring_put t tz1) \<noteq> None" by (simp add: ring_put_def split: option.splits)
        then show ?thesis using s(3) ok same ring_put_ok [of tz1 t] unfolding tz_ok_def by auto
      qed
      have up: "upcoming (ring_put t tz1) w1 = upcoming tz w"
        using put rest toks by (simp add: upcoming_def)
      have "\<exists>tz' w'. fill_ring n S (ring_put t tz1) w1 = Ret (tz', w') \<and> only_io w1 w' \<and> tz_ok tz' w'
        \<and> tz_fd tz' = tz_fd (ring_put t tz1) \<and> tz_fname tz' = tz_fname (ring_put t tz1)
        \<and> upcoming tz' w' = upcoming (ring_put t tz1) w1 \<and> (tz_ts tz' = Some (tz_te tz') \<or> tokens (tz_rest tz' w') = [])"
        using ok2 Suc.prems put ts1 by (intro Suc.IH) auto
      then show ?thesis
        using Some p s not_full ts1 up
        by (subst fill_ring.simps) (auto simp: bnd_run intro: only_io_trans)
    qed
  qed
qed

lemma upcoming_Cons:
  assumes "tz_ok tz w" "tz_ts tz = Some s"
  shows "upcoming tz w = tz_t tz ! s # upcoming (ring_get tz) w" and "s < 5"
  using assms ring_get_spec [of tz s] by (auto simp: upcoming_def tz_ok_def ring_ok_def)

text \<open>
  \<open>gen_tokenize_next\<close> gives the tokens of the text one after the other, cut or padded to the
  caller's array, and then 0.
\<close>

lemma tokenize_next_spec:
  assumes "tz_ok tz w" "reads S (tz_fd tz)"
  shows "\<exists>tz' w'. gen_tokenize_next S tz l w
      = Ret ((case upcoming tz w of [] \<Rightarrow> None | t # _ \<Rightarrow> Some (strncpy l t), tz'), w')
    \<and> only_io w w' \<and> tz_ok tz' w' \<and> tz_fd tz' = tz_fd tz \<and> tz_fname tz' = tz_fname tz
    \<and> upcoming tz' w' = tl (upcoming tz w)"
proof -
  obtain tz1 w1 where f: "fill_ring 5 S tz w = Ret (tz1, w1)" "only_io w w1" "tz_ok tz1 w1" "tz_fd tz1 = tz_fd tz"
    "tz_fname tz1 = tz_fname tz" "upcoming tz1 w1 = upcoming tz w"
    "tz_ts tz1 = Some (tz_te tz1) \<or> tokens (tz_rest tz1 w1) = []"
    using fill_ring_spec [OF assms(1,2), of 5] by auto
  show ?thesis
  proof (cases "tz_ts tz1")
    case None
    then have "upcoming tz1 w1 = []" using f(7) by (simp add: upcoming_def ring_def ring_size_def)
    with f None show ?thesis
      by (auto simp: gen_tokenize_next_def gen_tokenize_ahead_def gen_tokenize_tokenize_def bnd_run)
  next
    case (Some s)
    note up = upcoming_Cons [OF f(3) Some]
    have "tz_ts (ring_get tz1) \<noteq> None" if "tz_ts tz1 = Some (tz_te tz1)"
      using that up(2) Some by (auto simp: ring_get_def Let_def)
    moreover have "ring_ok (ring_get tz1)" using ring_get_spec(2) f(3) Some by (auto simp: tz_ok_def)
    ultimately have ok: "tz_ok (ring_get tz1) w1"
      using f(3,7) by (auto simp: tz_ok_def)
    have m: "\<not> (0 :: int) > (if int (tz_te tz1) - int s \<le> 0 then int (tz_te tz1) - int s + 4 else int (tz_te tz1) - int s)"
      using up(2) f(3) by (auto simp: tz_ok_def ring_ok_def)
    have up': "upcoming tz w = tz_t tz1 ! s # upcoming (ring_get tz1) w1" using up(1) f(6) by simp
    show ?thesis
      using f(1-5) Some up(2) up' ok m
      by (simp add: gen_tokenize_next_def gen_tokenize_ahead_def gen_tokenize_tokenize_def bnd_run Let_def)
  qed
qed

text \<open>
  What the parser relies on: a source of words whose call gives the next word, cut to the
  caller's array, and takes it off. The tokenizer on a readable file is such a source.
\<close>

locale word_source =
  fixes nextw :: "'t \<Rightarrow> nat \<Rightarrow> (string option \<times> 't) cmd"
    and ready :: "'t \<Rightarrow> world \<Rightarrow> bool"
    and ahead :: "'t \<Rightarrow> world \<Rightarrow> string list"
    and label :: "'t \<Rightarrow> string"
  assumes next_law: "ready t w \<Longrightarrow> \<exists>t' w'. nextw t l w
      = Ret ((case ahead t w of [] \<Rightarrow> None | x # _ \<Rightarrow> Some (strncpy l x), t'), w')
      \<and> only_io w w' \<and> ready t' w' \<and> ahead t' w' = tl (ahead t w) \<and> label t' = label t"
begin

lemma next_word:
  assumes "ready t w" "ahead t w = x # xs"
  shows "\<exists>t' w'. nextw t l w = Ret ((Some (strncpy l x), t'), w') \<and> only_io w w' \<and> ready t' w'
    \<and> ahead t' w' = xs \<and> label t' = label t"
  using next_law [OF assms(1), of l] assms(2) by simp

lemma no_word:
  assumes "ready t w" "ahead t w = []"
  shows "\<exists>t' w'. nextw t l w = Ret ((None, t'), w') \<and> only_io w w' \<and> ready t' w'
    \<and> ahead t' w' = [] \<and> label t' = label t"
  using next_law [OF assms(1), of l] assms(2) by simp

text \<open>Reading on to the end gives all words.\<close>

primrec read_words :: "nat \<Rightarrow> nat \<Rightarrow> 't \<Rightarrow> (string list \<times> 't) cmd" where
  "read_words 0 l t = lift Loop"
| "read_words (Suc n) l t = bnd (nextw t l) (\<lambda>(r, t'). case r of
      None \<Rightarrow> ret ([], t')
    | Some x \<Rightarrow> bnd (read_words n l t') (\<lambda>(xs, t''). ret (x # xs, t'')))"

lemma read_words_all:
  "ready t w \<Longrightarrow> length (ahead t w) < n \<Longrightarrow>
   \<exists>t' w'. read_words n l t w = Ret ((map (strncpy l) (ahead t w), t'), w') \<and> only_io w w' \<and> ready t' w' \<and> ahead t' w' = []"
proof (induction n arbitrary: t w)
  case (Suc n)
  show ?case
  proof (cases "ahead t w")
    case Nil
    with no_word [OF Suc.prems(1) Nil, of l] show ?thesis by (auto simp: bnd_run)
  next
    case (Cons x xs)
    obtain t1 w1 where n: "nextw t l w = Ret ((Some (strncpy l x), t1), w1)" "only_io w w1" "ready t1 w1" "ahead t1 w1 = xs"
      using next_word [OF Suc.prems(1) Cons, of l] by blast
    obtain t2 w2 where r: "read_words n l t1 w1 = Ret ((map (strncpy l) xs, t2), w2)" "only_io w1 w2" "ready t2 w2" "ahead t2 w2 = []"
      using Suc.IH [OF n(3)] n(4) Suc.prems(2) Cons by auto
    show ?thesis using n(1) r Cons only_io_trans [OF n(2) r(2)] by (auto simp: bnd_run)
  qed
qed simp

end

interpretation tk: word_source "gen_tokenize_next S" "\<lambda>tz w. tz_ok tz w \<and> reads S (tz_fd tz)" upcoming tz_fname for S
proof unfold_locales
  fix tz :: gen_tokenize_t and w l
  assume "tz_ok tz w \<and> reads S (tz_fd tz)"
  with tokenize_next_spec [of tz w S l] show "\<exists>tz' w'. gen_tokenize_next S tz l w
      = Ret ((case upcoming tz w of [] \<Rightarrow> None | x # _ \<Rightarrow> Some (strncpy l x), tz'), w')
      \<and> only_io w w' \<and> (tz_ok tz' w' \<and> reads S (tz_fd tz')) \<and> upcoming tz' w' = tl (upcoming tz w) \<and> tz_fname tz' = tz_fname tz"
    by fastforce
qed

text \<open>A new tokenizer has the tokens of the file before it.\<close>

lemma tokenize_new_spec:
  assumes "s_open S (trace w) f = Inr (fd, content)"
  shows "\<exists>tz w'. gen_tokenize_new S (Some f) w = Ret (tz, w') \<and> tz_ok tz w' \<and> tz_fd tz = fd \<and> tz_fname tz = f
    \<and> upcoming tz w' = tokens (map char_at content)
    \<and> w' = w\<lparr>trace := trace w @ [OpenFile f], fdtab := (fdtab w)(fd \<mapsto> content)\<rparr>"
  using assms
  by (auto simp: gen_tokenize_new_def open_rdonly_def bnd_run andthen_def tz_ok_def buf_ok_def ring_ok_def
      upcoming_def ring_def ring_size_def tz_rest_def)

subsection \<open>Facts: writing words\<close>

text \<open>A word as it can stand in a file: characters with a meaning are escaped.\<close>

definition special :: "char \<Rightarrow> bool" where
  "special c \<longleftrightarrow> newline c \<or> code c \<in> {0x09, 0x20, 0x22, 0x23, 0x27, 0x3B, 0x5C}"

definition escape :: "char \<Rightarrow> string" where
  "escape c = (if special c then [CHR 0x5C, c] else [c])"

definition print_word :: "string \<Rightarrow> string" where
  "print_word t = concat (map escape t)"

definition print_words :: "string list \<Rightarrow> string" where
  "print_words ts = concat (map (\<lambda>t. print_word t @ '' '') ts)"

definition word_ok :: "string \<Rightarrow> bool" where
  "word_ok t \<longleftrightarrow> t \<noteq> [] \<and> nul_free t \<and> length t < TOKENIZE_BUFSIZE"

lemma print_word_simps [simp]: "print_word [] = []" "print_word (c # cs) = escape c @ print_word cs"
  by (simp_all add: print_word_def)

lemma code_chars: "code (CHR 0x5C) = 0x5C" "code (CHR ''#'') = 0x23" "code (CHR '';'') = 0x3B" "code (CHR '' '') = 0x20"
  by (simp_all add: code_def)

lemma lex_char_plain:
  assumes "\<not> special c" "code c \<noteq> 0" "\<not> lx_esc st" "lx_quo st = 0" "\<not> lx_com st"
  shows "lex_char st c = More (lex_put c st)"
proof -
  have "c \<noteq> CHR ''#''" "c \<noteq> CHR '';''" using assms(1) code_chars by (auto simp: special_def)
  then show ?thesis using assms by (simp add: lex_char_def special_def)
qed

lemma lex_escape:
  assumes "code c \<noteq> 0" "length (lx_out st) < 4095" "\<not> lx_esc st" "lx_quo st = 0" "\<not> lx_com st"
  shows "lex st (escape c @ r) = lex (lex_put c st) r"
proof (cases "special c")
  case False
  with assms show ?thesis by (simp add: escape_def lex_char_plain)
next
  case True
  have "lex_char st (CHR 0x5C) = More (st\<lparr>lx_esc := True\<rparr>)"
    using assms by (simp add: lex_char_def code_chars newline_def)
  moreover have "lex_char (st\<lparr>lx_esc := True\<rparr>) c = More (lex_put c st)"
    using assms by (cases st) (simp add: lex_char_def lex_put_def)
  ultimately show ?thesis using True assms by (simp add: escape_def)
qed

lemma lex_print_word:
  assumes "nul_free t" "lx_out st @ t \<noteq> []" "length (lx_out st @ t) < 4096" "\<not> lx_esc st" "lx_quo st = 0" "\<not> lx_com st"
  shows "lex st (print_word t @ '' '' @ r) = Some (lx_out st @ t, r)"
  using assms
proof (induction t arbitrary: st)
  case Nil
  then show ?case by (simp add: lex_char_def code_chars newline_def)
next
  case (Cons c t)
  have "lex st (escape c @ print_word t @ '' '' @ r) = lex (lex_put c st) (print_word t @ '' '' @ r)"
    using Cons.prems by (intro lex_escape) (auto simp: nul_free_def)
  also have "\<dots> = Some (lx_out (lex_put c st) @ t, r)"
    using Cons.prems by (intro Cons.IH) (auto simp: nul_free_def lex_put_def)
  finally show ?case by (simp add: lex_put_def)
qed

text \<open>The tokens of written words are the words.\<close>

lemma tokens_print_words: "(\<And>t. t \<in> set ts \<Longrightarrow> word_ok t) \<Longrightarrow> tokens (print_words ts) = ts"
proof (induction ts)
  case Nil
  then show ?case by (simp add: print_words_def tokens_Nil)
next
  case (Cons t ts)
  have "lex lex0 (print_word t @ '' '' @ print_words ts) = Some (lx_out lex0 @ t, print_words ts)"
    using Cons.prems [of t] by (intro lex_print_word) (auto simp: word_ok_def)
  moreover have "print_words (t # ts) = print_word t @ '' '' @ print_words ts" by (simp add: print_words_def)
  ultimately show ?case using Cons by (subst tokens.simps) simp
qed


end
