(* ===== verification/Parse.thy ===== *)
theory Parse
  imports Tokenize
begin

text \<open>
  \<open>src/parse.c\<close>: the parser of the configuration file. It builds a forest of entries, each
  with a name, up to 32 values and the list of its sub-entries, linked through \<open>next\<close> and
  \<open>sub\<close>. Entries live in the store \<open>pheap\<close>; an entry of a block of 256 gets an address of its
  own when it is handed out. Strings are interned in blocks of 256 strings of 256 bytes; a
  pointer to one is its text.

  The second half of the theory shows that the parser inverts a printer of configuration
  trees, through the tokenizer and the string tables.
\<close>

subsection \<open>Entries\<close>

definition entry_get :: "addr \<Rightarrow> parse_entry_t cmd" where
  "entry_get a = (\<lambda>w. case pheap w a of None \<Rightarrow> Undef ''entry pointer'' | Some e \<Rightarrow> Ret (e, w))"

definition entry_put :: "addr \<Rightarrow> parse_entry_t \<Rightarrow> unit cmd" where
  "entry_put a e = modify (\<lambda>w. w\<lparr>pheap := (pheap w)(a \<mapsto> e)\<rparr>)"

definition entry_set :: "addr \<Rightarrow> (parse_entry_t \<Rightarrow> parse_entry_t) \<Rightarrow> unit cmd" where
  "entry_set a f = bnd (entry_get a) (\<lambda>e. entry_put a (f e))"

definition entry_zero :: parse_entry_t where
  "entry_zero = \<lparr>pe_name = '''', pe_values = [], pe_next = None, pe_sub = None, pe_processed = False,
     pe_line = 0, pe_filename = ''''\<rparr>"

subsection \<open>Messages\<close>

definition parse_error :: "addr \<Rightarrow> string \<Rightarrow> 'a cmd" where
  "parse_error a msg = bnd (entry_get a) (\<lambda>e. fatal (log_located LOG_ERR (pe_filename e) (pe_line e) msg))"

definition parse_warn :: "addr \<Rightarrow> string \<Rightarrow> unit cmd" where
  "parse_warn a msg = bnd (entry_get a) (\<lambda>e. log_located LOG_WARN (pe_filename e) (pe_line e) msg)"

subsection \<open>The tables\<close>

definition PARSE_TBL_TABLE_SIZE :: nat where [simp]: "PARSE_TBL_TABLE_SIZE = 256"
definition PARSE_TBL_STRING_SIZE :: nat where [simp]: "PARSE_TBL_STRING_SIZE = 256"
definition PARSE_TBL_ENTRY_SIZE :: nat where [simp]: "PARSE_TBL_ENTRY_SIZE = 256"

definition set_tables :: "(parse_tables \<Rightarrow> parse_tables) \<Rightarrow> unit cmd" where
  "set_tables f = modify (\<lambda>w. w\<lparr>pt := f (pt w)\<rparr>)"

text \<open>The check of \<open>l_tbl_table\<close> and the allocation of a new block when the current one is full.\<close>

definition next_block :: "gen_tokenize_t \<Rightarrow> bool \<Rightarrow> (parse_tables \<Rightarrow> parse_tables) \<Rightarrow> unit cmd" where
  "next_block tz full new = bnd (asks pt) (\<lambda>p.
     if \<not> full then ret ()
     else if pt_table_next p = PARSE_TBL_TABLE_SIZE
       then gen_tokenize_error tz ''running out of config entries, increase PARSE_TBL_TABLE_SIZE''
     else set_tables (\<lambda>p. (new p)\<lparr>pt_table_next := pt_table_next p + 1\<rparr>))"

definition string_block_full :: "parse_tables \<Rightarrow> bool" where
  "string_block_full p = (case pt_strings p of None \<Rightarrow> True | Some ss \<Rightarrow> length ss = PARSE_TBL_STRING_SIZE)"

definition entry_block_full :: "parse_tables \<Rightarrow> bool" where
  "entry_block_full p = (case pt_entry_next p of None \<Rightarrow> True | Some n \<Rightarrow> n = PARSE_TBL_ENTRY_SIZE)"

definition block_strings :: "parse_tables \<Rightarrow> string list" where
  "block_strings p = (case pt_strings p of None \<Rightarrow> [] | Some ss \<Rightarrow> ss)"

text \<open>
  A string is looked for in the current block only, and added to it if it is not there.
\<close>

definition parse_string_add :: "gen_tokenize_t \<Rightarrow> string \<Rightarrow> string cmd" where
  "parse_string_add tz s = bnd (asks pt) (\<lambda>p.
     if \<not> pt_table p then gen_tokenize_error tz ''l_tbl_table == NULL''
     else andthen (next_block tz (string_block_full p) (\<lambda>p. p\<lparr>pt_strings := Some []\<rparr>))
       (if length s \<ge> PARSE_STRING_MAX then gen_tokenize_error tz (''oversized token: '' @ take 255 s)
        else bnd (asks (\<lambda>w. block_strings (pt w))) (\<lambda>ss.
          if s \<in> set ss then ret s
          else andthen (set_tables (\<lambda>p. p\<lparr>pt_strings := Some (ss @ [s])\<rparr>)) (ret s))))"

definition parse_entry_new :: "gen_tokenize_t \<Rightarrow> addr cmd" where
  "parse_entry_new tz = bnd (asks pt) (\<lambda>p.
     if \<not> pt_table p then gen_tokenize_error tz ''l_tbl_table == NULL''
     else andthen (next_block tz (entry_block_full p) (\<lambda>p. p\<lparr>pt_entry_next := Some 0\<rparr>))
       (andthen (set_tables (\<lambda>p. p\<lparr>pt_entry_next := map_option Suc (pt_entry_next p)\<rparr>))
       (bnd malloc (\<lambda>a. andthen (entry_put a entry_zero) (ret a)))))"

subsection \<open>The parser\<close>

text \<open>
  \<open>w\<close> is the array of 256 bytes the tokens are copied to. A token of 256 characters or more
  leaves it without a terminator: the comparisons stop at the first difference, but
  \<open>parse_string_add\<close> takes the length of what is in it.
\<close>

definition word_is :: "string \<Rightarrow> string \<Rightarrow> bool" where
  "word_is w s \<longleftrightarrow> read_buf w = Some s"

definition word_add :: "gen_tokenize_t \<Rightarrow> string \<Rightarrow> string cmd" where
  "word_add tz w = bnd (deref ''parse_sub: w not terminated'' (read_buf w)) (parse_string_add tz)"

text \<open>
  The values of the entry \<open>a\<close>, of which it has \<open>k\<close> so far. At a separator the loop goes on
  without reading a token, for ever; at the end of the file it adds the last word until the
  array is full.
\<close>

function parse_values :: "nat \<Rightarrow> sys \<Rightarrow> addr \<Rightarrow> gen_tokenize_t \<Rightarrow> string \<Rightarrow> (string \<times> gen_tokenize_t) cmd" where
  "parse_values k S a tz w =
     (if word_is w ''{'' \<or> word_is w '';'' then ret (w, tz)
      else if word_is w '','' \<or> word_is w ''|'' then lift Loop
      else if k \<ge> PARSE_VALUES_MAX then gen_tokenize_error tz ''maximum number of values (32) exceeded''
      else bnd (word_add tz w) (\<lambda>v.
        andthen (entry_set a (\<lambda>e. e\<lparr>pe_values := pe_values e @ [v]\<rparr>))
        (bnd (gen_tokenize_next S tz PARSE_STRING_MAX) (\<lambda>(r, tz').
         parse_values (k + 1) S a tz' (case r of Some b \<Rightarrow> b | None \<Rightarrow> w)))))"
  by pat_completeness auto
termination
  by (relation "measure (\<lambda>(k, S, a, tz, w). 33 - k)") auto

declare parse_values.simps [simp del]

text \<open>The fields of a new entry up to its values.\<close>

definition parse_head :: "sys \<Rightarrow> addr \<Rightarrow> gen_tokenize_t \<Rightarrow> string \<Rightarrow> (string \<times> gen_tokenize_t) cmd" where
  "parse_head S a tz w = bnd (word_add tz w) (\<lambda>name.
     andthen (entry_set a (\<lambda>e. e\<lparr>pe_name := name, pe_values := [], pe_next := None, pe_sub := None,
        pe_processed := False, pe_line := tz_y tz\<rparr>))
     (bnd (parse_string_add tz (tz_fname tz)) (\<lambda>f.
      andthen (entry_set a (\<lambda>e. e\<lparr>pe_filename := f\<rparr>))
      (bnd (gen_tokenize_next S tz PARSE_STRING_MAX) (\<lambda>(r, tz').
       parse_values 0 S a tz' (case r of Some b \<Rightarrow> b | None \<Rightarrow> w))))))"

text \<open>
  \<open>parse_sub\<close> with a bound \<open>n\<close> on the entries of its block and their nesting. \<open>prev\<close> is the
  entry whose \<open>next\<close> the pointer \<open>prev_next\<close> refers to, \<open>None\<close> when it still refers to
  \<open>result\<close>; \<open>first\<close> is the value of \<open>result\<close>, which is returned without having been
  initialised when the block is empty.
\<close>

definition link_entry :: "addr option \<Rightarrow> addr \<Rightarrow> unit cmd" where
  "link_entry prev a = (case prev of None \<Rightarrow> ret () | Some p \<Rightarrow> entry_set p (\<lambda>e. e\<lparr>pe_next := Some a\<rparr>))"

definition parse_done :: "addr option \<Rightarrow> gen_tokenize_t \<Rightarrow> (addr \<times> gen_tokenize_t) cmd" where
  "parse_done first tz = (case first of
      None \<Rightarrow> undef ''parse_sub: result not initialised''
    | Some a \<Rightarrow> ret (a, tz))"

fun parse_block :: "nat \<Rightarrow> sys \<Rightarrow> addr option \<Rightarrow> addr option \<Rightarrow> gen_tokenize_t \<Rightarrow> (addr \<times> gen_tokenize_t) cmd" where
  "parse_block 0 S prev first tz = lift Loop"
| "parse_block (Suc n) S prev first tz = bnd (gen_tokenize_next S tz PARSE_STRING_MAX) (\<lambda>(r, tz1). case r of
      None \<Rightarrow> parse_done first tz1
    | Some w \<Rightarrow>
        if word_is w ''}'' then parse_done first tz1
        else bnd (parse_entry_new tz1) (\<lambda>a.
          andthen (link_entry prev a)
          (bnd (parse_head S a tz1 w) (\<lambda>(v, tz2).
           bnd (if word_is v ''{'' then
                  bnd (parse_block n S None None tz2) (\<lambda>(sub, tz3).
                  andthen (entry_set a (\<lambda>e. e\<lparr>pe_sub := Some sub\<rparr>)) (ret tz3))
                else ret tz2)
             (parse_block n S (Some a) (Some (case first of None \<Rightarrow> a | Some f \<Rightarrow> f)))))))"

definition parse_sub :: "nat \<Rightarrow> sys \<Rightarrow> gen_tokenize_t \<Rightarrow> (addr \<times> gen_tokenize_t) cmd" where
  "parse_sub n S tz = parse_block n S None None tz"

definition parse_file :: "nat \<Rightarrow> sys \<Rightarrow> string option \<Rightarrow> addr cmd" where
  "parse_file n S filename =
     andthen (if filename = None then log_msg LOG_INFO ''no config file'' else ret ())
     (andthen (set_tables (\<lambda>p. p\<lparr>pt_table := True\<rparr>))
     (bnd (gen_tokenize_new S filename) (\<lambda>tz.
      bnd (parse_sub n S tz) (\<lambda>(result, tz').
      andthen (gen_tokenize_close tz') (ret result)))))"

text \<open>The blocks of the entries and strings are freed and the tables are reset.\<close>

definition parse_cleanup :: "unit cmd" where
  "parse_cleanup = modify (\<lambda>w. if pt_table (pt w) then w\<lparr>pheap := (\<lambda>_. None), pt := no_tables\<rparr> else w)"

text \<open>The first entry of a list that has not been processed and, unless \<open>name\<close> is NULL, has that name.\<close>

definition wanted :: "string option \<Rightarrow> parse_entry_t \<Rightarrow> bool" where
  "wanted name e \<longleftrightarrow> \<not> pe_processed e \<and> (case name of None \<Rightarrow> True | Some n \<Rightarrow> n = pe_name e)"

definition parse_entry_get :: "addr option \<Rightarrow> string option \<Rightarrow> addr option cmd" where
  "parse_entry_get root name = (case root of
      None \<Rightarrow> ret None
    | Some a \<Rightarrow>
        if (case name of None \<Rightarrow> False | Some n \<Rightarrow> length n \<ge> PARSE_STRING_MAX)
        then undef ''parse_entry_get: tmp not terminated''
        else bnd (asks (\<lambda>w. ll_find (pheap w) pe_next (wanted name) root)) lift)"

subsection \<open>Facts: access to entries\<close>

lemma entry_run [simp, flow]:
  "pheap w a = Some e \<Longrightarrow> entry_get a w = Ret (e, w)"
  "entry_put a e w = Ret ((), w\<lparr>pheap := (pheap w)(a \<mapsto> e)\<rparr>)"
  "pheap w a = Some e \<Longrightarrow> entry_set a f w = Ret ((), w\<lparr>pheap := (pheap w)(a \<mapsto> f e)\<rparr>)"
  by (simp_all add: entry_get_def entry_put_def entry_set_def bnd_run)

definition set_pe_next :: "addr option \<Rightarrow> parse_entry_t \<Rightarrow> parse_entry_t" where
  "set_pe_next p e = e\<lparr>pe_next := p\<rparr>"

interpretation pl: linked pe_next set_pe_next "\<lambda>e. e\<lparr>pe_next := None\<rparr>"
  by unfold_locales (simp_all add: set_pe_next_def)

lemma parse_error_exits:
  assumes "pheap w a = Some e" "log_ok (lg w)"
    and "format_ok (located (pe_filename e) (pe_line e) msg)"
  shows "parse_error a msg w = Exit (located (pe_filename e) (pe_line e) msg)"
  using assms fatal_exits [OF assms(2,3)] by (simp add: parse_error_def bnd_run)

subsection \<open>Facts: the tables\<close>

text \<open>
  The space left in the tables: a call uses at most one unit of it, and does not fail while
  more than 256 units are left.
\<close>

definition tables_ok :: "parse_tables \<Rightarrow> bool" where
  "tables_ok p \<longleftrightarrow> pt_table p \<and> pt_table_next p \<le> 256 \<and> length (block_strings p) \<le> 256
     \<and> (case pt_entry_next p of None \<Rightarrow> True | Some n \<Rightarrow> n \<le> 256)"

definition room :: "parse_tables \<Rightarrow> nat" where
  "room p = 256 * (256 - pt_table_next p)
     + (case pt_strings p of None \<Rightarrow> 0 | Some ss \<Rightarrow> 256 - length ss)
     + (case pt_entry_next p of None \<Rightarrow> 0 | Some n \<Rightarrow> 256 - n)"

lemma set_tables_run [simp, flow]: "set_tables f w = Ret ((), w\<lparr>pt := f (pt w)\<rparr>)"
  by (simp add: set_tables_def)

lemma parse_string_add_spec:
  assumes "tables_ok (pt w)" "256 < room (pt w)" "length s < 256"
  shows "\<exists>p. parse_string_add tz s w = Ret (s, w\<lparr>pt := p\<rparr>) \<and> tables_ok p \<and> room (pt w) \<le> Suc (room p)
    \<and> s \<in> set (block_strings p)"
proof (cases "string_block_full (pt w)")
  case True
  have "room (pt w) \<le> 256 * (256 - pt_table_next (pt w)) + 256"
    using True by (auto simp: room_def string_block_full_def split: option.splits)
  then have nx: "pt_table_next (pt w) < 256"
    using assms(1,2) by (auto simp: tables_ok_def)
  let ?p = "pt w\<lparr>pt_strings := Some [s], pt_table_next := pt_table_next (pt w) + 1\<rparr>"
  have "parse_string_add tz s w = Ret (s, w\<lparr>pt := ?p\<rparr>)"
    using True nx assms by (simp add: parse_string_add_def next_block_def andthen_def bnd_run tables_ok_def block_strings_def)
  moreover have "tables_ok ?p" "s \<in> set (block_strings ?p)"
    using nx assms(1) by (auto simp: tables_ok_def block_strings_def split: option.splits)
  moreover have "room (pt w) \<le> Suc (room ?p)"
    using True nx by (auto simp: room_def string_block_full_def split: option.splits)
  ultimately show ?thesis by blast
next
  case False
  then obtain ss where ss: "pt_strings (pt w) = Some ss" "length ss \<noteq> 256"
    by (auto simp: string_block_full_def split: option.splits)
  show ?thesis
  proof (cases "s \<in> set ss")
    case True
    then have "parse_string_add tz s w = Ret (s, w\<lparr>pt := pt w\<rparr>)"
      using False ss assms by (simp add: parse_string_add_def next_block_def andthen_def bnd_run tables_ok_def block_strings_def)
    then show ?thesis using assms(1) True ss by (intro exI [of _ "pt w"]) (simp add: block_strings_def)
  next
    case new: False
    let ?p = "pt w\<lparr>pt_strings := Some (ss @ [s])\<rparr>"
    have "parse_string_add tz s w = Ret (s, w\<lparr>pt := ?p\<rparr>)"
      using False new ss assms by (simp add: parse_string_add_def next_block_def andthen_def bnd_run tables_ok_def block_strings_def)
    moreover have "tables_ok ?p" "s \<in> set (block_strings ?p)"
      using ss assms(1) by (auto simp: tables_ok_def block_strings_def split: option.splits)
    moreover have "room (pt w) \<le> Suc (room ?p)"
      using ss by (auto simp: room_def split: option.splits)
    ultimately show ?thesis by blast
  qed
qed

lemma parse_entry_new_spec:
  assumes "tables_ok (pt w)" "256 < room (pt w)"
  shows "\<exists>p. parse_entry_new tz w = Ret (brk w, w\<lparr>pt := p, brk := Suc (brk w), pheap := (pheap w)(brk w \<mapsto> entry_zero)\<rparr>)
    \<and> tables_ok p \<and> room (pt w) \<le> Suc (room p)"
proof (cases "entry_block_full (pt w)")
  case True
  have "room (pt w) \<le> 256 * (256 - pt_table_next (pt w)) + 256"
    using True by (auto simp: room_def entry_block_full_def split: option.splits)
  then have nx: "pt_table_next (pt w) < 256"
    using assms by (auto simp: tables_ok_def)
  let ?p = "pt w\<lparr>pt_entry_next := Some 1, pt_table_next := pt_table_next (pt w) + 1\<rparr>"
  have "parse_entry_new tz w = Ret (brk w, w\<lparr>pt := ?p, brk := Suc (brk w), pheap := (pheap w)(brk w \<mapsto> entry_zero)\<rparr>)"
    using True nx assms by (simp add: parse_entry_new_def next_block_def andthen_def bnd_run tables_ok_def)
  moreover have "tables_ok ?p"
    using nx assms(1) by (auto simp: tables_ok_def block_strings_def)
  moreover have "room (pt w) \<le> Suc (room ?p)"
    using True nx by (auto simp: room_def entry_block_full_def split: option.splits)
  ultimately show ?thesis by blast
next
  case False
  then obtain n where n: "pt_entry_next (pt w) = Some n" "n \<noteq> 256"
    by (auto simp: entry_block_full_def split: option.splits)
  let ?p = "pt w\<lparr>pt_entry_next := Some (Suc n)\<rparr>"
  have "parse_entry_new tz w = Ret (brk w, w\<lparr>pt := ?p, brk := Suc (brk w), pheap := (pheap w)(brk w \<mapsto> entry_zero)\<rparr>)"
    using False n assms by (simp add: parse_entry_new_def next_block_def andthen_def bnd_run tables_ok_def)
  moreover have "tables_ok ?p"
    using n assms(1) by (auto simp: tables_ok_def block_strings_def)
  moreover have "room (pt w) \<le> Suc (room ?p)"
    using n by (auto simp: room_def split: option.splits)
  ultimately show ?thesis by blast
qed


subsection \<open>Configuration trees\<close>

text \<open>The grammar: an entry is a name, values, and either \<open>;\<close> or a block of entries.\<close>

datatype conf = Conf string "string list" "conf list"

fun conf_words :: "conf \<Rightarrow> string list" where
  "conf_words (Conf n vs ss) =
     n # vs @ (if ss = [] then ['';''] else ''{'' # concat (map conf_words ss) @ [''}''])"

definition conf_word :: "string \<Rightarrow> bool" where
  "conf_word t \<longleftrightarrow> t \<noteq> [] \<and> nul_free t \<and> length t < PARSE_STRING_MAX"

definition delimiters :: "string list" where
  "delimiters = [''{'', '';'', '','', ''|'']"

fun conf_ok :: "conf \<Rightarrow> bool" where
  "conf_ok (Conf n vs ss) \<longleftrightarrow> conf_word n \<and> n \<noteq> ''}'' \<and> (\<forall>v \<in> set vs. conf_word v \<and> v \<notin> set delimiters)
     \<and> length vs \<le> PARSE_VALUES_MAX \<and> (\<forall>s \<in> set ss. conf_ok s)"

text \<open>The number of entries, and what a forest needs of the tables.\<close>

fun conf_nodes :: "conf \<Rightarrow> nat" where
  "conf_nodes (Conf n vs ss) = Suc (sum_list (map conf_nodes ss))"

fun conf_need :: "conf \<Rightarrow> nat" where
  "conf_need (Conf n vs ss) = 3 + length vs + sum_list (map conf_need ss)"

abbreviation forest_size :: "conf list \<Rightarrow> nat" where
  "forest_size cs \<equiv> sum_list (map conf_nodes cs)"

text \<open>
  The forest \<open>cs\<close> stands in the store behind the pointer \<open>p\<close>: its entries are at the addresses
  from \<open>lo\<close> on, in the order of the text, and none has been processed.
\<close>

fun laid :: "(addr \<Rightarrow> parse_entry_t option) \<Rightarrow> addr \<Rightarrow> addr option \<Rightarrow> conf list \<Rightarrow> bool" where
  "laid h lo p [] \<longleftrightarrow> p = None"
| "laid h lo p (Conf n vs ss # cs) \<longleftrightarrow> p = Some lo \<and> (case h lo of
      None \<Rightarrow> False
    | Some e \<Rightarrow> pe_name e = n \<and> pe_values e = vs \<and> \<not> pe_processed e
        \<and> laid h (Suc lo) (pe_sub e) ss \<and> laid h (lo + conf_nodes (Conf n vs ss)) (pe_next e) cs)"

lemma laid_cong: "(\<And>a. lo \<le> a \<Longrightarrow> a < lo + forest_size cs \<Longrightarrow> h' a = h a) \<Longrightarrow> laid h' lo p cs = laid h lo p cs"
proof (induction h lo p cs rule: laid.induct)
  case (2 h lo p n vs ss cs)
  have "h' lo = h lo" using 2(3) by simp
  moreover have "laid h' (Suc lo) (pe_sub e) ss = laid h (Suc lo) (pe_sub e) ss"
    "laid h' (lo + conf_nodes (Conf n vs ss)) (pe_next e) cs = laid h (lo + conf_nodes (Conf n vs ss)) (pe_next e) cs"
    if "h lo = Some e" for e
    using 2(3) by (intro 2(1,2) [OF that]; simp)+
  ultimately show ?case by (simp split: option.split)
qed simp

lemma laid_head: "cs \<noteq> [] \<Longrightarrow> laid h lo p cs \<Longrightarrow> p = Some lo"
  by (cases cs; cases "hd cs") auto

subsection \<open>Facts: parsing the words of a tree\<close>

text \<open>What parsing keeps: everything but the entries, the tables, the allocator and the output.\<close>

definition only_parse :: "world \<Rightarrow> world \<Rightarrow> bool" where
  "only_parse w w' \<longleftrightarrow> w'\<lparr>pheap := pheap w, pt := pt w, brk := brk w, trace := trace w, logs := logs w\<rparr> = w"

lemma only_parse_refl [simp]: "only_parse w w"
  by (simp add: only_parse_def)

lemma only_parse_trans: "only_parse a b \<Longrightarrow> only_parse b c \<Longrightarrow> only_parse a c"
  by (cases a; cases b; cases c) (simp add: only_parse_def)

lemma only_parse_upd [simp]:
  "only_parse w (w'\<lparr>pheap := x\<rparr>) = only_parse w w'" "only_parse w (w'\<lparr>pt := p\<rparr>) = only_parse w w'"
  "only_parse w (w'\<lparr>brk := b\<rparr>) = only_parse w w'" "only_parse w (w'\<lparr>trace := tr\<rparr>) = only_parse w w'"
  by (cases w; cases w'; simp add: only_parse_def)+

text \<open>The state of a parse: the tokenizer, and the words it has still to give.\<close>

definition parsing :: "sys \<Rightarrow> gen_tokenize_t \<Rightarrow> world \<Rightarrow> string list \<Rightarrow> bool" where
  "parsing S tz w ts \<longleftrightarrow> tz_ok tz w \<and> reads S (tz_fd tz) \<and> tables_ok (pt w) \<and> upcoming tz w = ts
     \<and> length (tz_fname tz) < PARSE_STRING_MAX"

lemma parsing_upd [simp]:
  "parsing S tz (w\<lparr>pheap := h\<rparr>) ts = parsing S tz w ts" "parsing S tz (w\<lparr>brk := b\<rparr>) ts = parsing S tz w ts"
  using tz_same_files [of "w\<lparr>pheap := h\<rparr>" w tz] tz_same_files [of "w\<lparr>brk := b\<rparr>" w tz] by (simp_all add: parsing_def)

lemma parsing_pt: "parsing S tz w ts \<Longrightarrow> tables_ok p \<Longrightarrow> parsing S tz (w\<lparr>pt := p\<rparr>) ts"
  using tz_same_files [of "w\<lparr>pt := p\<rparr>" w tz] by (simp add: parsing_def)

lemma only_io_parse:
  "only_io w w' \<Longrightarrow> only_parse w w' \<and> pheap w' = pheap w \<and> pt w' = pt w \<and> brk w' = brk w"
  by (cases w; cases w') (simp add: only_io_def only_parse_def)

lemma parsing_next:
  assumes "parsing S tz w (t # ts)"
  shows "\<exists>tz' w'. gen_tokenize_next S tz l w = Ret ((Some (strncpy l t), tz'), w') \<and> parsing S tz' w' ts
    \<and> tz_fname tz' = tz_fname tz \<and> only_parse w w' \<and> pheap w' = pheap w \<and> pt w' = pt w \<and> brk w' = brk w"
  using tk.next_word [of tz w S t ts l] assms by (auto simp: parsing_def dest!: only_io_parse)

lemma parsing_end:
  assumes "parsing S tz w []"
  shows "\<exists>tz' w'. gen_tokenize_next S tz l w = Ret ((None, tz'), w') \<and> parsing S tz' w' []
    \<and> tz_fname tz' = tz_fname tz \<and> only_parse w w' \<and> pheap w' = pheap w \<and> pt w' = pt w \<and> brk w' = brk w"
  using tk.no_word [of tz w S l] assms by (auto simp: parsing_def dest!: only_io_parse)

lemma word_is_strncpy: "nul_free t \<Longrightarrow> length s < 256 \<Longrightarrow> word_is (strncpy 256 t) s \<longleftrightarrow> t = s"
  by (auto simp: word_is_def read_strncpy)

lemma word_add_spec:
  assumes "parsing S tz w ts" "256 < room (pt w)" "conf_word t"
  shows "\<exists>p. word_add tz' (strncpy 256 t) w = Ret (t, w\<lparr>pt := p\<rparr>) \<and> parsing S tz (w\<lparr>pt := p\<rparr>) ts \<and> room (pt w) \<le> Suc (room p)"
proof -
  have "word_add tz' (strncpy 256 t) = parse_string_add tz' t"
    using assms(3) by (simp add: word_add_def read_strncpy conf_word_def)
  moreover obtain p where "parse_string_add tz' t w = Ret (t, w\<lparr>pt := p\<rparr>)" "tables_ok p" "room (pt w) \<le> Suc (room p)"
    using parse_string_add_spec [of w t tz'] assms by (auto simp: parsing_def conf_word_def)
  ultimately show ?thesis using parsing_pt [OF assms(1)] by (intro exI [of _ p]) simp
qed

text \<open>One turn of the loop over the values: a word that is no delimiter is added.\<close>

lemma parse_values_step:
  assumes "parsing S tz w ts" "conf_word v" "v \<notin> set delimiters" "k < 32" "pheap w a = Some e" "256 < room (pt w)"
  shows "\<exists>tz' w'. parse_values k S a tz (strncpy 256 v) w
      = parse_values (k + 1) S a tz' (strncpy 256 (case ts of [] \<Rightarrow> v | t # _ \<Rightarrow> t)) w'
    \<and> parsing S tz' w' (tl ts) \<and> tz_fname tz' = tz_fname tz \<and> only_parse w w'
    \<and> pheap w' = (pheap w)(a \<mapsto> e\<lparr>pe_values := pe_values e @ [v]\<rparr>) \<and> brk w' = brk w \<and> room (pt w) \<le> Suc (room (pt w'))"
proof -
  have notd: "\<not> word_is (strncpy 256 v) s" if "s \<in> set delimiters" for s
    using assms(2,3) that by (auto simp: word_is_strncpy delimiters_def conf_word_def)
  obtain p where add: "word_add tz (strncpy 256 v) w = Ret (v, w\<lparr>pt := p\<rparr>)" "parsing S tz (w\<lparr>pt := p\<rparr>) ts"
    "room (pt w) \<le> Suc (room p)"
    using word_add_spec [OF assms(1,6,2), of tz] by auto
  define w1 where "w1 = w\<lparr>pt := p, pheap := (pheap w)(a \<mapsto> e\<lparr>pe_values := pe_values e @ [v]\<rparr>)\<rparr>"
  have p1: "parsing S tz w1 ts" using add(2) by (simp add: w1_def)
  obtain tz2 w2 where n: "gen_tokenize_next S tz 256 w1 = Ret ((case ts of [] \<Rightarrow> None | t # _ \<Rightarrow> Some (strncpy 256 t), tz2), w2)"
    "parsing S tz2 w2 (tl ts)" "tz_fname tz2 = tz_fname tz" "only_parse w1 w2" "pheap w2 = pheap w1" "pt w2 = pt w1" "brk w2 = brk w1"
    using parsing_next [of S tz w1 _ _ 256] parsing_end [of S tz w1 256] p1 by (cases ts) fastforce+
  have "parse_values k S a tz (strncpy 256 v) w
      = parse_values (k + 1) S a tz2 (strncpy 256 (case ts of [] \<Rightarrow> v | t # _ \<Rightarrow> t)) w2"
    using notd assms(4,5) add(1) n(1)
    by (subst parse_values.simps) (simp add: bnd_run andthen_def delimiters_def w1_def split: list.splits)
  moreover have "only_parse w w2"
    using only_parse_trans [of w w1 w2] n(4) by (simp add: w1_def)
  ultimately show ?thesis
    using n add(3) by (auto simp: w1_def)
qed

text \<open>The loop over the values takes the values and the delimiter behind them.\<close>

lemma parse_values_spec:
  assumes "parsing S tz w ts" "t # ts = vs @ d # rs" "d \<in> {''{'', '';''}"
    and "\<forall>v \<in> set vs. conf_word v \<and> v \<notin> set delimiters" "k + length vs \<le> 32" "pheap w a = Some e"
    and "256 + length vs \<le> room (pt w)"
  shows "\<exists>tz' w'. parse_values k S a tz (strncpy 256 t) w = Ret ((strncpy 256 d, tz'), w') \<and> parsing S tz' w' rs
    \<and> tz_fname tz' = tz_fname tz \<and> only_parse w w' \<and> pheap w' = (pheap w)(a \<mapsto> e\<lparr>pe_values := pe_values e @ vs\<rparr>)
    \<and> brk w' = brk w \<and> room (pt w) \<le> room (pt w') + length vs"
  using assms
proof (induction vs arbitrary: k tz w t ts e)
  case Nil
  then have "t = d" "ts = rs" "word_is (strncpy 256 d) ''{'' \<or> word_is (strncpy 256 d) '';''"
    by (auto simp: word_is_strncpy nul_free_def code_def)
  with Nil show ?case by (subst parse_values.simps) (auto simp: fun_upd_idem)
next
  case (Cons v vs)
  obtain t' ts' where ts: "ts = t' # ts'" "t = v" using Cons.prems(2) by (cases vs) auto
  define e1 where "e1 = e\<lparr>pe_values := pe_values e @ [v]\<rparr>"
  obtain tz2 w2 where n: "parse_values k S a tz (strncpy 256 v) w = parse_values (k + 1) S a tz2 (strncpy 256 t') w2"
    "parsing S tz2 w2 ts'" "tz_fname tz2 = tz_fname tz" "only_parse w w2" "pheap w2 = (pheap w)(a \<mapsto> e1)" "brk w2 = brk w"
    "room (pt w) \<le> Suc (room (pt w2))"
    using parse_values_step [OF Cons.prems(1), of v k a e] Cons.prems(4-7) ts by (auto simp: e1_def)
  have "\<exists>tz' w'. parse_values (k + 1) S a tz2 (strncpy 256 t') w2 = Ret ((strncpy 256 d, tz'), w') \<and> parsing S tz' w' rs
    \<and> tz_fname tz' = tz_fname tz2 \<and> only_parse w2 w' \<and> pheap w' = (pheap w2)(a \<mapsto> e1\<lparr>pe_values := pe_values e1 @ vs\<rparr>)
    \<and> brk w' = brk w2 \<and> room (pt w2) \<le> room (pt w') + length vs"
    using Cons.prems n ts by (intro Cons.IH) auto
  then obtain tz3 w3 where r: "parse_values (k + 1) S a tz2 (strncpy 256 t') w2 = Ret ((strncpy 256 d, tz3), w3)"
    "parsing S tz3 w3 rs" "tz_fname tz3 = tz_fname tz2" "only_parse w2 w3"
    "pheap w3 = (pheap w2)(a \<mapsto> e1\<lparr>pe_values := pe_values e1 @ vs\<rparr>)" "brk w3 = brk w2" "room (pt w2) \<le> room (pt w3) + length vs"
    by blast
  then show ?case
    using n ts only_parse_trans [of w w2 w3] by (auto simp: e1_def)
qed

text \<open>A separator is never skipped, and the end of the file is never noticed.\<close>

lemma parse_values_separator:
  assumes "parsing S tz w ts" "t # ts = vs @ d # rs" "d \<in> {'','', ''|''}"
    and "\<forall>v \<in> set vs. conf_word v \<and> v \<notin> set delimiters" "k + length vs \<le> 32" "pheap w a = Some e"
    and "256 + length vs \<le> room (pt w)"
  shows "parse_values k S a tz (strncpy 256 t) w = Loop"
  using assms
proof (induction vs arbitrary: k tz w t ts e)
  case Nil
  then have "word_is (strncpy 256 t) '','' \<or> word_is (strncpy 256 t) ''|''" "\<not> word_is (strncpy 256 t) ''{''"
    "\<not> word_is (strncpy 256 t) '';''"
    by (auto simp: word_is_strncpy nul_free_def code_def)
  then show ?case by (subst parse_values.simps) simp
next
  case (Cons v vs)
  obtain t' ts' where ts: "ts = t' # ts'" "t = v" using Cons.prems(2) by (cases vs) auto
  obtain tz2 w2 e2 where n: "parse_values k S a tz (strncpy 256 v) w = parse_values (k + 1) S a tz2 (strncpy 256 t') w2"
    "parsing S tz2 w2 ts'" "pheap w2 a = Some e2" "room (pt w) \<le> Suc (room (pt w2))"
    using parse_values_step [OF Cons.prems(1), of v k a e] Cons.prems(4-7) ts by auto
  then show ?case using Cons.prems ts Cons.IH [of tz2 w2 ts' t' "k + 1" e2] by simp
qed

lemma parse_values_full:
  assumes "\<not> word_is v ''{''" "\<not> word_is v '';''" "\<not> word_is v '',''" "\<not> word_is v ''|''"
  shows "parse_values 32 S a tz v = gen_tokenize_error tz ''maximum number of values (32) exceeded''"
  using assms by (subst parse_values.simps) simp

lemma parse_values_eof:
  assumes "parsing S tz w ts" "\<forall>v \<in> set (t # ts). conf_word v \<and> v \<notin> set delimiters" "k \<le> 32"
    and "pheap w a = Some e" "256 + (32 - k) \<le> room (pt w)"
  shows "\<exists>tz' w'. parse_values k S a tz (strncpy 256 t) w
     = gen_tokenize_error tz' ''maximum number of values (32) exceeded'' w' \<and> tz_fname tz' = tz_fname tz \<and> lg w' = lg w"
  using assms
proof (induction "32 - k" arbitrary: k tz w t ts e)
  case 0
  have "k = 32" using 0(1,4) by simp
  have "nul_free t" "t \<notin> set delimiters" using 0(3) by (simp_all add: conf_word_def)
  then have "parse_values 32 S a tz (strncpy 256 t) = gen_tokenize_error tz ''maximum number of values (32) exceeded''"
    by (intro parse_values_full) (simp_all add: word_is_strncpy delimiters_def)
  then show ?case unfolding \<open>k = 32\<close> by (intro exI [of _ tz] exI [of _ w]) simp
next
  case (Suc n)
  have k: "k < 32" "256 < room (pt w)" using Suc.hyps(2) Suc.prems(5) by linarith+
  obtain tz2 w2 where n: "parse_values k S a tz (strncpy 256 t) w
      = parse_values (k + 1) S a tz2 (strncpy 256 (case ts of [] \<Rightarrow> t | t # _ \<Rightarrow> t)) w2"
    "parsing S tz2 w2 (tl ts)" "tz_fname tz2 = tz_fname tz" "only_parse w w2"
    "pheap w2 = (pheap w)(a \<mapsto> e\<lparr>pe_values := pe_values e @ [t]\<rparr>)" "room (pt w) \<le> Suc (room (pt w2))"
    using parse_values_step [OF Suc.prems(1), of t k a e] Suc.prems k by auto
  have lg: "lg w2 = lg w" using n(4) by (cases w; cases w2) (simp add: only_parse_def)
  have "\<forall>v \<in> set ((case ts of [] \<Rightarrow> t | t # _ \<Rightarrow> t) # tl ts). conf_word v \<and> v \<notin> set delimiters"
    using Suc.prems(2) by (cases ts) simp_all
  moreover have "n = 32 - (k + 1)" "k + 1 \<le> 32" "256 + (32 - (k + 1)) \<le> room (pt w2)"
    using Suc.hyps(2) Suc.prems(5) n(6) by linarith+
  ultimately show ?case using Suc.hyps(1) [OF _ n(2)] n(1,3,5) lg by simp
qed

text \<open>The fields of a new entry up to its values, and with them.\<close>

lemma parse_head_start:
  assumes "parsing S tz w ts" "conf_word n" "pheap w a = Some e0" "nul_free (tz_fname tz)" "258 \<le> room (pt w)"
  shows "\<exists>e tz' w'. parse_head S a tz (strncpy 256 n) w
      = parse_values 0 S a tz' (strncpy 256 (case ts of [] \<Rightarrow> n | t # _ \<Rightarrow> t)) w'
    \<and> parsing S tz' w' (tl ts) \<and> tz_fname tz' = tz_fname tz \<and> only_parse w w' \<and> pheap w' = (pheap w)(a \<mapsto> e)
    \<and> pe_name e = n \<and> pe_values e = [] \<and> \<not> pe_processed e \<and> pe_sub e = None \<and> pe_next e = None
    \<and> brk w' = brk w \<and> room (pt w) \<le> room (pt w') + 2"
proof -
  obtain p1 where p1: "word_add tz (strncpy 256 n) w = Ret (n, w\<lparr>pt := p1\<rparr>)"
    "parsing S tz (w\<lparr>pt := p1\<rparr>) ts" "room (pt w) \<le> Suc (room p1)"
    using word_add_spec [OF assms(1) _ assms(2), of tz] assms(5) by auto
  define e1 where "e1 = e0\<lparr>pe_name := n, pe_values := [], pe_next := None, pe_sub := None, pe_processed := False, pe_line := tz_y tz\<rparr>"
  define w1 where "w1 = w\<lparr>pt := p1, pheap := (pheap w)(a \<mapsto> e1)\<rparr>"
  have w1: "parsing S tz w1 ts" "room (pt w) \<le> Suc (room (pt w1))" using p1 by (simp_all add: w1_def)
  obtain p2 where p2: "parse_string_add tz (tz_fname tz) w1 = Ret (tz_fname tz, w1\<lparr>pt := p2\<rparr>)" "tables_ok p2"
    "room (pt w1) \<le> Suc (room p2)"
    using parse_string_add_spec [of w1 "tz_fname tz" tz] w1 assms(5) by (auto simp: parsing_def)
  define e2 where "e2 = e1\<lparr>pe_filename := tz_fname tz\<rparr>"
  define w2 where "w2 = w1\<lparr>pt := p2, pheap := (pheap w1)(a \<mapsto> e2)\<rparr>"
  have w2: "parsing S tz w2 ts" using parsing_pt [OF w1(1) p2(2)] by (simp add: w2_def)
  obtain tz3 w3 where n: "gen_tokenize_next S tz 256 w2 = Ret ((case ts of [] \<Rightarrow> None | t # _ \<Rightarrow> Some (strncpy 256 t), tz3), w3)"
    "parsing S tz3 w3 (tl ts)" "tz_fname tz3 = tz_fname tz" "only_parse w2 w3" "pheap w3 = pheap w2" "pt w3 = pt w2" "brk w3 = brk w2"
    using parsing_next [of S tz w2 _ _ 256] parsing_end [of S tz w2 256] w2 by (cases ts) fastforce+
  have "parse_head S a tz (strncpy 256 n) w = parse_values 0 S a tz3 (strncpy 256 (case ts of [] \<Rightarrow> n | t # _ \<Rightarrow> t)) w3"
    using p1(1) p2(1) n(1) assms(3)
    by (simp add: parse_head_def bnd_run andthen_def w1_def w2_def e1_def e2_def split: list.splits)
  moreover have "only_parse w w3"
    using only_parse_trans [of w w2 w3] n(4) by (simp add: w2_def w1_def)
  ultimately show ?thesis
    using n p1(3) p2(3)
    by (intro exI [of _ e2] exI [of _ tz3] exI [of _ w3]) (auto simp: w2_def w1_def e2_def e1_def)
qed

lemma parse_head_spec:
  assumes "parsing S tz w (vs @ d # rs)" "d \<in> {''{'', '';''}" "conf_word n"
    and "\<forall>v \<in> set vs. conf_word v \<and> v \<notin> set delimiters" "length vs \<le> 32" "pheap w a = Some e0"
    and "nul_free (tz_fname tz)" "258 + length vs \<le> room (pt w)"
  shows "\<exists>e tz' w'. parse_head S a tz (strncpy 256 n) w = Ret ((strncpy 256 d, tz'), w') \<and> parsing S tz' w' rs
    \<and> tz_fname tz' = tz_fname tz \<and> only_parse w w' \<and> pheap w' = (pheap w)(a \<mapsto> e)
    \<and> pe_name e = n \<and> pe_values e = vs \<and> \<not> pe_processed e \<and> pe_sub e = None \<and> pe_next e = None
    \<and> brk w' = brk w \<and> room (pt w) \<le> room (pt w') + 2 + length vs"
proof -
  obtain t ts where ts: "vs @ d # rs = t # ts" by (cases vs) auto
  obtain e tz3 w3 where h: "parse_head S a tz (strncpy 256 n) w = parse_values 0 S a tz3 (strncpy 256 t) w3"
    "parsing S tz3 w3 ts" "tz_fname tz3 = tz_fname tz" "only_parse w w3" "pheap w3 = (pheap w)(a \<mapsto> e)"
    "pe_name e = n" "pe_values e = []" "\<not> pe_processed e" "pe_sub e = None" "pe_next e = None"
    "brk w3 = brk w" "room (pt w) \<le> room (pt w3) + 2"
    using parse_head_start [OF assms(1,3,6,7)] assms(8) ts by auto
  have "\<exists>tz' w'. parse_values 0 S a tz3 (strncpy 256 t) w3 = Ret ((strncpy 256 d, tz'), w') \<and> parsing S tz' w' rs
    \<and> tz_fname tz' = tz_fname tz3 \<and> only_parse w3 w' \<and> pheap w' = (pheap w3)(a \<mapsto> e\<lparr>pe_values := pe_values e @ vs\<rparr>)
    \<and> brk w' = brk w3 \<and> room (pt w3) \<le> room (pt w') + length vs"
    using assms h ts by (intro parse_values_spec) auto
  then obtain tz4 w4 where v: "parse_values 0 S a tz3 (strncpy 256 t) w3 = Ret ((strncpy 256 d, tz4), w4)"
    "parsing S tz4 w4 rs" "tz_fname tz4 = tz_fname tz3" "only_parse w3 w4"
    "pheap w4 = (pheap w3)(a \<mapsto> e\<lparr>pe_values := pe_values e @ vs\<rparr>)" "brk w4 = brk w3" "room (pt w3) \<le> room (pt w4) + length vs"
    by blast
  then show ?thesis
    using h only_parse_trans [of w w3 w4]
    by (intro exI [of _ "e\<lparr>pe_values := pe_values e @ vs\<rparr>"] exI [of _ tz4] exI [of _ w4]) auto
qed

text \<open>
  A block: the entries stand in the store at addresses that were free before, and what was
  in the store before is unchanged but for the \<open>next\<close> field of the predecessor.
\<close>

definition prev_linked :: "addr option \<Rightarrow> addr option \<Rightarrow> world \<Rightarrow> world \<Rightarrow> bool" where
  "prev_linked prev p w w' \<longleftrightarrow> (case prev of None \<Rightarrow> True | Some q \<Rightarrow> pheap w' q = map_option (set_pe_next p) (pheap w q))"

definition prev_ok :: "addr option \<Rightarrow> world \<Rightarrow> bool" where
  "prev_ok prev w \<longleftrightarrow> (case prev of None \<Rightarrow> True
    | Some q \<Rightarrow> q < brk w \<and> (case pheap w q of None \<Rightarrow> False | Some e \<Rightarrow> pe_next e = None))"

definition block_post :: "sys \<Rightarrow> addr option \<Rightarrow> conf list \<Rightarrow> string list \<Rightarrow> gen_tokenize_t \<Rightarrow> world \<Rightarrow>
    addr option \<Rightarrow> gen_tokenize_t \<Rightarrow> world \<Rightarrow> bool" where
  "block_post S prev cs rs tz w p tz' w' \<longleftrightarrow> parsing S tz' w' rs \<and> tz_fname tz' = tz_fname tz \<and> only_parse w w'
     \<and> brk w' = brk w + forest_size cs \<and> room (pt w) \<le> room (pt w') + sum_list (map conf_need cs)
     \<and> laid (pheap w') (brk w) p cs \<and> (p = None \<longleftrightarrow> cs = [])
     \<and> (\<forall>a < brk w. prev \<noteq> Some a \<longrightarrow> pheap w' a = pheap w a) \<and> prev_linked prev p w w'"

lemma set_pe_next_same: "pe_next e = p \<Longrightarrow> set_pe_next p e = e"
  by (simp add: set_pe_next_def)

lemma link_entry_run:
  "prev_ok prev w \<Longrightarrow> \<exists>h. link_entry prev a w = Ret ((), w\<lparr>pheap := h\<rparr>)
    \<and> (\<forall>b. prev \<noteq> Some b \<longrightarrow> h b = pheap w b) \<and> prev_linked prev (Some a) w (w\<lparr>pheap := h\<rparr>)"
proof (cases prev)
  case None
  then show ?thesis by (intro exI [of _ "pheap w"]) (simp add: link_entry_def prev_linked_def)
next
  case (Some q)
  moreover assume "prev_ok prev w"
  ultimately obtain e where e: "pheap w q = Some e" by (auto simp: prev_ok_def split: option.splits)
  show ?thesis
    using Some e
    by (intro exI [of _ "(pheap w)(q \<mapsto> e\<lparr>pe_next := Some a\<rparr>)"]) (simp add: link_entry_def prev_linked_def set_pe_next_def)
qed




text \<open>What holds after the entry of one tree has been read, up to the end of its block.\<close>

definition entry_post :: "sys \<Rightarrow> addr option \<Rightarrow> conf \<Rightarrow> string list \<Rightarrow> gen_tokenize_t \<Rightarrow> world \<Rightarrow>
    gen_tokenize_t \<Rightarrow> world \<Rightarrow> bool" where
  "entry_post S prev c rs tz w tz' w' \<longleftrightarrow> (case c of Conf n vs ss \<Rightarrow>
     parsing S tz' w' rs \<and> tz_fname tz' = tz_fname tz \<and> only_parse w w'
     \<and> brk w' = brk w + conf_nodes c \<and> room (pt w) \<le> room (pt w') + conf_need c
     \<and> (\<exists>e. pheap w' (brk w) = Some e \<and> pe_name e = n \<and> pe_values e = vs \<and> \<not> pe_processed e \<and> pe_next e = None
          \<and> laid (pheap w') (Suc (brk w)) (pe_sub e) ss)
     \<and> (\<forall>a < brk w. prev \<noteq> Some a \<longrightarrow> pheap w' a = pheap w a) \<and> prev_linked prev (Some (brk w)) w w')"

lemma block_post_Cons:
  assumes e: "entry_post S prev c ts tz w tz1 w1" and b: "block_post S (Some (brk w)) cs rs tz1 w1 p tz' w'"
    and "prev_ok prev w"
  shows "block_post S prev (c # cs) rs tz w (Some (brk w)) tz' w'"
proof -
  obtain n vs ss where c: "c = Conf n vs ss" by (cases c)
  obtain e where e0: "pheap w1 (brk w) = Some e" "pe_name e = n" "pe_values e = vs" "\<not> pe_processed e"
    "laid (pheap w1) (Suc (brk w)) (pe_sub e) ss" and lt: "brk w1 = brk w + conf_nodes c"
    using e by (auto simp: entry_post_def c)
  have keep: "pheap w' a = pheap w1 a" if "a < brk w1" "a \<noteq> brk w" for a using b that by (auto simp: block_post_def)
  have "pheap w' (brk w) = Some (set_pe_next p e)"
    using b e0(1) lt by (simp add: block_post_def prev_linked_def)
  moreover have "laid (pheap w') (Suc (brk w)) (pe_sub e) ss"
    using keep e0(5) lt laid_cong [of "Suc (brk w)" ss "pheap w'" "pheap w1"] by (simp add: c)
  ultimately have "laid (pheap w') (brk w) (Some (brk w)) (c # cs)"
    using b lt e0 by (simp add: set_pe_next_def block_post_def c)
  moreover have "prev_linked prev (Some (brk w)) w w'"
    using e keep lt assms(3) by (auto simp: c entry_post_def prev_ok_def prev_linked_def c split: option.splits)
  moreover have "\<forall>a < brk w. prev \<noteq> Some a \<longrightarrow> pheap w' a = pheap w a"
    using e keep lt by (auto simp: entry_post_def c)
  ultimately show ?thesis
    using e b only_parse_trans [of w w1 w'] by (simp add: entry_post_def block_post_def c)
qed

text \<open>The start of an entry: its name is read, and it is allocated and linked.\<close>

lemma parse_open:
  assumes "parsing S tz w (n # ts)" "257 \<le> room (pt w)" "prev_ok prev w"
  shows "\<exists>tz1 w1 w3. gen_tokenize_next S tz 256 w = Ret ((Some (strncpy 256 n), tz1), w1)
    \<and> (\<forall>k :: addr \<Rightarrow> (addr \<times> gen_tokenize_t) cmd.
         bnd (parse_entry_new tz1) (\<lambda>a. andthen (link_entry prev a) (k a)) w1 = k (brk w) w3)
    \<and> parsing S tz1 w3 ts \<and> tz_fname tz1 = tz_fname tz \<and> only_parse w w3 \<and> brk w3 = Suc (brk w)
    \<and> room (pt w) \<le> Suc (room (pt w3)) \<and> pheap w3 (brk w) = Some entry_zero
    \<and> (\<forall>b < brk w. prev \<noteq> Some b \<longrightarrow> pheap w3 b = pheap w b) \<and> prev_linked prev (Some (brk w)) w w3"
proof -
  obtain tz1 w1 where n: "gen_tokenize_next S tz 256 w = Ret ((Some (strncpy 256 n), tz1), w1)"
    "parsing S tz1 w1 ts" "tz_fname tz1 = tz_fname tz" "only_parse w w1" "pheap w1 = pheap w"
    "pt w1 = pt w" "brk w1 = brk w"
    using parsing_next [OF assms(1)] by blast
  obtain p where p: "parse_entry_new tz1 w1 =
      Ret (brk w1, w1\<lparr>pt := p, brk := Suc (brk w1), pheap := (pheap w1)(brk w1 \<mapsto> entry_zero)\<rparr>)"
    "tables_ok p" "room (pt w1) \<le> Suc (room p)"
    using parse_entry_new_spec [of w1 tz1] n(2,6) assms(2) by (auto simp: parsing_def)
  define w2 where "w2 = w1\<lparr>pt := p, brk := Suc (brk w), pheap := (pheap w)(brk w \<mapsto> entry_zero)\<rparr>"
  have p2: "parsing S tz1 w2 ts" using parsing_pt [OF n(2) p(2)] by (simp add: w2_def)
  have prev: "prev_ok prev w2" "prev \<noteq> Some (brk w)"
    using assms(3) by (auto simp: prev_ok_def w2_def split: option.splits)
  obtain h where h: "link_entry prev (brk w) w2 = Ret ((), w2\<lparr>pheap := h\<rparr>)" "\<forall>b. prev \<noteq> Some b \<longrightarrow> h b = pheap w2 b"
    "prev_linked prev (Some (brk w)) w2 (w2\<lparr>pheap := h\<rparr>)"
    using link_entry_run [OF prev(1), of "brk w"] by blast
  have "bnd (parse_entry_new tz1) (\<lambda>a. andthen (link_entry prev a) (k a)) w1 = k (brk w) (w2\<lparr>pheap := h\<rparr>)" for k
    using p(1) h(1) n(5,7) by (simp add: bnd_run andthen_def w2_def)
  moreover have "prev_linked prev (Some (brk w)) w (w2\<lparr>pheap := h\<rparr>)"
    using h(3) prev(2) by (auto simp: prev_linked_def w2_def split: option.splits)
  ultimately show ?thesis
    using n p2 p(3) h(2) prev(2)
    by (intro exI [of _ tz1] exI [of _ w1] exI [of _ "w2\<lparr>pheap := h\<rparr>"]) (auto simp: w2_def)
qed

lemma parse_begin:
  assumes "parsing S tz w (n # vs @ d # rs)" "d \<in> {''{'', '';''}" "conf_word n" "n \<noteq> ''}''"
    and "\<forall>v \<in> set vs. conf_word v \<and> v \<notin> set delimiters" "length vs \<le> 32"
    and "nul_free (tz_fname tz)" "259 + length vs \<le> room (pt w)" "prev_ok prev w"
  shows "\<exists>tz1 w1. gen_tokenize_next S tz 256 w = Ret ((Some (strncpy 256 n), tz1), w1) \<and> (\<exists>tz' w'.
    (\<forall>k :: addr \<Rightarrow> string \<Rightarrow> gen_tokenize_t \<Rightarrow> (addr \<times> gen_tokenize_t) cmd.
       bnd (parse_entry_new tz1) (\<lambda>a. andthen (link_entry prev a)
         (bnd (parse_head S a tz1 (strncpy 256 n)) (\<lambda>(v, tz). k a v tz))) w1 = k (brk w) (strncpy 256 d) tz' w')
    \<and> entry_post S prev (Conf n vs []) rs tz w tz' w' \<and> brk w' = Suc (brk w))"
proof -
  obtain tz1 w1 w3 where o: "gen_tokenize_next S tz 256 w = Ret ((Some (strncpy 256 n), tz1), w1)"
    "\<And>k :: addr \<Rightarrow> (addr \<times> gen_tokenize_t) cmd. bnd (parse_entry_new tz1) (\<lambda>a. andthen (link_entry prev a) (k a)) w1 = k (brk w) w3"
    "parsing S tz1 w3 (vs @ d # rs)" "tz_fname tz1 = tz_fname tz" "only_parse w w3" "brk w3 = Suc (brk w)"
    "room (pt w) \<le> Suc (room (pt w3))" "pheap w3 (brk w) = Some entry_zero"
    "\<forall>b < brk w. prev \<noteq> Some b \<longrightarrow> pheap w3 b = pheap w b" "prev_linked prev (Some (brk w)) w w3"
    using parse_open [OF assms(1) _ assms(9)] assms(8) by auto
  obtain e tz' w' where r: "parse_head S (brk w) tz1 (strncpy 256 n) w3 = Ret ((strncpy 256 d, tz'), w')"
    "parsing S tz' w' rs" "tz_fname tz' = tz_fname tz1" "only_parse w3 w'" "pheap w' = (pheap w3)(brk w \<mapsto> e)"
    "pe_name e = n" "pe_values e = vs" "\<not> pe_processed e" "pe_sub e = None" "pe_next e = None"
    "brk w' = brk w3" "room (pt w3) \<le> room (pt w') + 2 + length vs"
    using parse_head_spec [OF o(3) assms(2,3,5,6) o(8)] assms(7,8) o(4,7) by auto
  have "\<forall>k :: addr \<Rightarrow> string \<Rightarrow> gen_tokenize_t \<Rightarrow> (addr \<times> gen_tokenize_t) cmd.
     bnd (parse_entry_new tz1) (\<lambda>a. andthen (link_entry prev a)
       (bnd (parse_head S a tz1 (strncpy 256 n)) (\<lambda>(v, tz). k a v tz))) w1 = k (brk w) (strncpy 256 d) tz' w'"
    using r(1) by (simp add: o(2) bnd_Ret)
  moreover have "prev_linked prev (Some (brk w)) w w'"
    using o(10) assms(9) r(5) by (auto simp: prev_linked_def prev_ok_def split: option.splits)
  then have "entry_post S prev (Conf n vs []) rs tz w tz' w'"
    using o(4,6,7,9) r(2,3,5-12) only_parse_trans [OF o(5) r(4)] by (simp add: entry_post_def)
  ultimately show ?thesis using o(1,6) r(11) by auto
qed

text \<open>The block of an entry, if it has one.\<close>

definition block_spec :: "nat \<Rightarrow> sys \<Rightarrow> bool" where
  "block_spec n S \<longleftrightarrow> (\<forall>cs prev first tz w stop rs. parsing S tz w (concat (map conf_words cs) @ stop)
     \<longrightarrow> (stop = [] \<and> rs = [] \<or> stop = ''}'' # rs) \<longrightarrow> (\<forall>c \<in> set cs. conf_ok c) \<longrightarrow> sum_list (map conf_nodes cs) < n
     \<longrightarrow> 256 + sum_list (map conf_need cs) \<le> room (pt w) \<longrightarrow> nul_free (tz_fname tz) \<longrightarrow> prev_ok prev w
     \<longrightarrow> (cs \<noteq> [] \<or> first \<noteq> None)
     \<longrightarrow> (\<exists>p tz' w'. parse_block n S prev first tz w = Ret ((case first of Some f \<Rightarrow> f | None \<Rightarrow> the p, tz'), w')
        \<and> block_post S prev cs rs tz w p tz' w'))"

definition parse_inner :: "nat \<Rightarrow> sys \<Rightarrow> addr \<Rightarrow> string \<Rightarrow> gen_tokenize_t \<Rightarrow> gen_tokenize_t cmd" where
  "parse_inner n S a v tz = (if word_is v ''{'' then
      bnd (parse_block n S None None tz) (\<lambda>(sub, tz3). andthen (entry_set a (\<lambda>e. e\<lparr>pe_sub := Some sub\<rparr>)) (ret tz3))
    else ret tz)"

lemma parse_inner_spec:
  assumes "block_spec m S" "conf_ok (Conf n vs ss)" "sum_list (map conf_nodes ss) < m"
    and "entry_post S prev (Conf n vs []) ((if ss = [] then [] else concat (map conf_words ss) @ [''}'']) @ rs) tz w tz1 w1"
    and "brk w1 = Suc (brk w)" "256 + conf_need (Conf n vs ss) \<le> room (pt w)" "nul_free (tz_fname tz)" "prev_ok prev w"
  shows "\<exists>tz' w'. parse_inner m S (brk w) (strncpy 256 (if ss = [] then '';'' else ''{'')) tz1 w1 = Ret (tz', w')
    \<and> entry_post S prev (Conf n vs ss) rs tz w tz' w'"
proof (cases "ss = []")
  case True
  have "nul_free '';''" by (simp add: nul_free_def code_def)
  with True assms(4) show ?thesis by (intro exI [of _ tz1] exI [of _ w1]) (simp add: parse_inner_def word_is_strncpy)
next
  case False
  obtain e where e: "pheap w1 (brk w) = Some e" "pe_name e = n" "pe_values e = vs" "\<not> pe_processed e" "pe_next e = None"
    using assms(4) by (auto simp: entry_post_def)
  have "nul_free ''{''" by (simp add: nul_free_def code_def)
  then have br: "word_is (strncpy 256 ''{'') ''{''" by (simp add: word_is_strncpy)
  obtain p tz2 w2 where b: "parse_block m S None None tz1 w1 = Ret ((the p, tz2), w2)" "block_post S None ss rs tz1 w1 p tz2 w2"
    using assms(1) [unfolded block_spec_def, rule_format, where cs = ss and prev = None and first = None and tz = tz1
      and w = w1 and stop = "''}'' # rs" and rs = rs] assms False
    by (auto simp: entry_post_def prev_ok_def)
  obtain a where p: "p = Some a" using b(2) False by (auto simp: block_post_def)
  have e2: "pheap w2 (brk w) = Some e" using b(2) assms(5) e(1) by (auto simp: block_post_def)
  define w3 where "w3 = w2\<lparr>pheap := (pheap w2)(brk w \<mapsto> e\<lparr>pe_sub := Some a\<rparr>)\<rparr>"
  have "laid (pheap w3) (Suc (brk w)) (Some a) ss"
    using b(2) p assms(5) laid_cong [of "Suc (brk w)" ss "pheap w3" "pheap w2"] by (simp add: block_post_def w3_def)
  moreover have "brk w3 = brk w + conf_nodes (Conf n vs ss)" using b(2) assms(5) by (simp add: block_post_def w3_def)
  moreover have "prev_linked prev (Some (brk w)) w w3" "\<forall>a < brk w. prev \<noteq> Some a \<longrightarrow> pheap w3 a = pheap w a"
    using assms(4,5,8) b(2)
    by (auto simp: block_post_def entry_post_def w3_def prev_linked_def prev_ok_def split: option.splits)
  moreover have "only_parse w w3"
    using only_parse_trans [of w w1 w2] assms(4) b(2) by (simp add: entry_post_def block_post_def w3_def)
  ultimately have "entry_post S prev (Conf n vs ss) rs tz w tz2 w3"
    using assms(4,5) b(2) e by (auto simp: entry_post_def block_post_def w3_def)
  moreover have "parse_inner m S (brk w) (strncpy 256 ''{'') tz1 w1 = Ret (tz2, w3)"
    using br b(1) e2 p by (simp add: parse_inner_def bnd_run andthen_def w3_def)
  ultimately show ?thesis using False by auto
qed

lemma parse_block_Suc:
  "parse_block (Suc n) S prev first tz = bnd (gen_tokenize_next S tz 256) (\<lambda>(r, tz1). case r of
      None \<Rightarrow> parse_done first tz1
    | Some w \<Rightarrow> if word_is w ''}'' then parse_done first tz1
        else bnd (parse_entry_new tz1) (\<lambda>a. andthen (link_entry prev a)
          (bnd (parse_head S a tz1 w) (\<lambda>(v, tz2). bnd (parse_inner n S a v tz2)
             (parse_block n S (Some a) (Some (case first of None \<Rightarrow> a | Some f \<Rightarrow> f)))))))"
  unfolding parse_inner_def by simp

text \<open>Parsing the words of a forest builds it.\<close>

lemma prev_linked_None: "prev_ok prev w \<Longrightarrow> pheap w' = pheap w \<Longrightarrow> prev_linked prev None w w'"
  by (auto simp: prev_ok_def prev_linked_def set_pe_next_same split: option.splits)

declare parse_block.simps [simp del]

lemma parse_block_Nil:
  assumes "parsing S tz w stop" "stop = [] \<and> rs = [] \<or> stop = ''}'' # rs" "first = Some f"
    and "prev_ok prev w"
  shows "\<exists>tz' w'. parse_block (Suc n) S prev first tz w = Ret ((f, tz'), w') \<and> block_post S prev [] rs tz w None tz' w'"
proof (cases "stop = []")
  case True
  with assms(1) have "parsing S tz w []" by simp
  from parsing_end [OF this, of 256] obtain tz' w' where n: "gen_tokenize_next S tz 256 w = Ret ((None, tz'), w')"
    "parsing S tz' w' []" "tz_fname tz' = tz_fname tz" "only_parse w w'" "pheap w' = pheap w" "pt w' = pt w" "brk w' = brk w"
    by blast
  have "parse_block (Suc n) S prev first tz w = Ret ((f, tz'), w')"
    unfolding parse_block_Suc using n(1) assms(3) by (simp add: bnd_run parse_done_def)
  then show ?thesis using n assms(2) True
    by (simp add: block_post_def prev_linked_None [OF assms(4)])
next
  case False
  with assms have "parsing S tz w (''}'' # rs)" by auto
  from parsing_next [OF this, of 256] obtain tz' w' where n: "gen_tokenize_next S tz 256 w = Ret ((Some (strncpy 256 ''}''), tz'), w')"
    "parsing S tz' w' rs" "tz_fname tz' = tz_fname tz" "only_parse w w'" "pheap w' = pheap w" "pt w' = pt w" "brk w' = brk w"
    by blast
  have "word_is (strncpy 256 ''}'') ''}''" by (simp add: word_is_strncpy nul_free_def code_def)
  then have "parse_block (Suc n) S prev first tz w = Ret ((f, tz'), w')"
    unfolding parse_block_Suc using n(1) assms(3) by (simp add: bnd_run parse_done_def)
  then show ?thesis using n by (simp add: block_post_def prev_linked_None [OF assms(4)])
qed

lemma conf_words_split: "conf_words (Conf n vs ss)
    = n # vs @ (if ss = [] then '';'' else ''{'') # (if ss = [] then [] else concat (map conf_words ss) @ [''}''])"
  by simp

theorem parse_block_spec: "block_spec n S"
proof (induction n)
  case 0
  show ?case by (simp add: block_spec_def)
next
  case (Suc m)
  show ?case unfolding block_spec_def
  proof (intro allI impI)
    fix cs :: "conf list" and prev first :: "addr option" and tz w stop rs
    assume w: "parsing S tz w (concat (map conf_words cs) @ stop)" and stop: "stop = [] \<and> rs = [] \<or> stop = ''}'' # rs"
      and ok: "\<forall>c \<in> set cs. conf_ok c" and n: "sum_list (map conf_nodes cs) < Suc m"
      and room: "256 + sum_list (map conf_need cs) \<le> room (pt w)" and fn: "nul_free (tz_fname tz)"
      and prev: "prev_ok prev w" and ne: "cs \<noteq> [] \<or> first \<noteq> None"
    show "\<exists>p tz' w'. parse_block (Suc m) S prev first tz w = Ret ((case first of Some f \<Rightarrow> f | None \<Rightarrow> the p, tz'), w')
        \<and> block_post S prev cs rs tz w p tz' w'"
    proof (cases cs)
      case Nil
      then obtain f where "first = Some f" using ne by auto
      with Nil parse_block_Nil [OF _ stop this prev] w show ?thesis by fastforce
    next
      case (Cons c cs')
      obtain nm vs ss where c: "c = Conf nm vs ss" by (cases c)
      let ?d = "if ss = [] then '';'' else ''{''"
      let ?ts = "concat (map conf_words cs') @ stop"
      let ?us = "(if ss = [] then [] else concat (map conf_words ss) @ [''}'']) @ ?ts"
      have okc: "conf_ok (Conf nm vs ss)" using ok Cons c by simp
      have w': "parsing S tz w (nm # vs @ ?d # ?us)"
        using w unfolding Cons c list.map concat.simps conf_words_split by (cases "ss = []") simp_all
      have hd: "?d \<in> {''{'', '';''}" "conf_word nm" "nm \<noteq> ''}''" "\<forall>v \<in> set vs. conf_word v \<and> v \<notin> set delimiters"
        "length vs \<le> 32" using okc by simp_all
      obtain tz1 w1 tz2 w2 where b: "gen_tokenize_next S tz 256 w = Ret ((Some (strncpy 256 nm), tz1), w1)"
        "\<And>k :: addr \<Rightarrow> string \<Rightarrow> gen_tokenize_t \<Rightarrow> (addr \<times> gen_tokenize_t) cmd.
          bnd (parse_entry_new tz1) (\<lambda>a. andthen (link_entry prev a)
          (bnd (parse_head S a tz1 (strncpy 256 nm)) (\<lambda>(v, tz). k a v tz))) w1 = k (brk w) (strncpy 256 ?d) tz2 w2"
        "entry_post S prev (Conf nm vs []) ?us tz w tz2 w2" "brk w2 = Suc (brk w)"
        using parse_begin [OF w' hd fn _ prev] room Cons c by auto
      obtain tz3 w3 where i: "parse_inner m S (brk w) (strncpy 256 ?d) tz2 w2 = Ret (tz3, w3)"
        "entry_post S prev c ?ts tz w tz3 w3"
        using parse_inner_spec [OF Suc okc _ b(3,4) _ fn prev] n room Cons c by auto
      let ?first = "case first of None \<Rightarrow> brk w | Some f \<Rightarrow> f"
      obtain p tz4 w4 where r: "parse_block m S (Some (brk w)) (Some ?first) tz3 w3 = Ret ((?first, tz4), w4)"
        "block_post S (Some (brk w)) cs' rs tz3 w3 p tz4 w4"
        using Suc [unfolded block_spec_def, rule_format, where cs = cs' and prev = "Some (brk w)" and first = "Some ?first"
          and tz = tz3 and w = w3 and stop = stop and rs = rs] i(2) stop ok n room fn Cons
        by (auto simp: entry_post_def prev_ok_def c)
      have nb: "\<not> word_is (strncpy 256 nm) ''}''" using okc by (simp add: word_is_strncpy conf_word_def)
      have "parse_block (Suc m) S prev first tz w = Ret ((?first, tz4), w4)"
        unfolding parse_block_Suc using b(1,2) nb i(1) r(1) by (simp add: bnd_run)
      with block_post_Cons [OF i(2) r(2) prev] show ?thesis
        by (intro exI [of _ "Some (brk w)"] exI [of _ tz4] exI [of _ w4]) (auto simp: Cons split: option.split)
    qed
  qed
qed

subsection \<open>Facts: whole files\<close>

text \<open>
  The state in which a file is parsed: it can be opened and read, its tokens are \<open>ts\<close>, and
  the tables are the initial ones.
\<close>

definition config_file :: "sys \<Rightarrow> world \<Rightarrow> string \<Rightarrow> int \<Rightarrow> u8 list \<Rightarrow> string list \<Rightarrow> bool" where
  "config_file S w f fd content ts \<longleftrightarrow> s_open S (trace w) f = Inr (fd, content) \<and> reads S fd
     \<and> tokens (map char_at content) = ts \<and> pt w = no_tables \<and> nul_free f \<and> length f < PARSE_STRING_MAX"

definition with_file :: "world \<Rightarrow> int \<Rightarrow> u8 list \<Rightarrow> world" where
  "with_file w fd content = w\<lparr>fdtab := (fdtab w)(fd \<mapsto> content)\<rparr>"

lemma parse_file_start:
  assumes "config_file S w f fd content ts"
  shows "\<exists>tz w'. parse_file n S (Some f) w = bnd (parse_block n S None None tz) (\<lambda>(r, tz). ret r) w'
    \<and> parsing S tz w' ts \<and> tz_fname tz = f \<and> only_parse (with_file w fd content) w' \<and> room (pt w') = 65536
    \<and> brk w' = brk w \<and> lg w' = lg w"
proof -
  let ?p = "no_tables\<lparr>pt_table := True\<rparr>"
  have ok: "tables_ok ?p" "room ?p = 65536"
    by (simp_all add: tables_ok_def room_def no_tables_def block_strings_def)
  have "s_open S (trace (w\<lparr>pt := ?p\<rparr>)) f = Inr (fd, content)" using assms by (simp add: config_file_def)
  from tokenize_new_spec [OF this] obtain tz w' where t: "gen_tokenize_new S (Some f) (w\<lparr>pt := ?p\<rparr>) = Ret (tz, w')"
    "tz_ok tz w'" "tz_fd tz = fd" "tz_fname tz = f" "upcoming tz w' = tokens (map char_at content)"
    "w' = w\<lparr>pt := ?p, trace := trace w @ [OpenFile f], fdtab := (fdtab w)(fd \<mapsto> content)\<rparr>"
    by auto
  have "parse_file n S (Some f) w = bnd (parse_block n S None None tz) (\<lambda>(r, tz). ret r) w'"
    using t(1) assms by (simp add: parse_file_def parse_sub_def config_file_def andthen_def bnd_run gen_tokenize_close_def
        split: outcome.splits)
  moreover have "parsing S tz w' ts" "only_parse (with_file w fd content) w'"
    using t assms ok by (auto simp: parsing_def config_file_def with_file_def only_parse_def)
  ultimately show ?thesis using t(4,6) ok by (intro exI [of _ tz] exI [of _ w']) simp
qed

theorem parse_file_builds:
  assumes "config_file S w f fd content (concat (map conf_words cs))" "cs \<noteq> []" "\<forall>c \<in> set cs. conf_ok c"
    and "sum_list (map conf_nodes cs) < n" "256 + sum_list (map conf_need cs) \<le> 65536"
  shows "\<exists>w'. parse_file n S (Some f) w = Ret (brk w, w') \<and> laid (pheap w') (brk w) (Some (brk w)) cs
    \<and> brk w' = brk w + forest_size cs \<and> only_parse (with_file w fd content) w'"
proof -
  obtain tz w1 where s: "parse_file n S (Some f) w = bnd (parse_block n S None None tz) (\<lambda>(r, tz). ret r) w1"
    "parsing S tz w1 (concat (map conf_words cs))" "tz_fname tz = f" "only_parse (with_file w fd content) w1"
    "room (pt w1) = 65536" "brk w1 = brk w"
    using parse_file_start [OF assms(1)] by blast
  have f: "nul_free (tz_fname tz)" using assms(1) s(3) by (simp add: config_file_def)
  obtain p tz' w' where b: "parse_block n S None None tz w1 = Ret ((the p, tz'), w')"
    "block_post S None cs [] tz w1 p tz' w'"
    using parse_block_spec [of n S, unfolded block_spec_def, rule_format, where cs = cs and prev = None and first = None
      and tz = tz and w = w1 and stop = "[]" and rs = "[]"] assms(2-5) s(2,5) f
    by (auto simp: prev_ok_def)
  have "p = Some (brk w)" using b(2) s(6) laid_head [OF assms(2)] by (auto simp: block_post_def)
  with b s(1,4,6) only_parse_trans [of _ w1 w'] show ?thesis
    by (auto simp: block_post_def bnd_run)
qed

text \<open>Printed trees are parsed back.\<close>

lemma conf_words_ok: "conf_ok c \<Longrightarrow> t \<in> set (conf_words c) \<Longrightarrow> word_ok t"
proof (induction c)
  case (Conf n vs ss)
  have "word_ok '';''" "word_ok ''{''" "word_ok ''}''" by (simp_all add: word_ok_def nul_free_def code_def)
  with Conf show ?case by (auto simp: conf_word_def word_ok_def split: if_splits)
qed

definition print_conf :: "conf list \<Rightarrow> string" where
  "print_conf cs = print_words (concat (map conf_words cs))"

lemma tokens_print_conf: "\<forall>c \<in> set cs. conf_ok c \<Longrightarrow> tokens (print_conf cs) = concat (map conf_words cs)"
  unfolding print_conf_def by (rule tokens_print_words) (auto dest: conf_words_ok)

text \<open>An entry whose values are not closed.\<close>

lemma parse_file_values:
  assumes "config_file S w f fd content (nm # ts)" "conf_word nm" "nm \<noteq> ''}''"
  shows "\<exists>a e tz w'. (\<forall>r. parse_values 0 S a tz (strncpy 256 (case ts of [] \<Rightarrow> nm | t # _ \<Rightarrow> t)) w' = r
      \<longrightarrow> (r = Loop \<longrightarrow> parse_file (Suc n) S (Some f) w = Loop) \<and> (\<forall>m. r = Exit m \<longrightarrow> parse_file (Suc n) S (Some f) w = Exit m))
    \<and> parsing S tz w' (tl ts) \<and> tz_fname tz = f \<and> pheap w' a = Some e \<and> lg w' = lg w \<and> 65533 \<le> room (pt w')"
proof -
  obtain tz w0 where s: "parse_file (Suc n) S (Some f) w = bnd (parse_block (Suc n) S None None tz) (\<lambda>(r, tz). ret r) w0"
    "parsing S tz w0 (nm # ts)" "tz_fname tz = f" "room (pt w0) = 65536" "lg w0 = lg w"
    using parse_file_start [OF assms(1)] by blast
  obtain tz1 w1 w3 where o: "gen_tokenize_next S tz 256 w0 = Ret ((Some (strncpy 256 nm), tz1), w1)"
    "\<And>k :: addr \<Rightarrow> (addr \<times> gen_tokenize_t) cmd. bnd (parse_entry_new tz1) (\<lambda>a. andthen (link_entry None a) (k a)) w1 = k (brk w0) w3"
    "parsing S tz1 w3 ts" "tz_fname tz1 = tz_fname tz" "only_parse w0 w3"
    "room (pt w0) \<le> Suc (room (pt w3))" "pheap w3 (brk w0) = Some entry_zero"
    using parse_open [OF s(2), of None] s(4) by (auto simp: prev_ok_def)
  obtain e tz2 w4 where h: "parse_head S (brk w0) tz1 (strncpy 256 nm) w3
      = parse_values 0 S (brk w0) tz2 (strncpy 256 (case ts of [] \<Rightarrow> nm | t # _ \<Rightarrow> t)) w4"
    "parsing S tz2 w4 (tl ts)" "tz_fname tz2 = tz_fname tz1" "only_parse w3 w4" "pheap w4 (brk w0) = Some e"
    "room (pt w3) \<le> room (pt w4) + 2"
    using parse_head_start [OF o(3) assms(2) o(7)] assms(1) o(4,6) s(3,4) by (auto simp: config_file_def)
  have nb: "\<not> word_is (strncpy 256 nm) ''}''" using assms(2,3) by (simp add: word_is_strncpy conf_word_def)
  have "lg w4 = lg w" using o(5) h(4) s(5) by (cases w0; cases w3; cases w4) (simp add: only_parse_def)
  then show ?thesis
    using s o h nb
    by (intro exI [of _ "brk w0"] exI [of _ e] exI [of _ tz2] exI [of _ w4])
      (auto simp: parse_block_Suc bnd_Ret bnd_Loop bnd_Exit)
qed

lemma parse_file_separator:
  assumes "config_file S w f fd content (nm # vs @ d # rs)" "d \<in> {'','', ''|''}" "conf_word nm" "nm \<noteq> ''}''"
    and "\<forall>v \<in> set vs. conf_word v \<and> v \<notin> set delimiters" "length vs \<le> 32"
  shows "parse_file (Suc n) S (Some f) w = Loop"
proof -
  obtain t ts where ts: "vs @ d # rs = t # ts" by (cases vs) auto
  obtain a e tz w' where p: "\<And>r. parse_values 0 S a tz (strncpy 256 t) w' = r \<Longrightarrow> r = Loop \<Longrightarrow> parse_file (Suc n) S (Some f) w = Loop"
    "parsing S tz w' ts" "pheap w' a = Some e" "65533 \<le> room (pt w')"
    using parse_file_values [OF assms(1,3,4), of n] ts by auto
  have "parse_values 0 S a tz (strncpy 256 t) w' = Loop"
    using assms(6) p(4) by (intro parse_values_separator [OF p(2) ts [symmetric] assms(2,5) _ p(3)]) simp_all
  with p(1) show ?thesis by blast
qed

lemma format_ok_plain: "CHR ''%'' \<notin> set s \<Longrightarrow> format_ok s"
  by (induction s) auto

lemma parse_file_eof:
  assumes "config_file S w f fd content (nm # vs)" "nm \<noteq> ''}''"
    and "\<forall>v \<in> set (nm # vs). conf_word v \<and> v \<notin> set delimiters" "log_ok (lg w)" "CHR ''%'' \<notin> set f"
  shows "\<exists>line. parse_file (Suc n) S (Some f) w = Exit (located f line ''maximum number of values (32) exceeded'')"
proof -
  let ?t = "case vs of [] \<Rightarrow> nm | t # _ \<Rightarrow> t"
  have nm: "conf_word nm" using assms(3) by simp
  obtain a e tz w' where p: "\<And>m. parse_values 0 S a tz (strncpy 256 ?t) w' = Exit m \<Longrightarrow> parse_file (Suc n) S (Some f) w = Exit m"
    "parsing S tz w' (tl vs)" "tz_fname tz = f" "pheap w' a = Some e" "lg w' = lg w" "65533 \<le> room (pt w')"
    using parse_file_values [OF assms(1) nm assms(2), of n] by auto
  have "\<forall>v \<in> set (?t # tl vs). conf_word v \<and> v \<notin> set delimiters" using assms(3) by (cases vs) auto
  from parse_values_eof [OF p(2) this _ p(4), of 0] p(3,5,6) obtain tz1 w1 where v: "parse_values 0 S a tz (strncpy 256 ?t) w'
      = gen_tokenize_error tz1 ''maximum number of values (32) exceeded'' w1" "tz_fname tz1 = f" "lg w1 = lg w"
    by auto
  have "format_ok (located f (tz_y tz1 + 1) ''maximum number of values (32) exceeded'')"
  proof (intro format_ok_plain notI)
    assume "CHR ''%'' \<in> set (located f (tz_y tz1 + 1) ''maximum number of values (32) exceeded'')"
    then have "CHR ''%'' \<in> set (f @ '':'' @ show_int (tz_y tz1 + 1) @ '': maximum number of values (32) exceeded'')"
      unfolding located_def by (auto dest!: in_set_takeD)
    then have "CHR ''%'' \<in> set (show_int (tz_y tz1 + 1))" using assms(5) by simp
    then obtain m where "CHR ''%'' \<in> set (show_nat m)" by (auto simp: show_int_def split: if_splits)
    then have "isdigit (CHR ''%'')" using show_nat_digits [of m] by blast
    then show False by (simp add: isdigit_def code_def)
  qed
  then have "gen_tokenize_error tz1 ''maximum number of values (32) exceeded'' w1
      = Exit (located f (tz_y tz1 + 1) ''maximum number of values (32) exceeded'')"
    using fatal_exits [of w1 f] assms(4) v(2,3) by (simp add: gen_tokenize_error_def)
  with p(1) v(1) show ?thesis by auto
qed

end
