(* ===== verification/Device.thy ===== *)
theory Device
  imports Lookup
begin

text \<open>
  \<open>src/device.c\<close>: the list of network devices. A pointer to a device is its position in the
  list, since devices are only appended and never freed; NULL is \<open>None\<close>. Both variants of
  \<open>device_init\<close> are modelled, \<open>s_have_getifaddrs\<close> says which one is compiled. The
  fields \<open>nm\<close> and \<open>bc\<close> of the structure are never read or written and left out.
\<close>

definition device_new :: device_t where
  "device_new = \<lparr>d_name = '''', d_flags = 0, d_eth = replicate 6 0,
     d_ip = replicate DEVICE_IP_ADDRS_MAX [0, 0, 0, 0], d_filter = ''''\<rparr>"

definition device_add :: "device_t \<Rightarrow> unit cmd" where
  "device_add d = bnd (asks l_devices) (\<lambda>ds.
     if ds = [] then modify (\<lambda>w. w\<lparr>l_devices := [d]\<rparr>)
     else if \<exists>n \<in> set ds. d_name n = d_name d
       then log_msg (LOG_WARN OR LOG_CONF) ''duplicate entry for device %s (ignored)''
     else modify (\<lambda>w. w\<lparr>l_devices := ds @ [d]\<rparr>))"

text \<open>The position of the first device with a property.\<close>

definition device_index :: "(device_t \<Rightarrow> bool) \<Rightarrow> world \<Rightarrow> nat option" where
  "device_index P w = find (\<lambda>i. P (l_devices w ! i)) [0..<length (l_devices w)]"

subsection \<open>Reading the interfaces\<close>

text \<open>The first of the 16 slots that holds no valid address takes the new one.\<close>

fun put_ip :: "ipaddr \<Rightarrow> ipaddr list \<Rightarrow> ipaddr list" where
  "put_ip a [] = []"
| "put_ip a (x # xs) = (if util_ip_valid x then x # put_ip a xs else a # xs)"

definition device_note :: "ifa_addr \<Rightarrow> device_t \<Rightarrow> device_t" where
  "device_note a d = (case a of
      Ifa_inet ip \<Rightarrow> if util_ip_valid ip then d\<lparr>d_ip := put_ip ip (d_ip d)\<rparr> else d
    | Ifa_link e \<Rightarrow> d\<lparr>d_eth := e\<rparr>
    | _ \<Rightarrow> d)"

definition device_update :: "nat \<Rightarrow> (device_t \<Rightarrow> device_t) \<Rightarrow> unit cmd" where
  "device_update i f = modify (\<lambda>w. w\<lparr>l_devices := (l_devices w)[i := f (l_devices w ! i)]\<rparr>)"

text \<open>
  One turn of the loop over the interfaces: a new interface is skipped when it is a loopback
  or not up. \<open>ifa_addr\<close> may be NULL, which the \<open>switch\<close> dereferences.
\<close>

definition device_note_at :: "ifaddr \<Rightarrow> nat option \<Rightarrow> unit cmd" where
  "device_note_at n p = (case p of
      None \<Rightarrow> ret ()
    | Some i \<Rightarrow>
        if ifa_addr n = Ifa_null then undef ''device_init: NULL ifa_addr''
        else device_update i (device_note (ifa_addr n)))"

definition device_interface :: "ifaddr \<Rightarrow> unit cmd" where
  "device_interface n =
     bnd (asks (device_index (\<lambda>d. d_name d = ifa_name n))) (\<lambda>p. case p of
       Some i \<Rightarrow> device_note_at n (Some i)
     | None \<Rightarrow>
         if ifa_loopback n \<or> \<not> ifa_up n then ret ()
         else andthen (device_add (device_new\<lparr>d_name := ifa_name n, d_flags := ifa_flags n\<rparr>))
           (bnd (asks (device_index (\<lambda>d. d_name d = ifa_name n))) (device_note_at n)))"

definition device_init :: "sys \<Rightarrow> unit cmd" where
  "device_init S =
     (if s_have_getifaddrs S then
        (case s_getifaddrs S of
           None \<Rightarrow> andthen (log_msg (LOG_ERR OR LOG_DEV) ''getifaddrs: %s'') (undef ''getifaddrs failed'')
         | Some ifs \<Rightarrow>
             andthen (each device_interface ifs)
             (bnd (asks l_devices) (\<lambda>ds. each (\<lambda>d. log_msg (LOG_DEBUG OR LOG_DEV) ''%s: %s'') ds)))
      else device_add (device_new\<lparr>d_name := ''eth0'', d_flags := 0\<rparr>))"

subsection \<open>Searching\<close>

text \<open>The three searches read the interfaces when the list is still empty.\<close>

definition device_ready :: "sys \<Rightarrow> unit cmd" where
  "device_ready S = bnd (asks l_devices) (\<lambda>ds. if ds = [] then device_init S else ret ())"

definition device_search_by_name :: "sys \<Rightarrow> string option \<Rightarrow> nat option cmd" where
  "device_search_by_name S name = (case name of
      None \<Rightarrow> asks (device_index (\<lambda>_. True))
    | Some n \<Rightarrow> andthen (device_ready S) (asks (device_index (\<lambda>d. d_name d = n))))"

definition device_search_by_eth :: "sys \<Rightarrow> etheraddr \<Rightarrow> nat option cmd" where
  "device_search_by_eth S e = andthen (device_ready S) (asks (device_index (\<lambda>d. d_eth d = e)))"

definition device_search_by_ip :: "sys \<Rightarrow> ipaddr \<Rightarrow> nat option cmd" where
  "device_search_by_ip S ip = andthen (device_ready S)
     (asks (device_index (\<lambda>d. \<exists>a \<in> set (take DEVICE_IP_ADDRS_MAX (d_ip d)). a = ip)))"

subsection \<open>Facts\<close>

lemma device_add_devices:
  assumes "device_add d w = Ret ((), w')"
  shows "l_devices w' = (if \<exists>n \<in> set (l_devices w). d_name n = d_name d
      then l_devices w else l_devices w @ [d])"
  using assms by (auto simp: device_add_def bnd_Ret_iff dest!: log_msg_Ret split: if_splits)

interpretation dr: registry l_devices d_name "(=)" "\<lambda>d. d" device_add
  by unfold_locales (auto simp: device_add_devices identity_equivp)

lemma device_index_Some:
  assumes "device_index P w = Some i"
  shows "i < length (l_devices w) \<and> P (l_devices w ! i) \<and> (\<forall>j < i. \<not> P (l_devices w ! j))"
proof -
  obtain k where "k < length (l_devices w)" "P (l_devices w ! k)" "i = k" "\<forall>j < k. \<not> P (l_devices w ! j)"
    using assms unfolding device_index_def find_Some_iff by auto
  then show ?thesis by simp
qed

lemma device_index_None: "device_index P w = None \<longleftrightarrow> (\<forall>d \<in> set (l_devices w). \<not> P d)"
  by (auto simp: device_index_def find_None_iff all_set_conv_all_nth)

lemma length_put_ip [simp]: "length (put_ip a xs) = length xs"
  by (induction xs) auto

text \<open>
  The shape of every device table the code builds: names are unique and every device has its
  16 address slots.
\<close>

definition devices_ok :: "world \<Rightarrow> bool" where
  "devices_ok w \<longleftrightarrow> dr.unique_keys w \<and> (\<forall>d \<in> set (l_devices w). length (d_ip d) = DEVICE_IP_ADDRS_MAX)"

lemma devices_ok_logs [simp]: "devices_ok (w\<lparr>logs := ls\<rparr>) = devices_ok w"
  by (simp add: devices_ok_def dr.unique_keys_def)

lemma devices_ok_empty: "l_devices w = [] \<Longrightarrow> devices_ok w"
  by (simp add: devices_ok_def dr.unique_keys_def)

lemma keeps_device_add:
  "length (d_ip d) = DEVICE_IP_ADDRS_MAX \<Longrightarrow> keeps devices_ok (device_add d)"
proof (rule keepsI)
  fix w w' :: world and x :: unit
  assume d: "length (d_ip d) = DEVICE_IP_ADDRS_MAX" and ok: "devices_ok w" and r: "device_add d w = Ret (x, w')"
  have "dr.unique_keys w'"
    using dr.add_unique_keys [of d w w'] r ok by (simp add: devices_ok_def)
  moreover have "\<forall>d \<in> set (l_devices w'). length (d_ip d) = DEVICE_IP_ADDRS_MAX"
    using device_add_devices [of d w w'] r ok d by (auto simp: devices_ok_def)
  ultimately show "devices_ok w'" by (simp add: devices_ok_def)
qed

lemma devices_ok_update:
  assumes "devices_ok w" and "\<And>d. d_name (f d) = d_name d" "\<And>d. length (d_ip (f d)) = length (d_ip d)"
  shows "devices_ok (w\<lparr>l_devices := (l_devices w)[i := f (l_devices w ! i)]\<rparr>)"
proof (cases "i < length (l_devices w)")
  case True
  have n: "d_name ((l_devices w)[i := f (l_devices w ! i)] ! j) = d_name (l_devices w ! j)"
    if "j < length (l_devices w)" for j
    using that assms(2) by (cases "j = i") simp_all
  have "length (d_ip (f (l_devices w ! i))) = DEVICE_IP_ADDRS_MAX"
    using True assms(1,3) by (simp add: devices_ok_def)
  moreover have "set ((l_devices w)[i := f (l_devices w ! i)]) \<subseteq> insert (f (l_devices w ! i)) (set (l_devices w))"
    by (rule set_update_subset_insert)
  ultimately show ?thesis
    using assms(1) n by (auto simp: devices_ok_def dr.unique_keys_def pairwise_def)
next
  case False
  then have "(l_devices w)[i := f (l_devices w ! i)] = l_devices w" by (simp add: list_update_beyond)
  then show ?thesis using assms(1) by (simp add: devices_ok_def dr.unique_keys_def)
qed

lemma device_note_shape [simp]:
  "d_name (device_note a d) = d_name d" "length (d_ip (device_note a d)) = length (d_ip d)"
  by (simp_all add: device_note_def split: ifa_addr.split)

lemma keeps_device_update:
  "(\<And>d. d_name (f d) = d_name d) \<Longrightarrow> (\<And>d. length (d_ip (f d)) = length (d_ip d)) \<Longrightarrow>
   keeps devices_ok (device_update i f)"
  unfolding device_update_def by (rule keeps_modify) (rule devices_ok_update)

lemma keeps_device_interface [keeps_rules]: "keeps devices_ok (device_interface n)"
  unfolding device_interface_def device_note_at_def
  by (auto intro!: keeps_rules keeps_device_add keeps_device_update simp: device_new_def split: option.splits)

lemma keeps_device_init [keeps_rules]: "keeps devices_ok (device_init S)"
  unfolding device_init_def
  by (auto intro!: keeps_rules keeps_device_add simp: device_new_def split: option.splits)

lemma keeps_device_search [keeps_rules]:
  "keeps devices_ok (device_search_by_name S name)" "keeps devices_ok (device_search_by_eth S e)"
  "keeps devices_ok (device_search_by_ip S ip)"
  unfolding device_search_by_name_def device_search_by_eth_def device_search_by_ip_def device_ready_def
  by (auto intro!: keeps_rules split: option.splits)

text \<open>What a search finds: the first device with the name, in the table after the search.\<close>

lemma device_search_by_name_found:
  assumes "device_search_by_name S (Some n) w = Ret (r, w')"
  shows "r = device_index (\<lambda>d. d_name d = n) w' \<and> (l_devices w \<noteq> [] \<longrightarrow> w' = w)"
  using assms by (auto simp: device_search_by_name_def device_ready_def andthen_unit_Ret bnd_Ret_iff split: if_splits)

text \<open>Only interfaces of the system that are up and no loopback become devices.\<close>

definition devices_from :: "ifaddr list \<Rightarrow> world \<Rightarrow> bool" where
  "devices_from ifs w \<longleftrightarrow> (\<forall>d \<in> set (l_devices w). \<exists>n \<in> set ifs. d_name d = ifa_name n \<and> ifa_up n \<and> \<not> ifa_loopback n)"

lemma devices_from_logs [simp]: "devices_from ifs (w\<lparr>logs := ls\<rparr>) = devices_from ifs w"
  by (simp add: devices_from_def)

lemma keeps_from_update:
  "(\<And>d. d_name (f d) = d_name d) \<Longrightarrow> keeps (devices_from ifs) (device_update i f)"
  unfolding device_update_def
proof (rule keeps_modify)
  fix w assume f: "\<And>d. d_name (f d) = d_name d" and d: "devices_from ifs w"
  have "d_name ((l_devices w)[i := f (l_devices w ! i)] ! j) = d_name (l_devices w ! j)"
    if "j < length (l_devices w)" for j
    using that f by (cases "j = i") simp_all
  then show "devices_from ifs (w\<lparr>l_devices := (l_devices w)[i := f (l_devices w ! i)]\<rparr>)"
    using d by (simp add: devices_from_def all_set_conv_all_nth)
qed

lemma keeps_from_interface:
  assumes "n \<in> set ifs"
  shows "keeps (devices_from ifs) (device_interface n)"
proof -
  have "keeps (devices_from ifs) (device_add (device_new\<lparr>d_name := ifa_name n, d_flags := ifa_flags n\<rparr>))"
    if "\<not> (ifa_loopback n \<or> \<not> ifa_up n)"
  proof (rule keepsI)
    let ?d = "device_new\<lparr>d_name := ifa_name n, d_flags := ifa_flags n\<rparr>"
    fix w w' :: world and x :: unit
    assume d: "devices_from ifs w" and r: "device_add ?d w = Ret (x, w')"
    have "set (l_devices w') \<subseteq> insert ?d (set (l_devices w))"
      using device_add_devices [of ?d w w'] r by auto
    moreover have "\<exists>m \<in> set ifs. d_name ?d = ifa_name m \<and> ifa_up m \<and> \<not> ifa_loopback m"
      using assms that by (intro bexI [of _ n]) simp_all
    ultimately show "devices_from ifs w'"
      using d unfolding devices_from_def by blast
  qed
  then show ?thesis
    unfolding device_interface_def device_note_at_def
    by (auto intro!: keeps_rules keeps_from_update split: option.splits)
qed

lemma device_init_from:
  assumes "s_have_getifaddrs S" "s_getifaddrs S = Some ifs" "l_devices w = []"
    and "device_init S w = Ret ((), w')"
  shows "devices_from ifs w'"
proof -
  have e: "keeps (devices_from ifs) (each device_interface xs)" if "set xs \<subseteq> set ifs" for xs
    using that by (induction xs) (auto intro!: keeps_rules keeps_from_interface)
  have "keeps (devices_from ifs) (device_init S)"
    using assms(1,2) unfolding device_init_def
    by (simp del: LOG_DEBUG_def LOG_DEV_def) (intro keeps_rules e, simp_all)
  then show ?thesis
    using keepsD [of "devices_from ifs" "device_init S" w "()" w'] assms(3,4) by (simp add: devices_from_def)
qed

end
