(* ===== verification/Listener_New.thy ===== *)
theory Listener_New
  imports Listener
begin

text \<open>
  \<open>src/listener.c\<close>, the construction of listeners: descriptors and their flags, the link
  listener over pcap and libnet, the UDP listener and the RPC listener. A constructor
  returns \<open>None\<close> for its NULL.
\<close>

subsection \<open>Descriptors\<close>

text \<open>
  The three \<open>ioctl\<close> requests share one shape: the result of the system is logged when it
  is a failure or when the request does not exist on the platform.
\<close>

definition i_listener_ioctl :: "sys \<Rightarrow> int \<Rightarrow> bool cmd" where
  "i_listener_ioctl S fd = bnd (asks (\<lambda>w. s_ioctl S (trace w) fd)) (\<lambda>r. case r of
      None \<Rightarrow> andthen (log_msg (LOG_WARN OR LOG_DEV) ''ioctl not supported'') (ret False)
    | Some ok \<Rightarrow>
        if ok then ret True
        else andthen (log_msg (LOG_WARN OR LOG_DEV) ''ioctl: %s'') (ret False))"

text \<open>
  Switching the flag off masks with \<open>!O_NONBLOCK\<close>, which is 0: it clears every flag.
\<close>

definition i_listener_fcntl_nonblock :: "sys \<Rightarrow> int \<Rightarrow> bool \<Rightarrow> bool cmd" where
  "i_listener_fcntl_nonblock S fd on = bnd (asks (\<lambda>w. s_fcntl_get S (trace w) fd)) (\<lambda>r. case r of
      None \<Rightarrow> andthen (log_msg LOG_WARN ''fcntl(F_GETFL): %s'') (ret False)
    | Some flags \<Rightarrow>
        (let new = (if on then flags OR s_nonblock S else flags AND 0)
         in bnd (asks (\<lambda>w. s_fcntl_set S (trace w) fd new)) (\<lambda>ok.
            if ok then andthen (emit (SetFlags fd new)) (ret True)
            else andthen (log_msg LOG_WARN ''fcntl(F_SETFL, O_NONBLOCK): %s'') (ret False))))"

subsection \<open>Link listeners\<close>

definition listener_blank :: listener_t where
  "listener_blank = \<lparr>l_next = None, l_fd = 0, l_info = '''', l_desc = '''', l_ip = [0, 0, 0, 0],
     l_eth = replicate 6 0, l_name = None, l_service = None, l_receive = None, l_cleanup = None,
     l_send = None, l_type = 0, l_device = None, l_udp_from = no_sockaddr, l_udp_to = no_sockaddr\<rparr>"

definition i_listener_link_init_lnet :: "sys \<Rightarrow> addr \<Rightarrow> string \<Rightarrow> bool cmd" where
  "i_listener_link_init_lnet S l device =
     (if s_lnet_open S device then ret True
      else andthen (log_msg (LOG_WARN OR LOG_DEV) ''libnet_open_link_interface(%s): %s'') (ret False))"

text \<open>The server name of a link listener is the host name up to its first dot.\<close>

definition short_hostname :: "string \<Rightarrow> string" where
  "short_hostname s = (case strchr CHR ''.'' s of None \<Rightarrow> s | Some (a, _) \<Rightarrow> a)"

definition i_listener_link_init_addr :: "sys \<Rightarrow> addr \<Rightarrow> string \<Rightarrow> bool cmd" where
  "i_listener_link_init_addr S l device = bnd (listener_get l) (\<lambda>r.
     bnd (case s_hwaddr S device of
            None \<Rightarrow> andthen (log_msg (LOG_WARN OR LOG_DEV) ''libnet_get_hwaddr(%s): %s'') (ret r)
          | Some e \<Rightarrow> ret (r\<lparr>l_eth := e\<rparr>)) (\<lambda>r.
     andthen (if \<not> util_ip_valid (s_lnet_ip S device)
        then log_msg (LOG_WARN OR LOG_DEV) ''libnet_get_ipaddr(%s): %s'' else ret ())
     (andthen (listener_put l (r\<lparr>l_ip := s_lnet_ip S device, l_name := Some (short_hostname (s_hostname S))\<rparr>))
     (ret True))))"

definition i_listener_link_init_pcap :: "sys \<Rightarrow> addr \<Rightarrow> string \<Rightarrow> bool cmd" where
  "i_listener_link_init_pcap S l device = bnd (asks (\<lambda>w. s_pcap_open S (trace w) device)) (\<lambda>p. case p of
      None \<Rightarrow> andthen (log_msg (LOG_WARN OR LOG_DEV) ''pcap_open_live(%s): %s'') (ret False)
    | Some (fd, ethernet) \<Rightarrow>
        if \<not> ethernet
        then andthen (log_msg (LOG_WARN OR LOG_DEV) ''%s datalink type %s not supported'') (ret False)
        else bnd (listener_get l) (\<lambda>r.
          andthen (listener_put l (r\<lparr>l_fd := fd\<rparr>))
          (bnd (i_listener_ioctl S fd) (\<lambda>_.
           bnd (i_listener_ioctl S fd) (\<lambda>_.
           bnd (i_listener_ioctl S fd) (\<lambda>_.
           bnd (i_listener_fcntl_nonblock S fd True) (\<lambda>_. ret True)))))))"

definition i_listener_link_init_filter :: "sys \<Rightarrow> addr \<Rightarrow> string \<Rightarrow> string option \<Rightarrow> bool cmd" where
  "i_listener_link_init_filter S l device filt =
     andthen (log_msg (LOG_INFO OR LOG_DEV) ''setting pcap filter: %s'')
     (case filt of
        None \<Rightarrow> ret True
      | Some f \<Rightarrow>
          if \<not> s_lookupnet S device
          then andthen (log_msg (LOG_WARN OR LOG_DEV) ''pcap_lookupnet(%s): %s'') (ret False)
          else if \<not> s_pcap_compile S f
          then andthen (log_msg (LOG_WARN OR LOG_DEV) ''pcap_compile: %s'') (ret False)
          else if \<not> s_pcap_setfilter S f
          then andthen (log_msg (LOG_WARN OR LOG_DEV) ''pcap_setfilter(%s): %s'') (ret False)
          else ret True)"

text \<open>The printable descriptions, arrays of 64 bytes; without \<open>desc\<close> the info is copied.\<close>

definition described :: "string \<Rightarrow> string option \<Rightarrow> listener_t \<Rightarrow> listener_t" where
  "described info desc r = r\<lparr>l_info := take 63 info,
     l_desc := (case desc of None \<Rightarrow> take 63 info | Some d \<Rightarrow> take 63 d)\<rparr>"

definition listener_new_link ::
  "sys \<Rightarrow> string option \<Rightarrow> string option \<Rightarrow> service_fn option \<Rightarrow> string option \<Rightarrow> addr option cmd" where
  "listener_new_link S device filt service desc = (case device of
      None \<Rightarrow> ret None
    | Some dev \<Rightarrow> bnd malloc (\<lambda>l.
        let fail = andthen (i_listener_link_cleanup l) (ret None) in
        andthen (listener_put l (listener_blank\<lparr>l_type := LISTEN_LINK\<rparr>))
        (bnd (i_listener_link_init_lnet S l dev) (\<lambda>ok. if \<not> ok then fail
         else bnd (i_listener_link_init_addr S l dev) (\<lambda>ok. if \<not> ok then fail
         else bnd (i_listener_link_init_pcap S l dev) (\<lambda>ok. if \<not> ok then fail
         else bnd (i_listener_link_init_filter S l dev filt) (\<lambda>ok. if \<not> ok then fail
         else bnd (listener_get l) (\<lambda>r.
           andthen (listener_put l (described (''link: '' @ dev) desc (r\<lparr>l_device := Some dev,
             l_service := service, l_receive := Some Link_receive, l_cleanup := Some Link_cleanup,
             l_send := Some Link_send\<rparr>)))
           (andthen (log_msg (LOG_INFO OR LOG_DEV) ''listening on %s'')
           (ret (Some l)))))))))))"

subsection \<open>UDP listeners\<close>

definition udp_info :: "sys \<Rightarrow> sockaddr_in \<Rightarrow> sockaddr_in option \<Rightarrow> string" where
  "udp_info S from peer = ''udp: '' @ take 31 (sai_text S (Some from)) @ '' <-> '' @ take 31 (sai_text S peer)"

definition listener_new_udp ::
  "sys \<Rightarrow> sockaddr_in option \<Rightarrow> sockaddr_in option \<Rightarrow> service_fn option \<Rightarrow> string option \<Rightarrow> addr option cmd" where
  "listener_new_udp S from peer service desc = bnd malloc (\<lambda>l.
     bnd (asks (\<lambda>w. s_socket S (trace w))) (\<lambda>sock. andthen (emit OpenSocket) (case sock of
        None \<Rightarrow> andthen (log_msg (LOG_WARN OR LOG_DEV) ''socket(AF_INET, SOCK_DGRAM): %s'') (ret None)
      | Some fd \<Rightarrow>
          bnd (i_listener_fcntl_nonblock S fd True) (\<lambda>_.
          let local = (case from of Some a \<Rightarrow> a | None \<Rightarrow> no_sockaddr) in
          bnd (asks (\<lambda>w. s_bind S (trace w) local)) (\<lambda>bound.
          if \<not> bound then andthen (log_msg (LOG_WARN OR LOG_DEV) ''bind(%s): %s'')
            (andthen (close_fd fd) (ret None))
          else bnd (case peer of None \<Rightarrow> ret True | Some p \<Rightarrow> asks (\<lambda>w. s_connect S (trace w) p)) (\<lambda>connected.
          if \<not> connected then andthen (log_msg (LOG_WARN OR LOG_DEV) ''connect(%s): %s'')
            (andthen (close_fd fd) (ret None))
          else bnd (asks (\<lambda>w. s_sockname S (trace w) fd)) (\<lambda>name.
          andthen (if name = None then log_msg (LOG_WARN OR LOG_DEV) ''getsockname(): %s'' else ret ())
          (let me = (case name of Some a \<Rightarrow> a | None \<Rightarrow> no_sockaddr) in
           andthen (listener_put l (described (udp_info S me peer) desc (listener_blank
             \<lparr>l_type := LISTEN_UDP, l_fd := fd, l_udp_from := me,
              l_udp_to := (case peer of Some p \<Rightarrow> p | None \<Rightarrow> no_sockaddr),
              l_service := service, l_receive := Some Udp_receive, l_cleanup := Some Udp_cleanup,
              l_send := Some Udp_send\<rparr>)))
           (andthen (log_msg (LOG_INFO OR LOG_DEV) ''listening on %s'')
           (ret (Some l)))))))))))"

subsection \<open>RPC listeners\<close>

definition listener_new_rpc_udp ::
  "sys \<Rightarrow> sockaddr_in option \<Rightarrow> nat \<Rightarrow> nat \<Rightarrow> string option \<Rightarrow> addr option cmd" where
  "listener_new_rpc_udp S from prognum versnum desc = bnd malloc (\<lambda>l.
     bnd (asks (\<lambda>w. s_socket S (trace w))) (\<lambda>sock. andthen (emit OpenSocket) (case sock of
        None \<Rightarrow> andthen (log_msg (LOG_WARN OR LOG_DEV) ''socket(AF_INET, SOCK_DGRAM): %s'') (ret None)
      | Some fd \<Rightarrow>
          bnd (i_listener_fcntl_nonblock S fd True) (\<lambda>_.
          let local = (case from of Some a \<Rightarrow> a | None \<Rightarrow> no_sockaddr);
              fail = (\<lambda>msg. andthen (log_msg (LOG_WARN OR LOG_DEV) msg) (andthen (close_fd fd) (ret None)))
          in
          bnd (asks (\<lambda>w. s_bind S (trace w) local)) (\<lambda>bound.
          if \<not> bound then fail ''bind(%s): %s''
          else bnd (asks (\<lambda>w. s_rpc_create S (trace w) fd)) (\<lambda>created.
          if \<not> created then fail ''svcudp_bufcreate() failed''
          else if \<not> s_rpc_register S prognum versnum then fail ''svc_register(%d, %d, udp) failed''
          else bnd (asks (\<lambda>w. s_sockname S (trace w) fd)) (\<lambda>name.
          andthen (if name = None then log_msg (LOG_WARN OR LOG_DEV) ''getsockname(): %s'' else ret ())
          (let me = (case name of Some a \<Rightarrow> a | None \<Rightarrow> no_sockaddr) in
           andthen (listener_put l (described (''rpc/udp: '' @ take 31 (sai_text S (Some me))) desc (listener_blank
             \<lparr>l_type := LISTEN_RPC_UDP, l_fd := fd, l_udp_from := me,
              l_receive := Some Rpc_udp_receive, l_cleanup := Some Rpc_udp_cleanup\<rparr>)))
           (andthen (log_msg (LOG_INFO OR LOG_DEV) ''listening on %s'')
           (ret (Some l)))))))))))"

subsection \<open>Facts\<close>

text \<open>
  The listeners the two socket constructors return have handlers but no name: nothing on
  these paths writes \<open>l->name\<close>.
\<close>

lemma listener_new_udp_result:
  assumes "listener_new_udp S from peer service desc w = Ret (Some l, w')"
  shows "\<exists>r. lheap w' l = Some r \<and> l_name r = None \<and> l_receive r = Some Udp_receive
     \<and> l_cleanup r = Some Udp_cleanup \<and> l_send r = Some Udp_send \<and> l_service r = service
     \<and> l_udp_to r = (case peer of Some p \<Rightarrow> p | None \<Rightarrow> no_sockaddr)"
  using assms
  by (clarsimp simp: listener_new_udp_def bnd_Ret_iff andthen_Ret_iff Let_def log_msg_def described_def
      listener_blank_def store_run(4-10) split: option.splits if_splits)

lemma listener_new_rpc_udp_result:
  assumes "listener_new_rpc_udp S from prog vers desc w = Ret (Some l, w')"
  shows "\<exists>r. lheap w' l = Some r \<and> l_name r = None \<and> l_receive r = Some Rpc_udp_receive
     \<and> l_cleanup r = Some Rpc_udp_cleanup"
  using assms
  by (clarsimp simp: listener_new_rpc_udp_def bnd_Ret_iff andthen_Ret_iff Let_def log_msg_def described_def
      listener_blank_def store_run(4-10) split: option.splits if_splits)

lemma listener_add_unnamed:
  assumes "lheap w l = Some r" "l_receive r \<noteq> None" "l_cleanup r \<noteq> None" "l_name r = None"
  shows "listener_add (Some l) w = Undef ''listener_add: l->name[0] = 0 with NULL name''"
  using assms by (simp add: listener_add_def bnd_run andthen_def log_msg_run)

text \<open>A link listener is named by \<open>init_addr\<close>, and the later steps keep the name.\<close>

definition named_as :: "addr \<Rightarrow> string \<Rightarrow> world \<Rightarrow> bool" where
  "named_as l n w \<longleftrightarrow> (\<exists>r. lheap w l = Some r \<and> l_name r = Some n)"

lemma init_addr_names:
  "i_listener_link_init_addr S l device w = Ret (ok, w') \<Longrightarrow> named_as l (short_hostname (s_hostname S)) w'"
  by (cases "s_hwaddr S device")
    (auto simp: i_listener_link_init_addr_def named_as_def bnd_Ret_iff andthen_Ret_iff store_run(4-10))

lemma named_as_frame [simp]:
  "named_as l n (w\<lparr>logs := ls\<rparr>) = named_as l n w"
  "named_as l n (w\<lparr>trace := tr\<rparr>) = named_as l n w"
  by (simp_all add: named_as_def)

lemma named_as_set_fd: "named_as l n w \<Longrightarrow> listener_get l w = Ret (r, w) \<Longrightarrow>
   named_as l n (w\<lparr>lheap := (lheap w)(l \<mapsto> r\<lparr>l_fd := fd\<rparr>)\<rparr>)"
  by (auto simp: named_as_def)

lemma keeps_named_flags:
  "keeps (named_as l n) (i_listener_ioctl S fd)"
  "keeps (named_as l n) (i_listener_fcntl_nonblock S fd on)"
  unfolding i_listener_ioctl_def i_listener_fcntl_nonblock_def Let_def
  by (auto intro!: keeps_rules)

lemma keeps_init_pcap: "keeps (named_as l n) (i_listener_link_init_pcap S l device)"
proof (rule keepsI)
  fix w x w'
  assume n: "named_as l n w" and r: "i_listener_link_init_pcap S l device w = Ret (x, w')"
  let ?flags = "\<lambda>fd. bnd (i_listener_ioctl S fd) (\<lambda>_. bnd (i_listener_ioctl S fd) (\<lambda>_.
      bnd (i_listener_ioctl S fd) (\<lambda>_. bnd (i_listener_fcntl_nonblock S fd True) (\<lambda>_. ret True))))"
  have k: "keeps (named_as l n) (?flags fd)" for fd
    by (intro keeps_rules keeps_named_flags)
  show "named_as l n w'"
  proof (cases "s_pcap_open S (trace w) device")
    case None
    with n r show ?thesis
      by (auto simp: i_listener_link_init_pcap_def bnd_run andthen_def log_msg_run)
  next
    case (Some p)
    then obtain fd e where p: "s_pcap_open S (trace w) device = Some (fd, e)" by (cases p) auto
    obtain q where q: "lheap w l = Some q" using n by (auto simp: named_as_def)
    show ?thesis
    proof (cases e)
      case True
      with r p q have "?flags fd (w\<lparr>lheap := (lheap w)(l \<mapsto> q\<lparr>l_fd := fd\<rparr>)\<rparr>) = Ret (x, w')"
        by (simp add: i_listener_link_init_pcap_def bnd_run andthen_def)
      moreover have "named_as l n (w\<lparr>lheap := (lheap w)(l \<mapsto> q\<lparr>l_fd := fd\<rparr>)\<rparr>)"
        using n q by (auto simp: named_as_def)
      ultimately show ?thesis by (metis keepsD k)
    next
      case False
      with n r p show ?thesis
        by (auto simp: i_listener_link_init_pcap_def bnd_run andthen_def log_msg_run)
    qed
  qed
qed

lemma keeps_init_filter: "keeps (named_as l n) (i_listener_link_init_filter S l device filt)"
  unfolding i_listener_link_init_filter_def by (auto intro!: keeps_rules)

lemma listener_new_link_named:
  assumes "listener_new_link S device filt service desc w = Ret (Some l, w')"
  shows "\<exists>r. lheap w' l = Some r \<and> l_name r = Some (short_hostname (s_hostname S))
     \<and> l_receive r = Some Link_receive \<and> l_cleanup r = Some Link_cleanup \<and> l_send r = Some Link_send
     \<and> l_service r = service"
proof -
  let ?N = "named_as l (short_hostname (s_hostname S))"
  from assms obtain dev w1 w2 w3 w4 r where
    a: "i_listener_link_init_addr S l dev w1 = Ret (True, w2)"
    and p: "i_listener_link_init_pcap S l dev w2 = Ret (True, w3)"
    and f: "i_listener_link_init_filter S l dev filt w3 = Ret (True, w4)"
    and r: "lheap w4 l = Some r"
    and w': "lheap w' l = Some (described (''link: '' @ dev) desc (r\<lparr>l_device := Some dev,
             l_service := service, l_receive := Some Link_receive, l_cleanup := Some Link_cleanup,
             l_send := Some Link_send\<rparr>))"
    by (clarsimp simp: listener_new_link_def i_listener_link_cleanup_def bnd_Ret_iff andthen_Ret_iff Let_def
        store_run(4-10) store_Ret_iff dest!: log_msg_Ret split: option.splits if_splits)
  have "?N w2" using a by (rule init_addr_names)
  then have "?N w4" using p f by (metis keepsD keeps_init_pcap keeps_init_filter)
  with r w' show ?thesis by (auto simp: named_as_def described_def)
qed

text \<open>With sockets that work, the UDP constructor returns a listener.\<close>

definition working_sockets :: "sys \<Rightarrow> bool" where
  "working_sockets S \<longleftrightarrow> (\<forall>tr. s_socket S tr \<noteq> None \<and> (\<forall>a. s_bind S tr a) \<and> (\<forall>p. s_connect S tr p))"

lemma fcntl_total: "\<exists>b w'. i_listener_fcntl_nonblock S fd on w = Ret (b, w')"
  by (auto simp: i_listener_fcntl_nonblock_def bnd_run andthen_def log_msg_run Let_def split: option.splits)

lemma listener_new_udp_works:
  assumes "working_sockets S"
  shows "\<exists>l w'. listener_new_udp S from peer service desc w = Ret (Some l, w')"
proof -
  have w: "\<exists>fd. s_socket S tr = Some fd" "s_bind S tr a" "s_connect S tr p" for tr a p
    using assms by (auto simp: working_sockets_def)
  let ?w = "w\<lparr>brk := Suc (brk w), trace := trace w @ [OpenSocket]\<rparr>"
  obtain fd where fd: "s_socket S (trace w) = Some fd" using w(1) by blast
  obtain b w1 where f: "i_listener_fcntl_nonblock S fd True ?w = Ret (b, w1)"
    using fcntl_total by blast
  show ?thesis
    using fd f w(2,3)
    by (cases peer; cases "s_sockname S (trace w1) fd")
      (auto simp: listener_new_udp_def bnd_run andthen_def log_msg_run Let_def)
qed

end
