(* ===== verification/Service.thy ===== *)
theory Service
  imports Device Listener_New
begin

text \<open>
  \<open>src/service.c\<close>, second part: the configuration binds services to devices and addresses,
  and \<open>service_start\<close> creates the listeners. A pointer to a service is its position in the
  list. The members of the union in \<open>service_t\<close> are separate fields here; the identifier of
  a service says which of them the code uses.
\<close>

definition service_get :: "nat \<Rightarrow> service_t cmd" where
  "service_get i = bnd (asks l_services) (\<lambda>ss.
     if i < length ss then ret (ss ! i) else undef ''service pointer'')"

definition service_update :: "nat \<Rightarrow> (service_t \<Rightarrow> service_t) \<Rightarrow> unit cmd" where
  "service_update i f = modify (\<lambda>w. w\<lparr>l_services := (l_services w)[i := f (l_services w ! i)]\<rparr>)"

definition device_get :: "nat \<Rightarrow> device_t cmd" where
  "device_get i = bnd (asks l_devices) (\<lambda>ds.
     if i < length ds then ret (ds ! i) else undef ''device pointer'')"

subsection \<open>Bindings\<close>

text \<open>The loops over the 16 slots take the first free one; the result is the new array.\<close>

definition fill_slot :: "('a \<Rightarrow> bool) \<Rightarrow> 'a \<Rightarrow> 'a list \<Rightarrow> 'a list option" where
  "fill_slot free v xs = map_option (\<lambda>k. xs[k := v]) (find (\<lambda>k. free (xs ! k)) [0..<length xs])"

definition l_service_link_device_add :: "nat \<Rightarrow> nat \<Rightarrow> bool cmd" where
  "l_service_link_device_add s d = bnd (service_get s) (\<lambda>sv. bnd (device_get d) (\<lambda>dv.
     case fill_slot (\<lambda>x. x = None) (Some (d_name dv)) (sv_device sv) of
       None \<Rightarrow> ret False
     | Some xs \<Rightarrow> andthen (service_update s (\<lambda>sv. sv\<lparr>sv_device := xs\<rparr>)) (ret True)))"

text \<open>All of a list of steps are tried, the result says whether all succeeded.\<close>

fun each_ok :: "('a \<Rightarrow> bool cmd) \<Rightarrow> 'a list \<Rightarrow> bool cmd" where
  "each_ok f [] = ret True"
| "each_ok f (x # xs) = bnd (f x) (\<lambda>b. bnd (each_ok f xs) (\<lambda>r. ret (b \<and> r)))"

definition device_list :: "nat option \<Rightarrow> nat list cmd" where
  "device_list p = asks (\<lambda>w. case p of None \<Rightarrow> [] | Some i \<Rightarrow> [i..<length (l_devices w)])"

text \<open>
  A word that names no device is tried as an Ethernet address; the condition
  \<open>!str_get_eth(...) || util_name2ether(...)\<close> returns 0 for a word that is one and for a
  word that is none.
\<close>

definition service_link_add :: "sys \<Rightarrow> nat \<Rightarrow> string \<Rightarrow> bool cmd" where
  "service_link_add S s device =
     (if device = ''*'' \<or> device = ''all'' then
        bnd (device_search_by_name S None) (\<lambda>p. bnd (device_list p) (\<lambda>ds.
          each_ok (l_service_link_device_add s) ds))
      else bnd (device_search_by_name S (Some device)) (\<lambda>p. case p of
          Some d \<Rightarrow> l_service_link_device_add s d
        | None \<Rightarrow> (case str_get_eth S (Some device) of
              None \<Rightarrow> ret False
            | Some eth \<Rightarrow> bnd (util_name2ether S device) (\<lambda>r. case r of
                  Some _ \<Rightarrow> ret False
                | None \<Rightarrow> bnd (device_search_by_eth S eth) (\<lambda>q. case q of
                      None \<Rightarrow> ret False
                    | Some d \<Rightarrow> l_service_link_device_add s d)))))"

definition AF_INET :: nat where [simp]: "AF_INET = 2"

definition l_service_udp_ip_add :: "nat \<Rightarrow> ipaddr \<Rightarrow> nat \<Rightarrow> bool cmd" where
  "l_service_udp_ip_add s ip port = bnd (service_get s) (\<lambda>sv.
     case fill_slot (\<lambda>a. sin_family a = 0) \<lparr>sin_family = AF_INET, sin_port = port, sin_addr = ip\<rparr> (sv_bindaddr sv) of
       None \<Rightarrow> ret False
     | Some xs \<Rightarrow> andthen (service_update s (\<lambda>sv. sv\<lparr>sv_bindaddr := xs\<rparr>)) (ret True))"

definition l_service_udp_device_add :: "nat \<Rightarrow> nat \<Rightarrow> nat \<Rightarrow> bool cmd" where
  "l_service_udp_device_add s d port = bnd (device_get d) (\<lambda>dv.
     each_ok (\<lambda>ip. l_service_udp_ip_add s ip port) (filter util_ip_valid (take DEVICE_IP_ADDRS_MAX (d_ip dv))))"

text \<open>
  The port of a binding: a number, or the name of a UDP service. \<open>htons\<close> and the field
  \<open>sin_port\<close> keep 16 bits.
\<close>

definition bind_port :: "sys \<Rightarrow> string \<Rightarrow> nat option" where
  "bind_port S buf_port = (case str_get_int buf_port of
      (v, True) \<Rightarrow> Some (nat (v mod 65536))
    | (_, False) \<Rightarrow> map_option (\<lambda>p. p mod 65536) (s_getservbyname S buf_port))"

definition udp_bind_host :: "sys \<Rightarrow> nat \<Rightarrow> string \<Rightarrow> nat \<Rightarrow> bool cmd" where
  "udp_bind_host S s buf_host port =
     (if buf_host = '''' then l_service_udp_ip_add s [0, 0, 0, 0] port
      else case str_get_ip S (Some buf_host) of
        Some ip \<Rightarrow> l_service_udp_ip_add s ip port
      | None \<Rightarrow> (case str_get_eth S (Some buf_host) of
          Some eth \<Rightarrow> bnd (device_search_by_eth S eth) (\<lambda>q. case q of
              None \<Rightarrow> ret False
            | Some d \<Rightarrow> l_service_udp_device_add s d port)
        | None \<Rightarrow> bnd (device_search_by_name S (Some buf_host)) (\<lambda>q. case q of
              Some d \<Rightarrow> l_service_udp_device_add s d port
            | None \<Rightarrow> bnd (util_name2ip S buf_host) (\<lambda>r. case r of
                  Some ip \<Rightarrow> l_service_udp_ip_add s ip port
                | None \<Rightarrow> ret False))))"

definition service_udp_add :: "sys \<Rightarrow> nat \<Rightarrow> string option \<Rightarrow> bool cmd" where
  "service_udp_add S s word = bnd (lift (str_get_hostport S word 512 512)) (\<lambda>hp. case hp of
      None \<Rightarrow> ret False
    | Some (buf_host, buf_port) \<Rightarrow> (case bind_port S buf_port of
          None \<Rightarrow> ret False
        | Some port \<Rightarrow> udp_bind_host S s buf_host port))"

subsection \<open>Starting the services\<close>

text \<open>
  The filter of a device grows by one alternative per link service bound to it, in an array
  of 4096 bytes. \<open>snprintf\<close> cuts at the array's end.
\<close>

definition filter_start :: "string \<Rightarrow> string \<Rightarrow> string" where
  "filter_start old eth = (if old = '''' then take 4095 (''(ether dst '' @ eth @ '')'') else old)"

definition filter_append :: "string \<Rightarrow> string \<Rightarrow> string" where
  "filter_append old expr = take 4095 (old @ '' or '' @ expr)"

definition link_filter :: "sys \<Rightarrow> service_t \<Rightarrow> string \<Rightarrow> unit cmd" where
  "link_filter S sv name = bnd (device_search_by_name S (Some name)) (\<lambda>p. case p of
      None \<Rightarrow> andthen (log_msg (LOG_ERR OR LOG_DEV) ''unknown device: %s'') (undef ''service_start: NULL device'')
    | Some d \<Rightarrow> bnd (device_get d) (\<lambda>dv.
        bnd (if d_filter dv \<noteq> '''' then ret ''''
             else deref ''str_eth: not terminated'' (read_buf (strncpy 32 (s_ether_ntoa S (d_eth dv))))) (\<lambda>eth.
        device_update d (\<lambda>dv. dv\<lparr>d_filter := filter_append (filter_start (d_filter dv) eth) (sv_filter sv)\<rparr>))))"

text \<open>The loops end at the first free slot; without one they read past the array.\<close>

fun start_link_devices :: "sys \<Rightarrow> service_t \<Rightarrow> string option list \<Rightarrow> unit cmd" where
  "start_link_devices S sv [] = undef ''service_start: read past device''"
| "start_link_devices S sv (None # _) = ret ()"
| "start_link_devices S sv (Some name # ds) = andthen (link_filter S sv name) (start_link_devices S sv ds)"

fun start_udp_from :: "sys \<Rightarrow> nat \<Rightarrow> nat list \<Rightarrow> unit cmd" where
  "start_udp_from S s [] = undef ''service_start: read past bindaddr''"
| "start_udp_from S s (k # ks) = bnd (service_get s) (\<lambda>sv. let a = sv_bindaddr sv ! k in
     if sin_family a = 0 then ret ()
     else let b = (if sin_port a = 0 then a\<lparr>sin_port := sv_defport sv\<rparr> else a) in
       andthen (service_update s (\<lambda>sv. sv\<lparr>sv_bindaddr := (sv_bindaddr sv)[k := b]\<rparr>))
       (bnd (listener_new_udp S (Some b) None (sv_service sv) (Some (sv_name sv))) (\<lambda>l.
        andthen (listener_add l) (start_udp_from S s ks))))"

definition l_service_start_udp :: "sys \<Rightarrow> nat \<Rightarrow> unit cmd" where
  "l_service_start_udp S s = start_udp_from S s [0..<SERVICE_BIND_MAX]"

fun start_rpc_from :: "sys \<Rightarrow> service_t \<Rightarrow> sockaddr_in list \<Rightarrow> unit cmd" where
  "start_rpc_from S sv [] = undef ''service_start: read past bindaddr''"
| "start_rpc_from S sv (a # as) =
     (if sin_family a = 0 then ret ()
      else bnd (listener_new_rpc_udp S (Some a) (sv_prognum sv) (sv_versnum sv) (Some (sv_name sv))) (\<lambda>l.
        andthen (listener_add l) (start_rpc_from S sv as)))"

definition l_service_start_rpc_udp :: "sys \<Rightarrow> nat \<Rightarrow> unit cmd" where
  "l_service_start_rpc_udp S s = bnd (service_get s) (\<lambda>sv. start_rpc_from S sv (sv_bindaddr sv))"

text \<open>\<open>strstr(s, p) != NULL\<close>.\<close>

definition strstr :: "string \<Rightarrow> string \<Rightarrow> bool" where
  "strstr s p \<longleftrightarrow> (\<exists>i \<in> set [0..<Suc (length s)]. take (length p) (drop i s) = p)"

definition l_service_start_link :: "sys \<Rightarrow> nat \<Rightarrow> unit cmd" where
  "l_service_start_link S d = bnd (device_get d) (\<lambda>dv.
     if strstr (d_filter dv) ''or'' then
       bnd (listener_new_link S (Some (d_name dv)) (Some (d_filter dv)) None (Some (d_name dv))) listener_add
     else ret ())"

definition start_service :: "sys \<Rightarrow> nat \<Rightarrow> unit cmd" where
  "start_service S s = bnd (service_get s) (\<lambda>sv.
     if sv_id sv AND LISTEN_LINK \<noteq> 0 then start_link_devices S sv (sv_device sv)
     else if sv_id sv AND LISTEN_UDP \<noteq> 0 then l_service_start_udp S s
     else if sv_id sv AND LISTEN_RPC_UDP \<noteq> 0 then l_service_start_rpc_udp S s
     else ret ())"

definition start_device :: "sys \<Rightarrow> nat \<Rightarrow> unit cmd" where
  "start_device S d = bnd (device_get d) (\<lambda>dv.
     if d_filter dv \<noteq> '''' then l_service_start_link S d else ret ())"

definition service_start :: "sys \<Rightarrow> unit cmd" where
  "service_start S =
     andthen (bnd (asks (\<lambda>w. [0..<length (l_services w)])) (each (start_service S)))
     (bnd (device_search_by_name S None) (\<lambda>p. bnd (device_list p) (each (start_device S))))"

subsection \<open>Facts: the binding tables\<close>

text \<open>
  What a table of slots stands for: the entries before the first free slot. A table is
  packed when no entry follows a free slot.
\<close>

definition used :: "('a \<Rightarrow> bool) \<Rightarrow> 'a list \<Rightarrow> 'a list" where
  "used free xs = takeWhile (\<lambda>x. \<not> free x) xs"

definition packed :: "('a \<Rightarrow> bool) \<Rightarrow> 'a list \<Rightarrow> bool" where
  "packed free xs \<longleftrightarrow> (\<forall>x \<in> set (dropWhile (\<lambda>x. \<not> free x) xs). free x)"

lemma used_simps [simp]:
  "used free [] = []"
  "used free (x # xs) = (if free x then [] else x # used free xs)"
  by (simp_all add: used_def)

lemma packed_simps [simp]:
  "packed free []"
  "packed free (x # xs) \<longleftrightarrow> (if free x then \<forall>y \<in> set xs. free y else packed free xs)"
  by (simp_all add: packed_def)

lemma find_map_Suc: "find P (map Suc is) = map_option Suc (find (\<lambda>i. P (Suc i)) is)"
  by (induction "is") auto

lemma fill_slot_Nil [simp]: "fill_slot free v [] = None"
  by (simp add: fill_slot_def)

lemma fill_slot_Cons [simp]:
  "fill_slot free v (x # xs) = (if free x then Some (v # xs) else map_option (\<lambda>ys. x # ys) (fill_slot free v xs))"
proof -
  have "[0..<length (x # xs)] = 0 # map Suc [0..<length xs]"
    by (simp add: upt_conv_Cons map_Suc_upt del: upt_Suc)
  then show ?thesis
    by (simp only: fill_slot_def find.simps find_map_Suc) (simp add: option.map_comp comp_def)
qed

lemma fill_slot_None: "fill_slot free v xs = None \<longleftrightarrow> length (used free xs) = length xs"
  by (induction xs) auto

lemma fill_slot_Some:
  assumes "packed free xs" "\<not> free v" "fill_slot free v xs = Some ys"
  shows "used free ys = used free xs @ [v] \<and> packed free ys \<and> length ys = length xs"
  using assms
proof (induction xs arbitrary: ys)
  case Nil
  then show ?case by simp
next
  case (Cons x xs)
  show ?case
  proof (cases "free x")
    case True
    with Cons.prems show ?thesis by (cases xs) auto
  next
    case False
    with Cons show ?thesis by auto
  qed
qed

lemma used_length_le: "length (used free xs) \<le> length xs"
  by (simp add: used_def length_takeWhile_le)

text \<open>The contract of a bounded table: an add appends while there is room, and only then.\<close>

lemma fill_slot_spec:
  assumes "packed free xs" "\<not> free v"
  shows "case fill_slot free v xs of
      None \<Rightarrow> length (used free xs) = length xs
    | Some ys \<Rightarrow> length (used free xs) < length xs \<and> used free ys = used free xs @ [v]
        \<and> packed free ys \<and> length ys = length xs"
  using fill_slot_None [of free v xs] fill_slot_Some [OF assms] used_length_le [of free xs]
  by (auto split: option.split simp: le_neq_implies_less)

text \<open>The devices and the addresses a service is bound to, and the shape of its two tables.\<close>

definition bound_devices :: "service_t \<Rightarrow> string list" where
  "bound_devices sv = map the (used (\<lambda>x. x = None) (sv_device sv))"

definition bound_addrs :: "service_t \<Rightarrow> sockaddr_in list" where
  "bound_addrs sv = used (\<lambda>a. sin_family a = 0) (sv_bindaddr sv)"

definition service_ok :: "service_t \<Rightarrow> bool" where
  "service_ok sv \<longleftrightarrow> length (sv_device sv) = SERVICE_BIND_MAX \<and> length (sv_bindaddr sv) = SERVICE_BIND_MAX
     \<and> packed (\<lambda>x. x = None) (sv_device sv) \<and> packed (\<lambda>a. sin_family a = 0) (sv_bindaddr sv)"

lemma service_new_ok: "service_ok service_new" "bound_devices service_new = []" "bound_addrs service_new = []"
  by (simp_all add: service_ok_def service_new_def bound_devices_def bound_addrs_def no_sockaddr_def
      numeral_eq_Suc)

lemma service_get_run [simp]: "s < length (l_services w) \<Longrightarrow> service_get s w = Ret (l_services w ! s, w)"
  by (simp add: service_get_def)

lemma device_get_run [simp]: "d < length (l_devices w) \<Longrightarrow> device_get d w = Ret (l_devices w ! d, w)"
  by (simp add: device_get_def)

text \<open>
  \<open>bind_step w s w' sv\<close>: \<open>w'\<close> is \<open>w\<close> with the service \<open>s\<close> replaced by \<open>sv\<close>.
\<close>

definition with_service :: "world \<Rightarrow> nat \<Rightarrow> service_t \<Rightarrow> world" where
  "with_service w s sv = w\<lparr>l_services := (l_services w)[s := sv]\<rparr>"

lemma with_service_simps [simp]:
  "l_devices (with_service w s sv) = l_devices w"
  "length (l_services (with_service w s sv)) = length (l_services w)"
  "s < length (l_services w) \<Longrightarrow> l_services (with_service w s sv) ! s = sv"
  "with_service (with_service w s sv) s sv' = with_service w s sv'"
  "with_service w s (l_services w ! s) = w"
  by (simp_all add: with_service_def)

lemma link_device_add_spec:
  assumes s: "s < length (l_services w)" and d: "d < length (l_devices w)" and ok: "service_ok (l_services w ! s)"
  shows "\<exists>sv. l_service_link_device_add s d w = Ret (length (bound_devices (l_services w ! s)) < SERVICE_BIND_MAX, with_service w s sv)
     \<and> service_ok sv \<and> bound_addrs sv = bound_addrs (l_services w ! s)
     \<and> bound_devices sv = take SERVICE_BIND_MAX (bound_devices (l_services w ! s) @ [d_name (l_devices w ! d)])"
proof -
  let ?sv = "l_services w ! s"
  let ?f = "fill_slot (\<lambda>x. x = None) (Some (d_name (l_devices w ! d))) (sv_device ?sv)"
  have p: "packed (\<lambda>x. x = None) (sv_device ?sv)" "length (sv_device ?sv) = SERVICE_BIND_MAX"
    using ok by (simp_all add: service_ok_def)
  note spec = fill_slot_spec [OF p(1), of "Some (d_name (l_devices w ! d))"]
  show ?thesis
  proof (cases ?f)
    case None
    then have "length (bound_devices ?sv) = SERVICE_BIND_MAX"
      using spec p(2) by (simp add: bound_devices_def)
    then show ?thesis
      using None s d ok by (intro exI [of _ ?sv]) (simp add: l_service_link_device_add_def bnd_run)
  next
    case (Some xs)
    with spec p(2) have "length (bound_devices ?sv) < SERVICE_BIND_MAX"
      "used (\<lambda>x. x = None) xs = used (\<lambda>x. x = None) (sv_device ?sv) @ [Some (d_name (l_devices w ! d))]"
      "packed (\<lambda>x. x = None) xs" "length xs = SERVICE_BIND_MAX"
      by (simp_all add: bound_devices_def)
    then show ?thesis
      using Some s d ok
      by (intro exI [of _ "?sv\<lparr>sv_device := xs\<rparr>"])
        (simp add: l_service_link_device_add_def bnd_run andthen_def service_update_def with_service_def
          service_ok_def bound_devices_def bound_addrs_def)
  qed
qed

lemma udp_ip_add_spec:
  assumes s: "s < length (l_services w)" and ok: "service_ok (l_services w ! s)"
  shows "\<exists>sv. l_service_udp_ip_add s ip port w = Ret (length (bound_addrs (l_services w ! s)) < SERVICE_BIND_MAX, with_service w s sv)
     \<and> service_ok sv \<and> bound_devices sv = bound_devices (l_services w ! s)
     \<and> bound_addrs sv = take SERVICE_BIND_MAX (bound_addrs (l_services w ! s) @
         [\<lparr>sin_family = AF_INET, sin_port = port, sin_addr = ip\<rparr>])"
proof -
  let ?sv = "l_services w ! s"
  let ?a = "\<lparr>sin_family = AF_INET, sin_port = port, sin_addr = ip\<rparr>"
  let ?f = "fill_slot (\<lambda>a. sin_family a = 0) ?a (sv_bindaddr ?sv)"
  have p: "packed (\<lambda>a. sin_family a = 0) (sv_bindaddr ?sv)" "length (sv_bindaddr ?sv) = SERVICE_BIND_MAX"
    using ok by (simp_all add: service_ok_def)
  note spec = fill_slot_spec [OF p(1), of ?a]
  show ?thesis
  proof (cases ?f)
    case None
    then have "length (bound_addrs ?sv) = SERVICE_BIND_MAX"
      using spec p(2) by (simp add: bound_addrs_def)
    then show ?thesis
      using None s ok by (intro exI [of _ ?sv]) (simp add: l_service_udp_ip_add_def bnd_run)
  next
    case (Some xs)
    with spec p(2) have "length (bound_addrs ?sv) < SERVICE_BIND_MAX"
      "used (\<lambda>a. sin_family a = 0) xs = used (\<lambda>a. sin_family a = 0) (sv_bindaddr ?sv) @ [?a]"
      "packed (\<lambda>a. sin_family a = 0) xs" "length xs = SERVICE_BIND_MAX"
      by (simp_all add: bound_addrs_def)
    then show ?thesis
      using Some s ok
      by (intro exI [of _ "?sv\<lparr>sv_bindaddr := xs\<rparr>"])
        (simp add: l_service_udp_ip_add_def bnd_run andthen_def service_update_def with_service_def
          service_ok_def bound_devices_def bound_addrs_def)
  qed
qed

text \<open>Binding to a list of devices, or to all of them.\<close>

lemma each_link_add_spec:
  assumes "s < length (l_services w)" "\<forall>d \<in> set ds. d < length (l_devices w)" "service_ok (l_services w ! s)"
  shows "\<exists>sv. each_ok (l_service_link_device_add s) ds w =
       Ret (length (bound_devices (l_services w ! s)) + length ds \<le> SERVICE_BIND_MAX \<or> ds = [], with_service w s sv)
     \<and> service_ok sv \<and> bound_addrs sv = bound_addrs (l_services w ! s)
     \<and> bound_devices sv = take SERVICE_BIND_MAX (bound_devices (l_services w ! s) @ map (\<lambda>d. d_name (l_devices w ! d)) ds)"
  using assms
proof (induction ds arbitrary: w)
  case Nil
  have "length (bound_devices (l_services w ! s)) \<le> SERVICE_BIND_MAX"
    using Nil.prems(3) used_length_le [of "\<lambda>x. x = None" "sv_device (l_services w ! s)"]
    by (simp add: bound_devices_def service_ok_def)
  then show ?case using Nil by (intro exI [of _ "l_services w ! s"]) simp
next
  case (Cons d ds)
  let ?sv = "l_services w ! s"
  let ?B = "bound_devices ?sv"
  obtain sv1 :: service_t where 1: "l_service_link_device_add s d w = Ret (length ?B < SERVICE_BIND_MAX, with_service w s sv1)"
    "service_ok sv1" "bound_addrs sv1 = bound_addrs ?sv"
    "bound_devices sv1 = take SERVICE_BIND_MAX (?B @ [d_name (l_devices w ! d)])"
    using link_device_add_spec [of s w d] Cons.prems by auto
  let ?w = "with_service w s sv1"
  obtain sv2 :: service_t where 2: "each_ok (l_service_link_device_add s) ds ?w =
       Ret (length (bound_devices sv1) + length ds \<le> SERVICE_BIND_MAX \<or> ds = [], with_service w s sv2)"
    "service_ok sv2" "bound_addrs sv2 = bound_addrs sv1"
    "bound_devices sv2 = take SERVICE_BIND_MAX (bound_devices sv1 @ map (\<lambda>d. d_name (l_devices w ! d)) ds)"
    using Cons.IH [of ?w] Cons.prems 1(2) by auto
  have t: "take n (take n (as @ [b]) @ bs) = take n (as @ b # bs)" for n and as bs :: "string list" and b
    by (cases "n - length as") (auto simp: min_def not_less_eq_eq)
  have "bound_devices sv2 = take SERVICE_BIND_MAX (?B @ map (\<lambda>d. d_name (l_devices w ! d)) (d # ds))"
    by (simp only: 2(4) 1(4) t list.map)
  moreover have "(length ?B < SERVICE_BIND_MAX \<and> (length (bound_devices sv1) + length ds \<le> SERVICE_BIND_MAX \<or> ds = [])) =
      (length ?B + length (d # ds) \<le> SERVICE_BIND_MAX \<or> d # ds = [])"
    by (auto simp: 1(4) min_def)
  ultimately show ?case
    by (intro exI [of _ sv2]) (simp only: each_ok.simps bnd_run 1(1,3) 2(1-3) outcome.case prod.case ret_run simp_thms)
qed

lemma service_link_add_all:
  assumes "s < length (l_services w)" "service_ok (l_services w ! s)" "device \<in> {''*'', ''all''}"
  shows "\<exists>sv b. service_link_add S s device w = Ret (b, with_service w s sv) \<and> service_ok sv
     \<and> (b \<longleftrightarrow> length (bound_devices (l_services w ! s)) + length (l_devices w) \<le> SERVICE_BIND_MAX \<or> l_devices w = [])
     \<and> bound_devices sv = take SERVICE_BIND_MAX (bound_devices (l_services w ! s) @ map d_name (l_devices w))"
proof -
  let ?ds = "[0..<length (l_devices w)]"
  have i: "device_index (\<lambda>_. True) w = (if l_devices w = [] then None else Some 0)"
    by (cases "l_devices w") (simp_all add: device_index_def upt_conv_Cons del: upt_Suc)
  have m: "map (\<lambda>d. d_name (l_devices w ! d)) ?ds = map d_name (l_devices w)"
    by (rule nth_equalityI) simp_all
  obtain sv :: service_t where sv: "each_ok (l_service_link_device_add s) ?ds w =
       Ret (length (bound_devices (l_services w ! s)) + length ?ds \<le> SERVICE_BIND_MAX \<or> ?ds = [], with_service w s sv)"
    "service_ok sv"
    "bound_devices sv = take SERVICE_BIND_MAX (bound_devices (l_services w ! s) @ map d_name (l_devices w))"
    using each_link_add_spec [of s w ?ds] assms(1,2) m by auto
  have "service_link_add S s device w = each_ok (l_service_link_device_add s) ?ds w"
    using assms(3) i by (auto simp: service_link_add_def device_search_by_name_def device_list_def)
  with sv show ?thesis
    by (intro exI [of _ sv] exI conjI) simp_all
qed

text \<open>A word that is not the name of a device is refused, whatever it is otherwise.\<close>

lemma service_link_add_unknown:
  assumes "l_devices w \<noteq> []" "\<forall>d \<in> set (l_devices w). d_name d \<noteq> device"
    and "device \<noteq> ''*''" "device \<noteq> ''all''"
  shows "service_link_add S s device w = Ret (False, w)"
proof -
  have "device_index (\<lambda>d. d_name d = device) w = None"
    using assms(2) by (simp add: device_index_None)
  then have "device_search_by_name S (Some device) w = Ret (None, w)"
    using assms(1) by (simp add: device_search_by_name_def device_ready_def bnd_run andthen_def)
  then show ?thesis
    using assms(3,4)
    by (cases "str_get_eth S (Some device)") (simp_all add: service_link_add_def bnd_run util_name2ether_def)
qed

text \<open>Ports.\<close>

lemma bind_port_number: "p < 65536 \<Longrightarrow> bind_port S (show_nat p) = Some p"
  using strtol_show_nat [of p] by (simp add: bind_port_def str_get_int_def to_int32_id)

lemma show_nat_plain: "c \<in> set (show_nat n) \<Longrightarrow> isdigit c"
  using show_nat_digits [of n] by blast

lemma show_nat_length: "n < 100000 \<Longrightarrow> length (show_nat n) \<le> 5"
proof -
  assume "n < 100000"
  moreover have "n < 10 \<Longrightarrow> length (show_nat n) \<le> 1" for n by (subst show_nat.simps) simp
  then have "n < 100 \<Longrightarrow> length (show_nat n) \<le> 2" for n by (subst show_nat.simps) simp
  then have "n < 1000 \<Longrightarrow> length (show_nat n) \<le> 3" for n by (subst show_nat.simps) (simp del: show_nat.simps)
  then have "n < 10000 \<Longrightarrow> length (show_nat n) \<le> 4" for n by (subst show_nat.simps) simp
  then have "n < 100000 \<Longrightarrow> length (show_nat n) \<le> 5" for n by (subst show_nat.simps) simp
  ultimately show ?thesis by blast
qed

lemma hostport_any:
  assumes "0 < p" "p < 65536"
  shows "str_get_hostport S (Some (''*:'' @ show_nat p)) 512 512 = Ret (Some ('''', show_nat p))"
proof -
  have sp: "CHR '' '' \<notin> set (''*:'' @ show_nat p)"
    using show_nat_plain [of "CHR '' ''" p] by (auto simp: isdigit_def code_def)
  have len: "length (show_nat p) \<le> 5" using assms(2) by (intro show_nat_length) simp
  obtain c cs where c: "show_nat p = c # cs" using show_nat_nonempty by (cases "show_nat p") auto
  then have "isdigit c" using show_nat_plain [of c p] by simp
  moreover have "strtol (show_nat p) = (int p, [])" using assms(2) by (intro strtol_show_nat) simp
  moreover have "strchr CHR '':'' (''*:'' @ show_nat p) = Some (''*'', show_nat p)"
    using strchr_split [of "CHR '':''" "''*''" "show_nat p"] by simp
  moreover have "show_nat p \<noteq> ''*''" using c calculation(1) by (auto simp: isdigit_def code_def)
  ultimately show ?thesis
    using sp len assms c by (simp add: str_get_hostport_def)
qed

lemma service_udp_add_any:
  assumes "0 < p" "p < 65536"
  shows "service_udp_add S s (Some (''*:'' @ show_nat p)) = l_service_udp_ip_add s [0, 0, 0, 0] p"
  using hostport_any [OF assms] bind_port_number [OF assms(2)]
  by (simp add: fun_eq_iff service_udp_add_def udp_bind_host_def bnd_run lift_def)

text \<open>
  A word that begins with a digit must be an address as a whole: an address followed by a
  port is refused, because \<open>inet_aton\<close> gets the port too.
\<close>

lemma hostport_address_refused:
  assumes "isdigit c" "CHR '' '' \<notin> set (c # cs)" "length (c # cs) < 256" "s_inet_aton S (c # cs) = None"
  shows "str_get_hostport S (Some (c # cs)) 512 512 = Ret None"
proof -
  have c: "c \<noteq> CHR '':''" "c \<noteq> CHR ''*''" using assms(1) by (auto simp: isdigit_def code_def)
  show ?thesis
  proof (cases "CHR '':'' \<in> set cs")
    case True
    let ?h = "c # takeWhile (\<lambda>x. x \<noteq> CHR '':'') cs" and ?p = "tl (dropWhile (\<lambda>x. x \<noteq> CHR '':'') cs)"
    have "length ?h < 512" "length ?p < 512"
      using assms(3) length_takeWhile_le [of "\<lambda>x. x \<noteq> CHR '':''" cs] length_dropWhile_le [of "\<lambda>x. x \<noteq> CHR '':''" cs]
      by auto
    moreover have "strchr CHR '':'' (c # cs) = Some (?h, ?p)"
      using c True by (simp add: strchr_def)
    ultimately show ?thesis
      using assms c by (simp add: str_get_hostport_def Let_def)
  next
    case False
    then have "strchr CHR '':'' (c # cs) = None" using c by (simp add: strchr_def)
    with assms show ?thesis by (simp add: str_get_hostport_def)
  qed
qed

lemma service_udp_add_address_refused:
  assumes "isdigit c" "CHR '' '' \<notin> set (c # cs)" "length (c # cs) < 256" "s_inet_aton S (c # cs) = None"
  shows "service_udp_add S s (Some (c # cs)) w = Ret (False, w)"
  using hostport_address_refused [OF assms] by (simp add: service_udp_add_def bnd_run lift_def)

subsection \<open>Facts: the filters\<close>

definition with_filter :: "world \<Rightarrow> nat \<Rightarrow> string \<Rightarrow> world" where
  "with_filter w d f = w\<lparr>l_devices := (l_devices w)[d := (l_devices w ! d)\<lparr>d_filter := f\<rparr>]\<rparr>"

lemma with_filter_simps [simp]:
  "length (l_devices (with_filter w d f)) = length (l_devices w)"
  "d < length (l_devices w) \<Longrightarrow> l_devices (with_filter w d f) ! d = (l_devices w ! d)\<lparr>d_filter := f\<rparr>"
  "d < length (l_devices w) \<Longrightarrow> with_filter (with_filter w d f) d g = with_filter w d g"
  "l_services (with_filter w d f) = l_services w"
  by (simp_all add: with_filter_def)

lemma with_filter_index: "device_index (\<lambda>x. d_name x = n) (with_filter w d f) = device_index (\<lambda>x. d_name x = n) w"
proof -
  have "d_name ((l_devices w)[d := (l_devices w ! d)\<lparr>d_filter := f\<rparr>] ! i) = d_name (l_devices w ! i)"
    if "i < length (l_devices w)" for i
    using that by (cases "i = d") simp_all
  then show ?thesis
    by (auto simp: device_index_def with_filter_def intro!: find_cong_on)
qed

lemma link_filter_run:
  assumes d: "device_index (\<lambda>x. d_name x = n) w = Some d"
    and e: "read_buf (strncpy 32 (s_ether_ntoa S (d_eth (l_devices w ! d)))) = Some eth"
  shows "link_filter S sv n w = Ret ((), with_filter w d
     (filter_append (filter_start (d_filter (l_devices w ! d)) eth) (sv_filter sv)))"
proof -
  have l: "d < length (l_devices w)" "l_devices w \<noteq> []" using device_index_Some [OF d] by auto
  then have "device_search_by_name S (Some n) w = Ret (Some d, w)"
    using d by (simp add: device_search_by_name_def device_ready_def bnd_run andthen_def)
  then show ?thesis
    using l e by (auto simp: link_filter_def bnd_run device_update_def with_filter_def filter_start_def)
qed

lemma filter_append_nonempty: "filter_append f e \<noteq> ''''"
  by (simp add: filter_append_def)

text \<open>
  One service after the other bound to one device: the filter is the address test followed
  by one alternative per service, as long as it fits.
\<close>

definition filter_text :: "string \<Rightarrow> string list \<Rightarrow> string" where
  "filter_text eth fs = ''(ether dst '' @ eth @ '')'' @ concat (map (\<lambda>f. '' or '' @ f) fs)"

lemma filter_text_snoc: "filter_text eth (fs @ [f]) = filter_text eth fs @ '' or '' @ f"
  by (simp add: filter_text_def)

lemma link_filters_run:
  assumes d: "device_index (\<lambda>x. d_name x = n) w = Some d"
    and e: "read_buf (strncpy 32 (s_ether_ntoa S (d_eth (l_devices w ! d)))) = Some eth"
    and empty: "d_filter (l_devices w ! d) = ''''"
    and fit: "length (filter_text eth (map sv_filter svs)) \<le> 4095" and ne: "svs \<noteq> []"
  shows "each (\<lambda>sv. link_filter S sv n) svs w = Ret ((), with_filter w d (filter_text eth (map sv_filter svs)))"
proof -
  have l: "d < length (l_devices w)" using device_index_Some [OF d] by simp
  have step: "each (\<lambda>sv. link_filter S sv n) svs (with_filter w d (filter_text eth fs)) =
      Ret ((), with_filter w d (filter_text eth (fs @ map sv_filter svs)))"
    if "length (filter_text eth (fs @ map sv_filter svs)) \<le> 4095" for fs svs
    using that
  proof (induction svs arbitrary: fs)
    case Nil
    then show ?case by simp
  next
    case (Cons sv svs)
    let ?w = "with_filter w d (filter_text eth fs)"
    have f: "filter_text eth fs \<noteq> ''''" by (simp add: filter_text_def)
    have i: "device_index (\<lambda>x. d_name x = n) ?w = Some d" using d by (simp add: with_filter_index)
    have "length (filter_text eth fs @ '' or '' @ sv_filter sv) \<le> 4095"
      using Cons.prems by (simp add: filter_text_def)
    then have "filter_append (filter_start (filter_text eth fs) eth) (sv_filter sv) = filter_text eth (fs @ [sv_filter sv])"
      using f by (simp only: filter_append_def filter_start_def filter_text_snoc if_False take_all)
    then have "link_filter S sv n ?w = Ret ((), with_filter w d (filter_text eth (fs @ [sv_filter sv])))"
      using link_filter_run [OF i, of S eth sv] e l by simp
    then show ?case
      using Cons.IH [of "fs @ [sv_filter sv]"] Cons.prems by (simp add: andthen_def bnd_run)
  qed
  obtain sv rest where sv: "svs = sv # rest" using ne by (cases svs) auto
  have "length (filter_text eth [sv_filter sv]) \<le> 4095" "length (filter_text eth []) \<le> 4095"
    using fit sv by (simp_all add: filter_text_def)
  then have "filter_append (filter_start '''' eth) (sv_filter sv) = filter_text eth [sv_filter sv]"
    by (simp add: filter_append_def filter_start_def filter_text_def)
  then have "link_filter S sv n w = Ret ((), with_filter w d (filter_text eth [sv_filter sv]))"
    using link_filter_run [OF d e, of sv] empty by simp
  then show ?thesis
    using step [where fs = "[sv_filter sv]" and svs = rest] fit sv by (simp add: andthen_def bnd_run)
qed

text \<open>A packed table with one entry runs one turn of the loop.\<close>

lemma start_link_one:
  assumes "service_ok sv" "bound_devices sv = [n]"
  shows "start_link_devices S sv (sv_device sv) = link_filter S sv n"
proof -
  obtain y z ys where "sv_device sv = y # z # ys"
    using assms(1) by (cases "sv_device sv"; cases "tl (sv_device sv)") (auto simp: service_ok_def)
  then have "sv_device sv = Some n # None # ys"
    using assms(2) by (auto simp: bound_devices_def split: if_splits)
  then show ?thesis by (simp add: andthen_def)
qed

subsection \<open>Facts: UDP services\<close>

text \<open>
  A UDP service that is bound to an address does not come up: its first listener has no
  name, and adding it to the list is undefined.
\<close>

lemma start_udp_undefined:
  assumes "working_sockets S" "s < length (l_services w)" "service_ok (l_services w ! s)"
    and "bound_addrs (l_services w ! s) \<noteq> []"
  shows "l_service_start_udp S s w = Undef ''listener_add: l->name[0] = 0 with NULL name''"
proof -
  let ?sv = "l_services w ! s"
  have n: "sv_bindaddr ?sv \<noteq> []" using assms(3) by (auto simp: service_ok_def)
  then have a: "sin_family (sv_bindaddr ?sv ! 0) \<noteq> 0"
    using assms(4) by (cases "sv_bindaddr ?sv") (auto simp: bound_addrs_def split: if_splits)
  let ?b = "if sin_port (sv_bindaddr ?sv ! 0) = 0 then (sv_bindaddr ?sv ! 0)\<lparr>sin_port := sv_defport ?sv\<rparr> else sv_bindaddr ?sv ! 0"
  let ?w = "w\<lparr>l_services := (l_services w)[s := ?sv\<lparr>sv_bindaddr := (sv_bindaddr ?sv)[0 := ?b]\<rparr>]\<rparr>"
  obtain l w1 where l: "listener_new_udp S (Some ?b) None (sv_service ?sv) (Some (sv_name ?sv)) ?w = Ret (Some l, w1)"
    using listener_new_udp_works [OF assms(1)] by blast
  obtain r :: listener_t where "lheap w1 l = Some r" "l_name r = None" "l_receive r \<noteq> None" "l_cleanup r \<noteq> None"
    using listener_new_udp_result [OF l] by auto
  then have u: "listener_add (Some l) w1 = Undef ''listener_add: l->name[0] = 0 with NULL name''"
    by (intro listener_add_unnamed)
  have "[0..<SERVICE_BIND_MAX] = 0 # [1..<SERVICE_BIND_MAX]" by (simp add: upt_conv_Cons)
  then show ?thesis
    using l u a assms(2)
    by (simp add: l_service_start_udp_def bnd_run andthen_def Let_def service_update_def del: upt_Suc SERVICE_BIND_MAX_def)
qed

end
