(* ===== verification/Conf.thy ===== *)
theory Conf
  imports Parse Service
begin

text \<open>
  \<open>src/conf.c\<close>: the command line and the evaluation of the configuration. Each evaluation
  function takes the entries it knows out of a list by marking them as processed, and an
  entry that is left over is an error. A function that stores through a pointer gives the
  value to store, or \<open>None\<close> when it leaves the destination alone. The loops that take
  entries until none is left have a bound \<open>n\<close> on their turns.
\<close>

subsection \<open>Taking entries\<close>

definition mark :: "addr \<Rightarrow> unit cmd" where
  "mark a = entry_set a (\<lambda>e. e\<lparr>pe_processed := True\<rparr>)"

definition i_assure_no_entry :: "addr option \<Rightarrow> string option \<Rightarrow> unit cmd" where
  "i_assure_no_entry root name = bnd (parse_entry_get root name) (\<lambda>r. case r of
      None \<Rightarrow> ret ()
    | Some a \<Rightarrow> (case name of
          None \<Rightarrow> bnd (entry_get a) (\<lambda>e. parse_error a (''unknown keyword: '' @ pe_name e))
        | Some n \<Rightarrow> parse_error a (n @ '' already set'')))"

definition i_get_entry_single_value :: "addr option \<Rightarrow> string option \<Rightarrow> bool \<Rightarrow> addr option cmd" where
  "i_get_entry_single_value root name single = (case name of
      Some n \<Rightarrow> bnd (parse_entry_get root (Some n)) (\<lambda>r. case r of
          None \<Rightarrow> ret None
        | Some a \<Rightarrow> andthen (mark a)
            (andthen (if single then i_assure_no_entry root (Some n) else ret ())
            (bnd (entry_get a) (\<lambda>e.
             if length (pe_values e) \<noteq> 1 then parse_error a ''expecting single value'' else ret (Some a)))))
    | None \<Rightarrow> bnd (deref ''NULL entry'' root) (\<lambda>a. bnd (entry_get a) (\<lambda>e.
        ret (if length (pe_values e) \<noteq> 1 then None else Some a))))"

text \<open>The entry and the value of an option, from which the typed functions start.\<close>

definition single_value :: "addr option \<Rightarrow> string option \<Rightarrow> bool \<Rightarrow> (addr \<times> string) option cmd" where
  "single_value root name single = bnd (i_get_entry_single_value root name single) (\<lambda>r. case r of
      None \<Rightarrow> ret None
    | Some a \<Rightarrow> bnd (entry_get a) (\<lambda>e. ret (Some (a, hd (pe_values e)))))"

text \<open>\<open>cur\<close> is the old value of the destination. The error is located at the list, not at the entry.\<close>

definition i_get_string :: "addr option \<Rightarrow> string option \<Rightarrow> string option \<Rightarrow> bool \<Rightarrow> string option cmd" where
  "i_get_string root name cur single = bnd (single_value root name single) (\<lambda>r. case r of
      None \<Rightarrow> ret None
    | Some (a, v) \<Rightarrow>
        if cur \<noteq> None
        then bnd (deref ''NULL entry'' root) (\<lambda>b. parse_error b ((case name of None \<Rightarrow> ''(null)'' | Some n \<Rightarrow> n) @ '' already set''))
        else ret (Some v))"

definition i_get_bool :: "addr option \<Rightarrow> string option \<Rightarrow> bool \<Rightarrow> bool option cmd" where
  "i_get_bool root name single = bnd (single_value root name single) (\<lambda>r. case r of
      None \<Rightarrow> ret None
    | Some (a, v) \<Rightarrow> (case str_get_bool (Some v) of
          None \<Rightarrow> parse_error a (''expecting truth value, got '' @ [CHR 0x22] @ v @ [CHR 0x22])
        | Some b \<Rightarrow> ret (Some b)))"

definition i_get_int :: "addr option \<Rightarrow> string option \<Rightarrow> bool \<Rightarrow> int option cmd" where
  "i_get_int root name single = bnd (single_value root name single) (\<lambda>r. case r of
      None \<Rightarrow> ret None
    | Some (a, v) \<Rightarrow> (case str_get_int v of
          (i, False) \<Rightarrow> parse_error a (''expecting integer value, got '' @ [CHR 0x22] @ v @ [CHR 0x22])
        | (i, True) \<Rightarrow> ret (Some i)))"

definition i_get_ether :: "sys \<Rightarrow> addr option \<Rightarrow> string option \<Rightarrow> bool \<Rightarrow> etheraddr option cmd" where
  "i_get_ether S root name single = bnd (single_value root name single) (\<lambda>r. case r of
      None \<Rightarrow> ret None
    | Some (a, v) \<Rightarrow> (case str_get_eth S (Some v) of
          Some x \<Rightarrow> ret (Some x)
        | None \<Rightarrow> bnd (asks c_resolve_ether) (\<lambda>resolve.
            if \<not> resolve
            then parse_error a (''expecting ethernet address (resolving disabled), got '' @ [CHR 0x22] @ v @ [CHR 0x22])
            else bnd (util_name2ether S v) (\<lambda>x. case x of
                Some x \<Rightarrow> ret (Some x)
              | None \<Rightarrow> parse_error a (''expecting ethernet address (unknown hostname '' @ [CHR 0x22] @ v @ [CHR 0x22, CHR '')''])))))"

definition i_get_ip :: "sys \<Rightarrow> addr option \<Rightarrow> string option \<Rightarrow> bool \<Rightarrow> ipaddr option cmd" where
  "i_get_ip S root name single = bnd (single_value root name single) (\<lambda>r. case r of
      None \<Rightarrow> ret None
    | Some (a, v) \<Rightarrow> (case str_get_ip S (Some v) of
          Some x \<Rightarrow> ret (Some x)
        | None \<Rightarrow> bnd (asks c_resolve_ip) (\<lambda>resolve.
            if \<not> resolve
            then parse_error a (''expecting ip address (resolving disabled), got '' @ [CHR 0x22] @ v @ [CHR 0x22])
            else bnd (util_name2ip S v) (\<lambda>x. case x of
                Some x \<Rightarrow> ret (Some x)
              | None \<Rightarrow> parse_error a (''expecting ip address (unknown hostname '' @ [CHR 0x22] @ v @ [CHR 0x22, CHR '')''])))))"

definition i_get_loglevel :: "addr option \<Rightarrow> string option \<Rightarrow> bool \<Rightarrow> mask option cmd" where
  "i_get_loglevel root name single = bnd (single_value root name single) (\<lambda>r. case r of
      None \<Rightarrow> ret None
    | Some (a, v) \<Rightarrow> (case str_get_loglevel (Some v) of
          Some l \<Rightarrow> ret (Some l)
        | None \<Rightarrow> parse_error a ''expecting log level (debug|info|warn|err)''))"

text \<open>The loops \<open>while ((e = parse_entry_get(root, name)) != NULL)\<close>, with a value they build up.\<close>

fun entry_loop :: "nat \<Rightarrow> addr option \<Rightarrow> string \<Rightarrow> (addr \<Rightarrow> 'b \<Rightarrow> 'b cmd) \<Rightarrow> 'b \<Rightarrow> 'b cmd" where
  "entry_loop 0 root name f x = lift Loop"
| "entry_loop (Suc n) root name f x = bnd (parse_entry_get root (Some name)) (\<lambda>r. case r of
      None \<Rightarrow> ret x
    | Some a \<Rightarrow> andthen (mark a) (bnd (f a x) (entry_loop n root name f)))"

fun service_values :: "addr \<Rightarrow> string list \<Rightarrow> mask \<Rightarrow> mask cmd" where
  "service_values a [] m = ret m"
| "service_values a (v # vs) m = bnd (asks (\<lambda>w. str_get_service (l_services w) (Some v) m)) (\<lambda>r. case r of
      None \<Rightarrow> parse_error a ''expecting { rarp | bootp | dhcp | mop | rmp | tftp | bootparam | all }''
    | Some m' \<Rightarrow> service_values a vs m')"

definition i_get_service :: "nat \<Rightarrow> addr option \<Rightarrow> string \<Rightarrow> mask \<Rightarrow> mask cmd" where
  "i_get_service n root name dst = entry_loop n root name (\<lambda>a m. bnd (entry_get a) (\<lambda>e. service_values a (pe_values e) m)) dst"

subsection \<open>The sections of the file\<close>

definition store :: "('a \<Rightarrow> world \<Rightarrow> world) \<Rightarrow> 'a option \<Rightarrow> unit cmd" where
  "store f r = (case r of None \<Rightarrow> ret () | Some x \<Rightarrow> modify (f x))"

definition i_eval_basic :: "addr option \<Rightarrow> unit cmd" where
  "i_eval_basic root =
     andthen (bnd (bnd (asks c_chroot) (\<lambda>c. i_get_string root (Some ''chroot'') c True)) (store (\<lambda>x w. w\<lparr>c_chroot := Some x\<rparr>)))
     (andthen (bnd (bnd (asks c_directory) (\<lambda>c. i_get_string root (Some ''directory'') c True)) (store (\<lambda>x w. w\<lparr>c_directory := Some x\<rparr>)))
     (andthen (bnd (i_get_bool root (Some ''resolve_ether'') True) (store (\<lambda>x w. w\<lparr>c_resolve_ether := x\<rparr>)))
     (andthen (bnd (i_get_bool root (Some ''resolve_ip'') True) (store (\<lambda>x w. w\<lparr>c_resolve_ip := x\<rparr>)))
     (andthen (bnd (i_get_int root (Some ''session_max'') True) (store (\<lambda>x w. w\<lparr>c_session_max := x\<rparr>)))
     (bnd (i_get_int root (Some ''session_timeout'') True) (store (\<lambda>x w. w\<lparr>c_session_timeout := x\<rparr>)))))))"

definition i_eval_log_msg :: "sys \<Rightarrow> addr option \<Rightarrow> unit cmd" where
  "i_eval_log_msg S root = bnd (parse_entry_get root (Some ''log'')) (\<lambda>r. case r of
      None \<Rightarrow> log_init S 0 None
    | Some a \<Rightarrow> andthen (mark a) (andthen (i_assure_no_entry root (Some ''log''))
        (bnd (entry_get a) (\<lambda>e_log.
         bnd (single_value (pe_sub e_log) (Some ''file'') True) (\<lambda>file.
         bnd (i_get_loglevel (pe_sub e_log) (Some ''level'') True) (\<lambda>level.
         andthen (i_assure_no_entry (pe_sub e_log) None)
           (log_init S (case level of None \<Rightarrow> 0 | Some l \<Rightarrow> int (unat l)) (map_option snd file))))))))"

text \<open>The places from \<open>i\<close> on of the array of aliases, as many as there are in the list.\<close>

fun get_aliases :: "addr option \<Rightarrow> nat list \<Rightarrow> file_t \<Rightarrow> file_t cmd" where
  "get_aliases root [] f = ret f"
| "get_aliases root (i # js) f = bnd (i_get_string root (Some ''alias'') (f_aliases f ! i) False) (\<lambda>r.
     get_aliases root js (case r of None \<Rightarrow> f | Some s \<Rightarrow> f\<lparr>f_aliases := (f_aliases f)[i := Some s]\<rparr>))"

definition no_more_aliases :: "addr option \<Rightarrow> unit cmd" where
  "no_more_aliases root = bnd (parse_entry_get root (Some ''alias'')) (\<lambda>r. case r of
      None \<Rightarrow> ret ()
    | Some a \<Rightarrow> parse_error a ''too many aliases'')"

text \<open>The file of one \<open>file\<close> entry.\<close>

definition eval_file :: "nat \<Rightarrow> addr \<Rightarrow> file_t cmd" where
  "eval_file n a =
     bnd (i_get_string (Some a) None (f_path host_file_new) True) (\<lambda>p.
     bnd (entry_get a) (\<lambda>e_file. let sub = pe_sub e_file in
     bnd (i_get_string sub (Some ''path'') p True) (\<lambda>p'.
     bnd (i_get_string sub (Some ''name'') (f_name host_file_new) True) (\<lambda>nm.
     bnd (i_get_service n sub ''service'' (f_service host_file_new)) (\<lambda>sv.
     bnd (get_aliases sub [0..<FILE_ALIASES_MAX] (host_file_new\<lparr>f_path := (if p = None then p' else p), f_name := nm, f_service := sv\<rparr>)) (\<lambda>f.
     andthen (no_more_aliases sub)
     (bnd (i_get_string sub (Some ''server'') (f_server f) True) (\<lambda>srv.
      andthen (i_assure_no_entry sub None) (ret (f\<lparr>f_server := srv\<rparr>))))))))))"

definition i_eval_host_files :: "nat \<Rightarrow> addr option \<Rightarrow> addr \<Rightarrow> unit cmd" where
  "i_eval_host_files n root h = entry_loop n root ''file'' (\<lambda>a _. bnd (eval_file n a) (\<lambda>f. host_file_add h (Some f))) ()"

definition host_set :: "addr \<Rightarrow> (host_t \<Rightarrow> host_t) \<Rightarrow> unit cmd" where
  "host_set a f = bnd (host_get a) (\<lambda>h. host_put a (f h))"

definition host_store :: "addr \<Rightarrow> ('a \<Rightarrow> host_t \<Rightarrow> host_t) \<Rightarrow> 'a option \<Rightarrow> unit cmd" where
  "host_store a f r = (case r of None \<Rightarrow> ret () | Some x \<Rightarrow> host_set a (f x))"

definition eval_host :: "sys \<Rightarrow> nat \<Rightarrow> addr \<Rightarrow> unit cmd" where
  "eval_host S n a = bnd malloc (\<lambda>h. andthen (host_put h host_new)
     (andthen (bnd (i_get_string (Some a) None None True) (host_store h (\<lambda>x t. t\<lparr>h_name := Some x\<rparr>)))
     (bnd (entry_get a) (\<lambda>e_host. let sub = pe_sub e_host in
      andthen (bnd (bnd (host_get h) (\<lambda>t. i_get_string sub (Some ''name'') (h_name t) True)) (host_store h (\<lambda>x t. t\<lparr>h_name := Some x\<rparr>)))
      (andthen (bnd (i_get_ether S sub (Some ''ether'') True) (host_store h (\<lambda>x t. t\<lparr>h_eth := x\<rparr>)))
      (andthen (bnd (i_get_ip S sub (Some ''ip'') True) (host_store h (\<lambda>x t. t\<lparr>h_ip := x\<rparr>)))
      (andthen (bnd (bnd (host_get h) (\<lambda>t. i_get_service n sub ''service'' (h_service t))) (\<lambda>m. host_set h (\<lambda>t. t\<lparr>h_service := m\<rparr>)))
      (andthen (i_eval_host_files n sub h)
      (andthen (i_assure_no_entry sub None)
      (host_add S (Some h)))))))))))"

definition i_eval_hosts :: "sys \<Rightarrow> nat \<Rightarrow> addr option \<Rightarrow> unit cmd" where
  "i_eval_hosts S n root = entry_loop n root ''host'' (\<lambda>a _. eval_host S n a) ()"

text \<open>
  The entries of a \<open>service\<close> block that are neither \<open>device\<close> nor \<open>bind\<close> are not looked at.
\<close>

fun bind_values :: "(string \<Rightarrow> bool cmd) \<Rightarrow> string \<Rightarrow> addr \<Rightarrow> string list \<Rightarrow> unit cmd" where
  "bind_values f msg a [] = ret ()"
| "bind_values f msg a (v # vs) = bnd (f v) (\<lambda>ok.
     andthen (if ok then ret () else parse_warn a (msg @ v)) (bind_values f msg a vs))"

definition bind_entries :: "nat \<Rightarrow> addr option \<Rightarrow> string \<Rightarrow> (string \<Rightarrow> bool cmd) \<Rightarrow> string \<Rightarrow> unit cmd" where
  "bind_entries n root name f msg = entry_loop n root name (\<lambda>a _. bnd (entry_get a) (\<lambda>e. bind_values f msg a (pe_values e))) ()"

text \<open>
  The text of the bindings, in \<open>buf[512]\<close>. Sixteen addresses do not fill it, so that
  \<open>str_sai\<close> is never given less room than \<open>*:*\<close> needs.
\<close>

definition devices_text :: "service_t \<Rightarrow> string" where
  "devices_text s = fold (\<lambda>d buf. take 511 (buf @ '' '' @ the d)) (takeWhile (\<lambda>d. d \<noteq> None) (sv_device s)) ''''"

definition addrs_text :: "sys \<Rightarrow> service_t \<Rightarrow> string" where
  "addrs_text S s = fold (\<lambda>a buf. take 511 (buf @ sai_text S (Some a))) (takeWhile (\<lambda>a. sin_family a \<noteq> 0) (sv_bindaddr s)) ''''"

definition service_log :: "sys \<Rightarrow> service_t \<Rightarrow> unit cmd" where
  "service_log S s =
     (if sv_id s AND LISTEN_LINK \<noteq> 0
        then log_msg (LOG_DEBUG OR LOG_CONF) (sv_name s @ '':'' @ devices_text s @ '' '' @ sv_filter s)
      else if sv_id s AND LISTEN_UDP \<noteq> 0 \<or> sv_id s AND LISTEN_RPC_UDP \<noteq> 0
        then log_msg (LOG_DEBUG OR LOG_CONF) (sv_name s @ '':'' @ addrs_text S s)
      else ret ())"

definition service_index :: "service_t list \<Rightarrow> mask \<Rightarrow> nat option" where
  "service_index ss i = find (\<lambda>k. sv_id (ss ! k) = i) [0..<length ss]"

definition eval_service :: "sys \<Rightarrow> nat \<Rightarrow> addr \<Rightarrow> unit cmd" where
  "eval_service S n a = bnd (entry_get a) (\<lambda>e.
     if length (pe_values e) \<noteq> 1 then parse_error a ''expecting single value''
     else bnd (asks (\<lambda>w. str_get_service (l_services w) (Some (hd (pe_values e))) 0)) (\<lambda>r. case r of
        None \<Rightarrow> parse_error a ''expecting service''
      | Some service \<Rightarrow> bnd (asks (\<lambda>w. service_index (l_services w) service)) (\<lambda>k. case k of
          None \<Rightarrow> parse_error a (''service not found: '' @ show_int (sint service))
        | Some k \<Rightarrow> bnd (service_get k) (\<lambda>s.
            andthen (if sv_id s AND LISTEN_LINK \<noteq> 0
                then bind_entries n (pe_sub e) ''device'' (service_link_add S k) ''invalid device: ''
              else if sv_id s AND LISTEN_UDP \<noteq> 0 \<or> sv_id s AND LISTEN_RPC_UDP \<noteq> 0
                then bind_entries n (pe_sub e) ''bind'' (\<lambda>v. service_udp_add S k (Some v)) ''invalid bind specification: ''
              else ret ())
            (andthen (if service = SERVICE_MOP then log_msg (LOG_WARN OR LOG_CONF) ''mop protocol not supported'' else ret ())
            (bnd (service_get k) (service_log S)))))))"

definition i_eval_services :: "sys \<Rightarrow> nat \<Rightarrow> addr option \<Rightarrow> unit cmd" where
  "i_eval_services S n root = entry_loop n root ''service'' (\<lambda>a _. eval_service S n a) ()"

subsection \<open>The file and the command line\<close>

definition conf_file :: "sys \<Rightarrow> nat \<Rightarrow> string option \<Rightarrow> unit cmd" where
  "conf_file S n filename = (case filename of
      None \<Rightarrow> ret ()
    | Some f \<Rightarrow> bnd (parse_file n S (Some f)) (\<lambda>root.
        andthen (i_eval_log_msg S (Some root))
        (andthen (i_eval_basic (Some root))
        (andthen (i_eval_services S n (Some root))
        (andthen (i_eval_hosts S n (Some root))
        (andthen (i_assure_no_entry (Some root) None)
         parse_cleanup))))))"

definition usage :: "'a cmd" where
  "usage = lift (Exit ''usage: bootd [-c config] [-l minlevel] [-f logfile]'')"

text \<open>
  The answers of \<open>getopt\<close>, an option letter and its argument, are the parameter \<open>opts\<close>; a
  letter that is not listed is answered like \<open>-h\<close>.
\<close>

fun conf_options :: "(char \<times> string) list \<Rightarrow> int \<Rightarrow> string option \<Rightarrow> (int \<times> string option) cmd" where
  "conf_options [] loglevel logfile = ret (loglevel, logfile)"
| "conf_options ((ch, optarg) # opts) loglevel logfile =
     (if ch = CHR ''c'' then andthen (modify (\<lambda>w. w\<lparr>c_file := Some optarg\<rparr>)) (conf_options opts loglevel logfile)
      else if ch = CHR ''l'' then (case str_get_loglevel (Some optarg) of
          None \<Rightarrow> usage
        | Some l \<Rightarrow> conf_options opts (int (unat l)) logfile)
      else if ch = CHR ''f'' then conf_options opts loglevel (Some optarg)
      else usage)"

definition conf_args :: "sys \<Rightarrow> (char \<times> string) list \<Rightarrow> unit cmd" where
  "conf_args S opts = bnd (conf_options opts (-1) None) (\<lambda>(loglevel, logfile).
     andthen (if loglevel \<noteq> -1 \<or> logfile \<noteq> None then log_init S loglevel logfile else ret ())
     (bnd (asks c_file) (\<lambda>c. if c \<noteq> None then log_msg (LOG_DEBUG OR LOG_CONF) ''conf_file: %s'' else ret ())))"

text \<open>
  Two functions nothing calls: a reader of a log level from the token stream, and a copy of
  \<open>host_file_add\<close> that is the same line for line.
\<close>

fun conf_get_loglevel :: "nat \<Rightarrow> sys \<Rightarrow> gen_tokenize_t \<Rightarrow> mask \<Rightarrow> (mask \<times> gen_tokenize_t) cmd" where
  "conf_get_loglevel 0 S tz loglevel = lift Loop"
| "conf_get_loglevel (Suc n) S tz loglevel = bnd (gen_tokenize_get S tz 32) (\<lambda>(w, tz').
     bnd (deref ''conf_get_loglevel: w not terminated'' (read_buf w)) (\<lambda>t.
     if t = '';'' then ret (loglevel, tz')
     else (case str_get_loglevel (Some t) of
         None \<Rightarrow> gen_tokenize_error tz' ''expecting { debug | info | warn | err }''
       | Some l \<Rightarrow> conf_get_loglevel n S tz' l)))"

definition conf_host_file_add :: "addr \<Rightarrow> file_t option \<Rightarrow> unit cmd" where
  "conf_host_file_add h f = host_file_add h f"

end
