(* ===== verification/Tftp.thy ===== *)
theory Tftp
  imports Host Listener_New
begin

text \<open>
  \<open>src/tftp.c\<close>. A packet is the list of the bytes of the memory it lies in (the receive
  buffer, or the reply under construction), with its length \<open>pktlen\<close> beside it as the code
  has it: the handler reads header fields without comparing them with \<open>pktlen\<close>.
\<close>

definition TFTPOP_RRQ :: nat where [simp]: "TFTPOP_RRQ = 1"
definition TFTPOP_WRQ :: nat where [simp]: "TFTPOP_WRQ = 2"
definition TFTPOP_DATA :: nat where [simp]: "TFTPOP_DATA = 3"
definition TFTPOP_ACK :: nat where [simp]: "TFTPOP_ACK = 4"
definition TFTPOP_ERROR :: nat where [simp]: "TFTPOP_ERROR = 5"

definition TFTP_E_UNDEF :: nat where [simp]: "TFTP_E_UNDEF = 0"
definition TFTP_E_NOENT :: nat where [simp]: "TFTP_E_NOENT = 1"
definition TFTP_E_ACCESS :: nat where [simp]: "TFTP_E_ACCESS = 2"
definition TFTP_E_BADSID :: nat where [simp]: "TFTP_E_BADSID = 5"

subsection \<open>Fields of a request\<close>

text \<open>
  The three functions copy into static arrays of 512 bytes without a bound; a copy that
  does not fit with its terminator is undefined.
\<close>

definition tftp_op :: "u8 list \<Rightarrow> nat outcome" where
  "tftp_op p = (case rd16 p 0 of None \<Rightarrow> Undef ''tftp: read past packet'' | Some v \<Rightarrow> Ret v)"

definition copy_field :: "u8 list \<Rightarrow> nat \<Rightarrow> int \<Rightarrow> string outcome" where
  "copy_field p offs len =
     (let n = nat len
      in if n \<ge> 512 then Undef ''tftp: write past buf''
         else if offs + n > length p then Undef ''tftp: read past packet''
         else Ret (cstr (slice offs n p)))"

definition tftp_get_filename :: "u8 list \<Rightarrow> int \<Rightarrow> string option outcome" where
  "tftp_get_filename p pktlen = obind (tftp_op p) (\<lambda>op.
     if op = TFTPOP_RRQ \<or> op = TFTPOP_WRQ
     then obind (copy_field p 2 (pktlen - 2)) (\<lambda>s. Ret (Some s))
     else Ret None)"

text \<open>
  The mode is what follows the first zero byte, up to the second. \<open>out\<close> is the part copied
  so far, \<open>None\<close> while \<open>j\<close> is -1.
\<close>

fun mode_scan :: "u8 list option \<Rightarrow> u8 list \<Rightarrow> u8 list option outcome" where
  "mode_scan out [] = (case out of
      Some bs \<Rightarrow> if length bs \<ge> 512 then Undef ''tftp: write past buf'' else Ret (Some bs)
    | None \<Rightarrow> Ret None)"
| "mode_scan out (b # rest) =
     (if b = 0 then (case out of
          None \<Rightarrow> mode_scan (Some []) rest
        | Some bs \<Rightarrow> if length bs \<ge> 512 then Undef ''tftp: write past buf'' else Ret (Some bs))
      else (case out of
          None \<Rightarrow> mode_scan None rest
        | Some bs \<Rightarrow> if length bs \<ge> 512 then Undef ''tftp: write past buf''
            else mode_scan (Some (bs @ [b])) rest))"

definition tftp_get_mode :: "u8 list \<Rightarrow> int \<Rightarrow> string option outcome" where
  "tftp_get_mode p pktlen = obind (tftp_op p) (\<lambda>op.
     if op = TFTPOP_RRQ \<or> op = TFTPOP_WRQ
     then (if 2 + nat (pktlen - 2) > length p then Undef ''tftp: read past packet''
           else obind (mode_scan None (slice 2 (nat (pktlen - 2)) p))
             (\<lambda>r. Ret (map_option (map char_at) r)))
     else Ret None)"

definition tftp_get_errmsg :: "u8 list \<Rightarrow> int \<Rightarrow> string option outcome" where
  "tftp_get_errmsg p pktlen = obind (tftp_op p) (\<lambda>op.
     if op = TFTPOP_ERROR
     then obind (copy_field p 4 (pktlen - 4)) (\<lambda>s. Ret (Some s))
     else Ret None)"

subsection \<open>Logging of packets\<close>

definition tftp_n :: "u8 list \<Rightarrow> nat outcome" where
  "tftp_n p = (case rd16 p 2 of None \<Rightarrow> Undef ''tftp: read past packet'' | Some v \<Rightarrow> Ret v)"

definition or_null :: "string option \<Rightarrow> string" where
  "or_null s = (case s of None \<Rightarrow> ''null'' | Some t \<Rightarrow> t)"

text \<open>The name of the operation, the text in its array of 128 bytes, and the level.\<close>

definition tftp_text :: "u8 list \<Rightarrow> int \<Rightarrow> (string \<times> string \<times> mask) outcome" where
  "tftp_text p pktlen = obind (tftp_op p) (\<lambda>op.
     if op = TFTPOP_RRQ \<or> op = TFTPOP_WRQ then
       obind (tftp_get_filename p pktlen) (\<lambda>f. obind (tftp_get_mode p pktlen) (\<lambda>m.
       Ret (if op = TFTPOP_RRQ then ''RRQ'' else ''WRQ'',
            take 127 (''filename '' @ or_null f @ '', mode '' @ or_null m), LOG_INFO)))
     else if op = TFTPOP_DATA then
       obind (tftp_n p) (\<lambda>n. Ret (''DATA'',
            take 127 (''block '' @ show_nat n @ '', datalen '' @ show_int (pktlen - 2)),
            if n \<noteq> 1 then LOG_DEBUG else LOG_INFO))
     else if op = TFTPOP_ACK then
       obind (tftp_n p) (\<lambda>n. Ret (''ACK'', take 127 (''block '' @ show_nat n),
            if n \<noteq> 1 then LOG_DEBUG else LOG_INFO))
     else if op = TFTPOP_ERROR then
       obind (tftp_get_errmsg p pktlen) (\<lambda>e. obind (tftp_n p) (\<lambda>n.
       Ret (''ERROR'', take 127 (or_null e @ '' ('' @ show_nat n @ '')''), LOG_INFO)))
     else Ret (''unknown'', take 127 (''datalen '' @ show_int pktlen), LOG_INFO))"

definition tftp_log_msgpacket :: "u8 list \<Rightarrow> int \<Rightarrow> unit cmd" where
  "tftp_log_msgpacket p pktlen = bnd (lift (tftp_text p pktlen)) (\<lambda>(s_op, text, level).
     log_msg (level OR LOG_BOOT) ''tftp %s (0x%x) from %s:%d to %s:%d %s'')"

subsection \<open>Errors\<close>

definition error_packet :: "nat \<Rightarrow> string \<Rightarrow> u8 list" where
  "error_packet err msg = put16 TFTPOP_ERROR @ put16 err @ bytes (strncpy 512 msg)"

definition tftp_send_error :: "sys \<Rightarrow> addr \<Rightarrow> sockaddr_in \<Rightarrow> nat \<Rightarrow> string \<Rightarrow> unit cmd" where
  "tftp_send_error S l from err msg =
     (let len = 5 + int (length msg) in
      andthen (tftp_log_msgpacket (error_packet err msg) len)
      (bnd (listener_send S l (Some from) (error_packet err msg) len) (\<lambda>r.
       if r \<noteq> len then log_msg (LOG_WARN OR LOG_BOOT) ''error sending tftp reply'' else ret ())))"

subsection \<open>The handler\<close>

definition data_header :: "nat \<Rightarrow> u8 list" where
  "data_header n = put16 TFTPOP_DATA @ put16 n"

text \<open>
  Reading a block into the reply and sending it: a failed read (\<open>size\<close> -1) sends an error
  packet and then goes on, with a length of 3.
\<close>

definition tftp_send_block ::
  "sys \<Rightarrow> addr \<Rightarrow> addr \<Rightarrow> sockaddr_in \<Rightarrow> int \<Rightarrow> nat \<Rightarrow> int \<Rightarrow> (int \<times> int \<times> u8 list) cmd" where
  "tftp_send_block S l out from fd n offs =
     bnd (util_read S fd 512 offs) (\<lambda>(size, d).
     andthen (if size < 0 then bnd (asks (\<lambda>w. s_errtext S (trace w))) (tftp_send_error S l from TFTP_E_UNDEF)
        else ret ())
     (bnd (asks (\<lambda>w. stack_buf S (trace w) 4096 (data_header n @ d))) (\<lambda>repl.
      bnd (listener_send S out (Some from) repl (4 + size)) (\<lambda>r. ret (4 + size, r, repl)))))"

text \<open>The read request, from the new session to the end.\<close>

definition tftp_open_error :: "errno \<Rightarrow> nat" where
  "tftp_open_error e = (case e of
      ENOENT \<Rightarrow> TFTP_E_NOENT
    | EACCES \<Rightarrow> TFTP_E_ACCESS
    | EPERM \<Rightarrow> TFTP_E_ACCESS
    | _ \<Rightarrow> TFTP_E_UNDEF)"

definition tftp_rrq_send ::
  "sys \<Rightarrow> addr \<Rightarrow> addr option \<Rightarrow> sockaddr_in \<Rightarrow> addr \<Rightarrow> int \<Rightarrow> unit cmd" where
  "tftp_rrq_send S l nl from a fd =
     andthen (session_set a (set_fd0 fd))
     (andthen (log_msg (LOG_INFO OR LOG_BOOT) ''sending file %s'')
     (andthen (session_set a (\<lambda>s. s\<lparr>s_sid := int (sin_port from), s_l := nl\<rparr>))
     (case nl of
        None \<Rightarrow> bnd (asks (\<lambda>w. s_errtext S (trace w))) (tftp_send_error S l from TFTP_E_UNDEF)
      | Some n \<Rightarrow> bnd (tftp_send_block S l n from fd 1 0) (\<lambda>(npktlen, sent, repl).
          if sent \<noteq> npktlen then log_msg (LOG_WARN OR LOG_BOOT) ''error sending tftp reply''
          else tftp_log_msgpacket repl npktlen))))"

definition tftp_rrq_serve ::
  "sys \<Rightarrow> addr \<Rightarrow> addr option \<Rightarrow> sockaddr_in \<Rightarrow> addr \<Rightarrow> file_t \<Rightarrow> unit cmd" where
  "tftp_rrq_serve S l nl from a f =
     bnd (host_session_add S a SERVICE_TFTP (int (sin_port from))) (\<lambda>ok.
     if \<not> ok then tftp_send_error S l from TFTP_E_UNDEF ''server busy''
     else bnd (open_rdonly S (f_path f)) (\<lambda>r. case r of
         Inl e \<Rightarrow>
           andthen (log_msg (LOG_WARN OR LOG_BOOT) ''open(%s, O_RDONLY): %s'')
           (andthen (session_set a (set_fd0 0))
           (bnd (asks (\<lambda>w. s_errtext S (trace w))) (tftp_send_error S l from (tftp_open_error e))))
       | Inr fd \<Rightarrow> tftp_rrq_send S l nl from a fd))"

text \<open>A request for a configured file: the old session goes, a listener for the transfer is made.\<close>

definition tftp_rrq_file ::
  "sys \<Rightarrow> addr \<Rightarrow> sockaddr_in \<Rightarrow> sockaddr_in \<Rightarrow> addr \<Rightarrow> file_t \<Rightarrow> unit cmd" where
  "tftp_rrq_file S l from dst a f =
     andthen (host_session_delete (Some a) ''new request'')
     (bnd (host_get a) (\<lambda>h.
      bnd (listener_new_udp S (Some (dst\<lparr>sin_port := 0\<rparr>)) (Some from) (Some Tftp_handler)
             (Some (take 127 (''tftp data '' @ or_null (h_name h))))) (\<lambda>nl.
      andthen (listener_add nl) (tftp_rrq_serve S l nl from a f))))"

definition tftp_rrq :: "sys \<Rightarrow> addr \<Rightarrow> sockaddr_in \<Rightarrow> sockaddr_in \<Rightarrow> u8 list \<Rightarrow> int \<Rightarrow> addr \<Rightarrow> unit cmd" where
  "tftp_rrq S l from dst p pktlen a =
     bnd (lift (tftp_get_filename p pktlen)) (\<lambda>name.
     bnd (util_name2file (Some a) SERVICE_TFTP name 0) (\<lambda>r. case r of
         None \<Rightarrow> tftp_send_error S l from TFTP_E_NOENT ''file not configured''
       | Some f \<Rightarrow> tftp_rrq_file S l from dst a f))"

definition tftp_ack :: "sys \<Rightarrow> addr \<Rightarrow> sockaddr_in \<Rightarrow> u8 list \<Rightarrow> addr \<Rightarrow> unit cmd" where
  "tftp_ack S l from p a =
     bnd (host_session_check S a SERVICE_TFTP (int (sin_port from))) (\<lambda>e.
     bnd (lift (tftp_n p)) (\<lambda>n.
     if e \<noteq> E_NOERROR then
       (if n = 1 then ret () else tftp_send_error S l from TFTP_E_BADSID ''no session'')
     else bnd (session_fd0 a) (\<lambda>fd.
       bnd (tftp_send_block S l l from fd (n + 1) (int n * 512)) (\<lambda>(npktlen, sent, repl).
       andthen (if sent \<noteq> npktlen then log_msg (LOG_WARN OR LOG_BOOT) ''error sending tftp reply'' else ret ())
         (tftp_log_msgpacket repl npktlen)))))"

definition tftp_switch ::
  "sys \<Rightarrow> addr \<Rightarrow> sockaddr_in \<Rightarrow> sockaddr_in \<Rightarrow> u8 list \<Rightarrow> int \<Rightarrow> addr \<Rightarrow> unit cmd" where
  "tftp_switch S l from dst p pktlen a = bnd (lift (tftp_op p)) (\<lambda>op.
     if op = TFTPOP_RRQ then tftp_rrq S l from dst p pktlen a
     else if op = TFTPOP_WRQ \<or> op = TFTPOP_DATA then
       tftp_send_error S l from TFTP_E_UNDEF ''writing files not supported''
     else if op = TFTPOP_ACK then tftp_ack S l from p a
     else if op = TFTPOP_ERROR then ret ()
     else log_msg (LOG_INFO OR LOG_BOOT)
       ''tftp request from host %s denied (unknown opcode %d)'')"

definition tftp_for_host ::
  "sys \<Rightarrow> addr \<Rightarrow> sockaddr_in \<Rightarrow> sockaddr_in \<Rightarrow> u8 list \<Rightarrow> int \<Rightarrow> addr \<Rightarrow> unit cmd" where
  "tftp_for_host S l from dst p pktlen a = bnd (host_get a) (\<lambda>h.
     if h_service h AND SERVICE_TFTP = 0 then
       andthen (log_msg (LOG_INFO OR LOG_BOOT)
           ''tftp request from host %s denied (tftp not allowed for this host)'')
         (tftp_send_error S l from TFTP_E_ACCESS ''access denied, tftp not allowed for this host'')
     else tftp_switch S l from dst p pktlen a)"

definition tftp_handler ::
  "sys \<Rightarrow> addr \<Rightarrow> sockaddr_in \<Rightarrow> sockaddr_in \<Rightarrow> u8 list \<Rightarrow> int \<Rightarrow> unit cmd" where
  "tftp_handler S l from dst p pktlen =
     andthen (tftp_log_msgpacket p pktlen)
     (bnd (util_ip2host (sin_addr from)) (\<lambda>hp. case hp of
        None \<Rightarrow>
          andthen (log_msg (LOG_INFO OR LOG_BOOT) ''tftp request from host %s denied (client unknown)'')
            (tftp_send_error S l from TFTP_E_ACCESS ''access denied, client unknown'')
      | Some a \<Rightarrow> tftp_for_host S l from dst p pktlen a))"

subsection \<open>Facts: packets\<close>

text \<open>The packet of a read request for a file, as a client builds it.\<close>

definition rrq_packet :: "string \<Rightarrow> string \<Rightarrow> u8 list" where
  "rrq_packet f m = put16 TFTPOP_RRQ @ bytes f @ [0] @ bytes m @ [0]"

lemma rd16_at: "rd16 (p @ put16 v @ q) (length p) = Some (v mod 65536)"
  by (simp add: rd16_def nth_append put16_def be16_put16)

lemma tftp_op_put16 [simp]: "tftp_op (put16 v @ q) = Ret (v mod 65536)"
  by (simp add: tftp_op_def rd16_put16)

lemma tftp_n_put16 [simp]: "tftp_n (put16 u @ put16 v @ q) = Ret (v mod 65536)"
  using rd16_at [of "put16 u" v q] by (simp add: tftp_n_def)

lemma slice_append: "length p = i \<Longrightarrow> slice i n (p @ q) = take n q"
  by (simp add: slice_def)

lemma bytes_append: "bytes (a @ b) = bytes a @ bytes b"
  by (simp add: bytes_def)

lemma bytes_nonzero: "nul_free s \<Longrightarrow> b \<in> set (bytes s) \<Longrightarrow> b \<noteq> 0"
  by (auto simp: bytes_def nul_free_def byte_of_eq_0)

lemma rrq_filename:
  assumes "nul_free f" "length f + length m + 2 < 512"
  shows "tftp_get_filename (rrq_packet f m @ rest) (int (length (rrq_packet f m))) = Ret (Some f)"
proof -
  let ?p = "rrq_packet f m" and ?n = "length f + length m + 2"
  have n: "nat (int (length ?p) - 2) = ?n" by (simp add: rrq_packet_def)
  have "slice 2 ?n (?p @ rest) = bytes f @ 0 # (bytes m @ [0])"
    by (simp add: rrq_packet_def slice_append)
  then have "cstr (slice 2 ?n (?p @ rest)) = f"
    by (simp add: cstr_bytes assms(1))
  moreover have "length (?p @ rest) \<ge> 2 + ?n" by (simp add: rrq_packet_def)
  ultimately have "copy_field (?p @ rest) 2 (int (length ?p) - 2) = Ret f"
    using assms(2) unfolding copy_field_def n Let_def by simp
  then show ?thesis by (simp add: tftp_get_filename_def) (simp add: rrq_packet_def)
qed

lemma mode_scan_skip: "0 \<notin> set bs \<Longrightarrow> mode_scan None (bs @ 0 # rest) = mode_scan (Some []) rest"
  by (induction bs) auto

lemma mode_scan_copy:
  "0 \<notin> set bs \<Longrightarrow> length out + length bs < 512 \<Longrightarrow> mode_scan (Some out) (bs @ 0 # rest) = Ret (Some (out @ bs))"
  by (induction bs arbitrary: out) auto

lemma rrq_mode:
  assumes "nul_free f" "nul_free m" "length m < 512"
  shows "tftp_get_mode (rrq_packet f m @ rest) (int (length (rrq_packet f m))) = Ret (Some m)"
proof -
  let ?p = "rrq_packet f m" and ?n = "length f + length m + 2"
  have n: "nat (int (length ?p) - 2) = ?n" by (simp add: rrq_packet_def)
  have "slice 2 ?n (?p @ rest) = bytes f @ 0 # (bytes m @ 0 # [])"
    by (simp add: rrq_packet_def slice_append)
  moreover have "mode_scan None (bytes f @ 0 # (bytes m @ 0 # [])) = Ret (Some (bytes m))"
    using mode_scan_skip [of "bytes f"] mode_scan_copy [of "bytes m" "[]" "[]"] assms bytes_nonzero
    by fastforce
  moreover have "map char_at (bytes m) = m" by (simp add: bytes_def map_idI)
  ultimately show ?thesis
    unfolding tftp_get_mode_def n by (simp add: rrq_packet_def)
qed

text \<open>A request of 514 bytes or more is undefined, whoever sent it.\<close>

lemma rrq_overflow:
  assumes "tftp_op p = Ret op" "op = TFTPOP_RRQ \<or> op = TFTPOP_WRQ" "pktlen \<ge> 514"
  shows "tftp_text p pktlen = Undef ''tftp: write past buf''"
  using assms by (auto simp: tftp_text_def tftp_get_filename_def copy_field_def Let_def)

lemma tftp_text_level: "tftp_text p pktlen = Ret (op, text, level) \<Longrightarrow> level = LOG_INFO \<or> level = LOG_DEBUG"
  by (auto simp: tftp_text_def obind_Ret_iff split: if_splits)

lemma log_msgpacket_run:
  assumes "tftp_text p pktlen = Ret (op, text, level)"
  shows "runs (tftp_log_msgpacket p pktlen) w () w"
  using assms tftp_text_level [OF assms]
  by (auto simp: tftp_log_msgpacket_def bnd_run runs_def log_msg_run)

lemma log_msgpacket_Ret: "tftp_log_msgpacket p pktlen w = Ret (x, w') \<Longrightarrow> \<exists>ls. w' = w\<lparr>logs := ls\<rparr>"
  by (auto simp: tftp_log_msgpacket_def bnd_Ret_iff lift_def dest: log_msg_Ret
      split: outcome.splits prod.splits)

lemma data_text: "\<exists>t lv. tftp_text (data_header n @ q) len = Ret (''DATA'', t, lv)"
  by (simp add: tftp_text_def data_header_def)

lemma error_text:
  assumes "length msg < 511"
  shows "\<exists>t lv. tftp_text (error_packet err msg) (5 + int (length msg)) = Ret (''ERROR'', t, lv)"
proof -
  have "copy_field (error_packet err msg) 4 (1 + int (length msg)) \<noteq> Undef e"
    "copy_field (error_packet err msg) 4 (1 + int (length msg)) \<noteq> Exit e"
    "copy_field (error_packet err msg) 4 (1 + int (length msg)) \<noteq> Loop" for e
    using assms by (auto simp: copy_field_def error_packet_def Let_def nat_add_distrib)
  then obtain s where "copy_field (error_packet err msg) 4 (1 + int (length msg)) = Ret s"
    by (cases "copy_field (error_packet err msg) 4 (1 + int (length msg))") auto
  moreover have "tftp_op (error_packet err msg) = Ret 5" "tftp_n (error_packet err msg) = Ret (err mod 65536)"
    by (simp_all add: error_packet_def)
  ultimately show ?thesis by (simp add: tftp_text_def tftp_get_errmsg_def)
qed

lemma error_bytes:
  assumes "length msg < 512"
  shows "take (5 + length msg) (error_packet err msg) = put16 TFTPOP_ERROR @ put16 err @ bytes msg @ [0]"
proof -
  have "strncpy 512 msg = msg @ char_of (0 :: nat) # replicate (511 - length msg) (char_of (0 :: nat))"
    using assms by (auto simp: strncpy_def replicate_Suc [symmetric] Suc_diff_Suc simp del: replicate_Suc)
  then show ?thesis
    using assms by (simp add: error_packet_def bytes_append) (simp add: bytes_def byte_of_def code_def)
qed

subsection \<open>Facts: replies\<close>

definition sent_udp :: "listener_t \<Rightarrow> sockaddr_in \<Rightarrow> u8 list \<Rightarrow> world \<Rightarrow> world" where
  "sent_udp r to_addr bs w = w\<lparr>trace := trace w @ [SendUdp (l_fd r) (udp_destination r (Some to_addr)) bs]\<rparr>"

lemma sent_udp_logs [simp]: "sent_udp r dst bs (w\<lparr>logs := ls\<rparr>) = (sent_udp r dst bs w)\<lparr>logs := ls\<rparr>"
  by (simp add: sent_udp_def)

lemma sent_udp_fields [simp]:
  "lheap (sent_udp r dst bs w) = lheap w" "sheap (sent_udp r dst bs w) = sheap w"
  "hheap (sent_udp r dst bs w) = hheap w" "g_hosts (sent_udp r dst bs w) = g_hosts w"
  "fdtab (sent_udp r dst bs w) = fdtab w"
  "trace (sent_udp r dst bs w) = trace w @ [SendUdp (l_fd r) (udp_destination r (Some dst)) bs]"
  by (simp_all add: sent_udp_def)

lemma udp_send_runs:
  assumes "lheap w l = Some r" "l_send r = Some Udp_send" "0 \<le> n" "nat n \<le> length pk"
  shows "runs (listener_send S l (Some dst) pk n) w (s_sent S (trace w) (take (nat n) pk))
     (sent_udp r dst (take (nat n) pk) w)"
  using assms
  by (simp add: listener_send_def i_listener_udp_send_def bnd_run andthen_def runs_def log_msg_run sent_udp_def)

definition error_reply :: "nat \<Rightarrow> string \<Rightarrow> u8 list" where
  "error_reply err msg = put16 TFTPOP_ERROR @ put16 err @ bytes msg @ [0]"

lemma send_error_runs:
  assumes "lheap w l = Some r" "l_send r = Some Udp_send" "length msg < 511"
  shows "runs (tftp_send_error S l dst err msg) w () (sent_udp r dst (error_reply err msg) w)"
proof -
  let ?len = "5 + int (length msg)"
  obtain t lv where "tftp_text (error_packet err msg) ?len = Ret (''ERROR'', t, lv)"
    using error_text [OF assms(3)] by blast
  then have "runs (tftp_log_msgpacket (error_packet err msg) ?len) w () w"
    by (rule log_msgpacket_run)
  moreover have "runs (listener_send S l (Some dst) (error_packet err msg) ?len) (w\<lparr>logs := ls\<rparr>)
      (s_sent S (trace w) (error_reply err msg)) (sent_udp r dst (error_reply err msg) w)" for ls
  proof -
    have n: "nat ?len = 5 + length msg" "nat ?len \<le> length (error_packet err msg)"
      using assms(3) by (simp_all add: error_packet_def nat_add_distrib)
    have "take (nat ?len) (error_packet err msg) = error_reply err msg"
      using error_bytes [of msg err] assms(3) unfolding n error_reply_def by simp
    then show ?thesis
      using udp_send_runs [of "w\<lparr>logs := ls\<rparr>" l r ?len "error_packet err msg" S dst] assms(1,2) n(2)
      by simp
  qed
  moreover have "runs (if x \<noteq> ?len then log_msg (LOG_WARN OR LOG_BOOT) ''error sending tftp reply'' else ret ())
      (v\<lparr>logs := ls\<rparr>) () v" for x v ls
    by (simp add: runs_def log_msg_run)
  ultimately show ?thesis
    unfolding tftp_send_error_def Let_def by (blast intro: runs_andthen runs_bnd)
qed

text \<open>The client of an address, and the handler up to the point where it is known.\<close>

definition client :: "world \<Rightarrow> addr list \<Rightarrow> sockaddr_in \<Rightarrow> addr option" where
  "client w xs from = find (\<lambda>a. h_ip (host_at w a) = sin_addr from) xs"

lemma client_mem: "client w xs from = Some a \<Longrightarrow> a \<in> set xs \<and> h_ip (host_at w a) = sin_addr from"
  by (auto simp: client_def find_Some_iff)

lemma handler_runs:
  assumes h: "hosts w xs" and t: "tftp_text p pktlen = Ret t"
    and k: "\<And>ls. runs (case client w xs from of
        None \<Rightarrow>
          andthen (log_msg (LOG_INFO OR LOG_BOOT) ''tftp request from host %s denied (client unknown)'')
            (tftp_send_error S l from TFTP_E_ACCESS ''access denied, client unknown'')
      | Some a \<Rightarrow> tftp_for_host S l from dst p pktlen a) (w\<lparr>logs := ls\<rparr>) () w2"
  shows "runs (tftp_handler S l from dst p pktlen) w () w2"
  unfolding tftp_handler_def
proof (rule runs_andthen)
  show "runs (tftp_log_msgpacket p pktlen) w () w"
    using log_msgpacket_run t by (cases t) blast
  fix ls
  have hl: "hosts (w\<lparr>logs := ls\<rparr>) xs" using h by (simp add: hosts_def)
  have "find (\<lambda>a. sin_addr from = h_ip (host_at (w\<lparr>logs := ls\<rparr>) a)) xs = client w xs from"
    unfolding client_def by (auto simp: host_at_def eq_commute intro: find_cong_on)
  with util_ip2host_run [OF hl]
  have ip: "util_ip2host (sin_addr from) (w\<lparr>logs := ls\<rparr>) = Ret (client w xs from, w\<lparr>logs := ls\<rparr>)" by simp
  show "runs (bnd (util_ip2host (sin_addr from)) (\<lambda>hp. case hp of
        None \<Rightarrow>
          andthen (log_msg (LOG_INFO OR LOG_BOOT) ''tftp request from host %s denied (client unknown)'')
            (tftp_send_error S l from TFTP_E_ACCESS ''access denied, client unknown'')
      | Some a \<Rightarrow> tftp_for_host S l from dst p pktlen a)) (w\<lparr>logs := ls\<rparr>) () w2"
    by (rule runs_bnd_Ret, rule ip, rule k)
qed

text \<open>The switch, for a client that may use TFTP.\<close>

lemma switch_runs:
  assumes h: "hosts w xs" "client w xs from = Some a" "h_service (host_at w a) AND SERVICE_TFTP \<noteq> 0"
    and t: "tftp_text p pktlen = Ret t"
    and k: "\<And>ls. runs (tftp_switch S l from dst p pktlen a) (w\<lparr>logs := ls\<rparr>) () w2"
  shows "runs (tftp_handler S l from dst p pktlen) w () w2"
proof (rule handler_runs [OF h(1) t], unfold h(2) option.case)
  fix ls
  have "host_get a (w\<lparr>logs := ls\<rparr>) = Ret (host_at w a, w\<lparr>logs := ls\<rparr>)"
    using hosts_alloc [OF h(1)] client_mem [OF h(2)] by simp
  then show "runs (tftp_for_host S l from dst p pktlen a) (w\<lparr>logs := ls\<rparr>) () w2"
    using h(3) k unfolding tftp_for_host_def by (auto intro: runs_bnd_Ret)
qed

text \<open>
  An unknown client, or one without the TFTP service, gets one error packet; nothing else
  happens, whatever the packet asks for.
\<close>

lemma handler_denied:
  assumes h: "hosts w xs"
    and l: "lheap w l = Some r" "l_send r = Some Udp_send"
    and t: "tftp_text p pktlen = Ret t"
    and deny: "case client w xs from of
        None \<Rightarrow> msg = ''access denied, client unknown''
      | Some a \<Rightarrow> h_service (host_at w a) AND SERVICE_TFTP = 0
          \<and> msg = ''access denied, tftp not allowed for this host''"
  shows "runs (tftp_handler S l from dst p pktlen) w () (sent_udp r from (error_reply TFTP_E_ACCESS msg) w)"
proof (rule handler_runs [OF h t])
  fix ls
  have e: "runs (tftp_send_error S l from TFTP_E_ACCESS msg) (w\<lparr>logs := ls'\<rparr>) ()
      (sent_udp r from (error_reply TFTP_E_ACCESS msg) w)" for ls'
    using send_error_runs [of "w\<lparr>logs := ls'\<rparr>" l r msg S "from" TFTP_E_ACCESS] l deny
    by (auto split: option.splits)
  have d: "runs (andthen (log_msg (LOG_INFO OR LOG_BOOT) fmt) (tftp_send_error S l from TFTP_E_ACCESS msg))
      (w\<lparr>logs := ls\<rparr>) () (sent_udp r from (error_reply TFTP_E_ACCESS msg) w)" for fmt
    by (rule runs_andthen [OF runs_log_msg]) (use e in simp_all)
  show "runs (case client w xs from of
        None \<Rightarrow>
          andthen (log_msg (LOG_INFO OR LOG_BOOT) ''tftp request from host %s denied (client unknown)'')
            (tftp_send_error S l from TFTP_E_ACCESS ''access denied, client unknown'')
      | Some a \<Rightarrow> tftp_for_host S l from dst p pktlen a) (w\<lparr>logs := ls\<rparr>) ()
      (sent_udp r from (error_reply TFTP_E_ACCESS msg) w)"
  proof (cases "client w xs from")
    case None
    with deny d show ?thesis by simp
  next
    case (Some a)
    then have "host_get a (w\<lparr>logs := ls\<rparr>) = Ret (host_at w a, w\<lparr>logs := ls\<rparr>)"
      using hosts_alloc [OF h] client_mem by simp
    with Some deny d show ?thesis
      unfolding tftp_for_host_def by (auto intro!: runs_bnd_Ret)
  qed
qed

subsection \<open>Facts: blocks\<close>

definition block :: "u8 list \<Rightarrow> nat \<Rightarrow> u8 list" where
  "block c n = take 512 (drop (512 * n) c)"

lemma length_block: "length (block c n) \<le> 512"
  by (simp add: block_def)

text \<open>The blocks of a file put together are the file, the last one is shorter than 512.\<close>

lemma concat_blocks: "concat (map (block c) [0..<k]) = take (512 * k) c"
proof (induction k)
  case 0
  then show ?case by simp
next
  case (Suc k)
  then show ?case by (simp add: block_def take_add [symmetric] add.commute)
qed

lemma blocks_complete: "length c \<le> 512 * k \<Longrightarrow> concat (map (block c) [0..<k]) = c"
  by (simp add: concat_blocks)

lemma send_block_runs:
  assumes l: "lheap w out = Some r" "l_send r = Some Udp_send"
    and fd: "fdtab w fd = Some c" "\<not> s_lseek_fails S (trace w) fd" "\<not> s_read_fails S (trace w) fd"
    and n: "512 * n < 2 ^ 31"
  shows "\<exists>sz res repl. runs (tftp_send_block S l out from fd k (int n * 512)) w (sz, res, repl)
     (sent_udp r from (data_header k @ block c n) (w\<lparr>trace := trace w @ [ReadAt fd (int n * 512) 512]\<rparr>))
     \<and> sz = 4 + int (length (block c n)) \<and> (\<exists>q. repl = data_header k @ q)"
proof -
  have i32: "to_int32 (int n * 512) = int n * 512" by (rule to_int32_id) (use n in auto)
  have d: "take 512 (drop (nat (int n * 512)) c) = block c n"
    by (simp add: block_def nat_mult_distrib mult.commute)
  let ?w = "w\<lparr>trace := trace w @ [ReadAt fd (int n * 512) 512]\<rparr>"
  let ?d = "block c n"
  have rd: "util_read S fd 512 (int n * 512) w = Ret ((int (length ?d), ?d), ?w)"
    using fd by (simp add: util_read_def bnd_run andthen_def i32 d Let_def)
  let ?repl = "stack_buf S (trace ?w) 4096 (data_header k @ ?d)"
  have hdr: "length (data_header k) = 4" by (simp add: data_header_def)
  have len: "length (data_header k @ ?d) \<le> 516" using length_block [of c n] hdr by simp
  have rl: "length ?repl = 4096" by (simp add: stack_buf_def)
  have tk: "take (4 + length ?d) ?repl = data_header k @ ?d"
    using len hdr by (simp add: stack_buf_def min_def)
  have snd: "runs (listener_send S out (Some from) ?repl (4 + int (length ?d))) ?w
      (s_sent S (trace ?w) (data_header k @ ?d)) (sent_udp r from (data_header k @ ?d) ?w)"
    using udp_send_runs [of ?w out r "4 + int (length ?d)" ?repl S "from"] l len rl tk hdr
    by (simp add: nat_add_distrib)
  then obtain ls where snd': "listener_send S out (Some from) ?repl (4 + int (length ?d)) ?w
      = Ret (s_sent S (trace ?w) (data_header k @ ?d), (sent_udp r from (data_header k @ ?d) ?w)\<lparr>logs := ls\<rparr>)"
    by (auto simp: runs_iff)
  have "tftp_send_block S l out from fd k (int n * 512) w
      = Ret ((4 + int (length ?d), s_sent S (trace ?w) (data_header k @ ?d), ?repl),
          (sent_udp r from (data_header k @ ?d) ?w)\<lparr>logs := ls\<rparr>)"
    using snd' by (simp add: tftp_send_block_def bnd_run andthen_def rd)
  moreover have "\<exists>q. ?repl = data_header k @ q"
    using len hdr by (intro exI [of _ "drop 4 ?repl"]) (simp add: stack_buf_def)
  ultimately show ?thesis by (auto simp: runs_iff)
qed

subsection \<open>Facts: a transfer\<close>

text \<open>
  \<open>serving S w xs l from a fd c\<close>: the client at \<open>from\<close> is the registered host \<open>a\<close>, which
  may use TFTP and has a TFTP session for that port; its descriptor is open on a file with
  the bytes \<open>c\<close>, which stays readable, and \<open>l\<close> is a UDP listener.
\<close>

definition readable :: "sys \<Rightarrow> int \<Rightarrow> bool" where
  "readable S fd \<longleftrightarrow> (\<forall>tr. \<not> s_lseek_fails S tr fd \<and> \<not> s_read_fails S tr fd)"

definition tftp_session :: "world \<Rightarrow> sockaddr_in \<Rightarrow> addr \<Rightarrow> int \<Rightarrow> bool" where
  "tftp_session w from a fd \<longleftrightarrow> (\<exists>p s. h_session (host_at w a) = Some p \<and> sheap w p = Some s
     \<and> s_service s = SERVICE_TFTP \<and> s_sid s = int (sin_port from) \<and> s_fd s ! 0 = fd)"

definition serving ::
  "sys \<Rightarrow> world \<Rightarrow> addr list \<Rightarrow> addr \<Rightarrow> sockaddr_in \<Rightarrow> addr \<Rightarrow> int \<Rightarrow> u8 list \<Rightarrow> bool" where
  "serving S w xs l from a fd c \<longleftrightarrow> hosts w xs \<and> client w xs from = Some a
     \<and> h_service (host_at w a) AND SERVICE_TFTP \<noteq> 0
     \<and> (\<exists>r. lheap w l = Some r \<and> l_send r = Some Udp_send)
     \<and> tftp_session w from a fd \<and> fdtab w fd = Some c \<and> readable S fd"

definition ack_packet :: "nat \<Rightarrow> u8 list" where
  "ack_packet n = put16 TFTPOP_ACK @ put16 n"

lemma ack_packet_fields [simp]:
  "tftp_op (ack_packet n @ q) = Ret TFTPOP_ACK"
  "n < 65536 \<Longrightarrow> tftp_n (ack_packet n @ q) = Ret n"
  by (simp_all add: ack_packet_def)

definition block_events :: "listener_t \<Rightarrow> sockaddr_in \<Rightarrow> int \<Rightarrow> u8 list \<Rightarrow> nat \<Rightarrow> event list" where
  "block_events r from fd c n = [ReadAt fd (int n * 512) 512,
     SendUdp (l_fd r) (udp_destination r (Some from)) (data_header (n + 1) @ block c n)]"

lemma log_data_runs: "runs (tftp_log_msgpacket (data_header k @ q) sz) (w\<lparr>logs := ls\<rparr>) () w"
proof -
  have "runs (tftp_log_msgpacket (data_header k @ q) sz) (w\<lparr>logs := ls\<rparr>) () (w\<lparr>logs := ls\<rparr>)"
    using data_text [of k q sz] log_msgpacket_run by blast
  then show ?thesis by simp
qed

lemma log_data_block:
  "runs (case (sz, res, data_header k @ q) of (npktlen, sent, repl) \<Rightarrow>
      andthen (if sent \<noteq> npktlen then log_msg (LOG_WARN OR LOG_BOOT) ''error sending tftp reply'' else ret ())
        (tftp_log_msgpacket repl npktlen)) (w\<lparr>logs := ls\<rparr>) () w"
  unfolding prod.case
proof (rule runs_andthen)
  show "runs (if res \<noteq> sz then log_msg (LOG_WARN OR LOG_BOOT) ''error sending tftp reply'' else ret ())
      (w\<lparr>logs := ls\<rparr>) () w"
    by (simp add: runs_def log_msg_run)
qed (rule log_data_runs)

text \<open>The acknowledgement of block \<open>n\<close> is answered with block \<open>n + 1\<close>.\<close>

lemma ack_runs:
  assumes sv: "serving S w xs l from a fd c" and n: "n < 65536"
  shows "\<exists>w'. runs (tftp_handler S l from dst (ack_packet n @ q) pktlen) w () w'
     \<and> serving S w' xs l from a fd c \<and> lheap w' = lheap w
     \<and> trace w' = trace w @ block_events (listener_at w l) from fd c n"
proof -
  obtain r where r: "lheap w l = Some r" "l_send r = Some Udp_send"
    using sv by (auto simp: serving_def)
  obtain p s where p: "h_session (host_at w a) = Some p" "sheap w p = Some s"
      "s_service s = SERVICE_TFTP" "s_sid s = int (sin_port from)" "s_fd s ! 0 = fd"
    using sv by (auto simp: serving_def tftp_session_def)
  have h: "hosts w xs" "client w xs from = Some a" "h_service (host_at w a) AND SERVICE_TFTP \<noteq> 0"
    using sv by (auto simp: serving_def)
  have ha: "hheap w a = Some (host_at w a)" using hosts_alloc [OF h(1)] client_mem [OF h(2)] by simp
  define w1 where "w1 = w\<lparr>sheap := (sheap w)(p \<mapsto> s\<lparr>s_atime := to_int32 (s_time S (trace w))\<rparr>)\<rparr>"
  define w2 where "w2 = sent_udp r from (data_header (n + 1) @ block c n)
      (w1\<lparr>trace := trace w @ [ReadAt fd (int n * 512) 512]\<rparr>)"
  obtain t where t: "tftp_text (ack_packet n @ q) pktlen = Ret t"
    using n by (simp add: tftp_text_def)
  have run: "runs (tftp_handler S l from dst (ack_packet n @ q) pktlen) w () w2"
  proof (rule switch_runs [OF h t])
    fix ls
    let ?l = "\<lambda>w. w\<lparr>logs := ls\<rparr>"
    have chk: "host_session_check S a SERVICE_TFTP (int (sin_port from)) (?l w) = Ret (E_NOERROR, ?l w1)"
      using session_check_ok [of "?l w" a "host_at w a" p s] ha p by (simp add: w1_def)
    have fd0: "session_fd0 a (?l w1) = Ret (fd, ?l w1)"
      using ha p by (simp add: session_fd0_def bnd_run w1_def)
    have w2: "w2\<lparr>logs := ls\<rparr> = sent_udp r from (data_header (n + 1) @ block c n)
        ((?l w1)\<lparr>trace := trace (?l w1) @ [ReadAt fd (int n * 512) 512]\<rparr>)"
      by (simp add: w2_def w1_def sent_udp_def)
    obtain sz res q' where blk: "runs (tftp_send_block S l l from fd (n + 1) (int n * 512)) (?l w1)
        (sz, res, data_header (n + 1) @ q') (w2\<lparr>logs := ls\<rparr>)"
      using send_block_runs [of "?l w1" l r fd c S n l "from" "n + 1", folded w2] r sv n
      by (auto simp: serving_def readable_def w1_def)
    have n': "lift (tftp_n (ack_packet n @ q)) (?l w1) = Ret (n, ?l w1)" using n by simp
    have "runs (tftp_ack S l from (ack_packet n @ q) a) (?l w) () w2"
      unfolding tftp_ack_def
      by (rule runs_bnd_Ret, rule chk, rule runs_bnd_Ret, rule n', simp only: simp_thms if_False,
          rule runs_bnd_Ret, rule fd0, rule runs_bnd, rule blk, simp only: logs_twice, rule log_data_block)
    then show "runs (tftp_switch S l from dst (ack_packet n @ q) pktlen a) (?l w) () w2"
      unfolding tftp_switch_def by (auto intro: runs_bnd_Ret)
  qed
  have "serving S w2 xs l from a fd c"
    using sv p by (auto simp: serving_def tftp_session_def w2_def w1_def hosts_def client_def host_at_def)
  moreover have "trace w2 = trace w @ block_events (listener_at w l) from fd c n"
    using r by (simp add: w2_def block_events_def listener_at_def)
  ultimately show ?thesis using run by (auto simp: w2_def w1_def)
qed

text \<open>The payloads of the datagrams in a trace, and a client that acknowledges block after block.\<close>

definition payload :: "event \<Rightarrow> u8 list" where
  "payload e = (case e of SendUdp _ _ bs \<Rightarrow> drop 4 bs | _ \<Rightarrow> [])"

definition acks :: "sys \<Rightarrow> addr \<Rightarrow> sockaddr_in \<Rightarrow> sockaddr_in \<Rightarrow> (nat \<Rightarrow> u8 list) \<Rightarrow> nat list \<Rightarrow> unit cmd" where
  "acks S l from dst rest ns = each (\<lambda>n. tftp_handler S l from dst (ack_packet n @ rest n) 4) ns"

lemma payload_block_events:
  "map payload (block_events r from fd c n) = [[], block c n]"
  by (simp add: block_events_def payload_def data_header_def)

lemma serving_logs [simp]: "serving S (w\<lparr>logs := ls\<rparr>) xs l from a fd c = serving S w xs l from a fd c"
  by (simp add: serving_def hosts_def client_def tftp_session_def host_at_def)

lemma listener_at_cong: "lheap w' = lheap w \<Longrightarrow> listener_at w' l = listener_at w l"
  by (simp add: listener_at_def)

lemma acks_run:
  assumes "serving S w xs l from a fd c" and "\<forall>n \<in> set ns. n < 65536"
  shows "\<exists>w'. runs (acks S l from dst rest ns) w () w' \<and> serving S w' xs l from a fd c \<and> lheap w' = lheap w
     \<and> trace w' = trace w @ concat (map (block_events (listener_at w l) from fd c) ns)"
  using assms
proof (induction ns arbitrary: w)
  case Nil
  then show ?case by (auto simp: acks_def runs_def)
next
  case (Cons n ns)
  obtain w1 where w1: "runs (tftp_handler S l from dst (ack_packet n @ rest n) 4) w () w1"
      "serving S w1 xs l from a fd c" "lheap w1 = lheap w"
      "trace w1 = trace w @ block_events (listener_at w l) from fd c n"
    using ack_runs [OF Cons.prems(1), of n dst "rest n" 4] Cons.prems(2) by auto
  have IH: "\<exists>w2. runs (acks S l from dst rest ns) (w1\<lparr>logs := ls\<rparr>) () w2
      \<and> serving S w2 xs l from a fd c \<and> lheap w2 = lheap w
      \<and> trace w2 = trace w @ concat (map (block_events (listener_at w l) from fd c) (n # ns))" for ls
    using Cons.IH [of "w1\<lparr>logs := ls\<rparr>"] Cons.prems(2) w1(2-4) listener_at_cong [of "w1\<lparr>logs := ls\<rparr>" w l]
    by simp
  show ?case
    using runs_andthen_ex [OF w1(1) IH] unfolding acks_def each_simps .
qed

text \<open>
  The first block and the acknowledgements of the blocks 1 to \<open>k - 1\<close> make the client
  receive the file, as long as the block numbers stay below 65536.
\<close>

lemma acks_deliver:
  assumes sv: "serving S w xs l from a fd c" and k: "0 < k" "k < 65536" "length c \<le> 512 * k"
  shows "\<exists>w' tr. runs (acks S l from dst rest [1..<k]) w () w' \<and> trace w' = trace w @ tr
     \<and> block c 0 @ concat (map payload tr) = c"
proof -
  obtain w' where w': "runs (acks S l from dst rest [1..<k]) w () w'"
      "trace w' = trace w @ concat (map (block_events (listener_at w l) from fd c) [1..<k])"
    using acks_run [OF sv, of "[1..<k]" dst rest] k by auto
  have "map payload (concat (map (block_events r from fd c) ns)) = concat (map (\<lambda>n. [[], block c n]) ns)" for r ns
    by (induction ns) (simp_all add: payload_block_events)
  moreover have "concat (concat (map (\<lambda>n. [[], block c n]) ns)) = concat (map (block c) ns)" for ns
    by (induction ns) simp_all
  moreover have "block c 0 @ concat (map (block c) [1..<k]) = c"
    using blocks_complete [OF k(3)] k(1) by (simp add: upt_conv_Cons)
  ultimately show ?thesis using w' by auto
qed

lemma frame_client:
  assumes f: "session_frame w w1" and h: "hosts w xs"
  shows "client w1 xs from = client w xs from"
  unfolding client_def
proof (rule find_cong_on)
  fix x assume "x \<in> set xs"
  then have "hheap w x = Some (host_at w x)" by (rule hosts_alloc [OF h])
  then obtain h1 where "hheap w1 x = Some h1" "h_ip h1 = h_ip (host_at w x)"
    by (rule frame_host [OF f])
  then show "(h_ip (host_at w1 x) = sin_addr from) = (h_ip (host_at w x) = sin_addr from)"
    by (simp add: host_at_def)
qed

text \<open>
  The read request after the file was opened as \<open>fd\<close>: the session becomes the one the
  acknowledgements need, and the first block goes out over the new listener.
\<close>

lemma rrq_send_runs:
  assumes h: "hosts w xs" and cl: "client w xs from = Some a"
    and sv: "h_service (host_at w a) AND SERVICE_TFTP \<noteq> 0"
    and s: "h_session (host_at w a) = Some p" "sheap w p = Some s" "s_service s = SERVICE_TFTP" "s_fd s \<noteq> []"
    and fd: "fdtab w fd = Some c" "readable S fd"
    and n: "lheap w n = Some r" "l_send r = Some Udp_send"
  shows "\<exists>w'. runs (tftp_rrq_send S l (Some n) from a fd) w () w' \<and> serving S w' xs n from a fd c
     \<and> trace w' = trace w @ block_events r from fd c 0"
proof -
  have ha: "hheap w a = Some (host_at w a)" using hosts_alloc [OF h] client_mem [OF cl] by simp
  define w1 where "w1 = w\<lparr>sheap := (sheap w)(p \<mapsto> set_fd0 fd s)\<rparr>"
  define w2 where "w2 = w\<lparr>sheap := (sheap w)(p \<mapsto> (set_fd0 fd s)\<lparr>s_sid := int (sin_port from), s_l := Some n\<rparr>)\<rparr>"
  define w3 where "w3 = sent_udp r from (data_header 1 @ block c 0) (w2\<lparr>trace := trace w @ [ReadAt fd 0 512]\<rparr>)"
  have set1: "runs (session_set a (set_fd0 fd)) w () w1"
    using session_set_run [OF ha s(1,2)] by (simp add: w1_def runs_def)
  have set2: "runs (session_set a (\<lambda>s. s\<lparr>s_sid := int (sin_port from), s_l := Some n\<rparr>)) (w1\<lparr>logs := ls\<rparr>)
      () w2" for ls
    using session_set_run [of "w1\<lparr>logs := ls\<rparr>" a "host_at w a" p "set_fd0 fd s"] ha s
    by (simp add: w1_def w2_def runs_def)
  have blk: "runs (bnd (tftp_send_block S l n from fd 1 0) (\<lambda>(npktlen, sent, repl).
          if sent \<noteq> npktlen then log_msg (LOG_WARN OR LOG_BOOT) ''error sending tftp reply''
          else tftp_log_msgpacket repl npktlen)) (w2\<lparr>logs := ls\<rparr>) () w3" for ls
  proof -
    let ?w = "w2\<lparr>logs := ls\<rparr>"
    have w3: "w3\<lparr>logs := ls\<rparr> = sent_udp r from (data_header 1 @ block c 0)
        (?w\<lparr>trace := trace ?w @ [ReadAt fd (int 0 * 512) 512]\<rparr>)"
      by (simp add: w3_def w2_def sent_udp_def)
    obtain sz res q where "runs (tftp_send_block S l n from fd 1 (int 0 * 512)) ?w
        (sz, res, data_header 1 @ q) (w3\<lparr>logs := ls\<rparr>)"
      using send_block_runs [of ?w n r fd c S 0 l "from" 1, folded w3] n fd
      by (auto simp: readable_def w2_def)
    then have b: "runs (tftp_send_block S l n from fd 1 0) ?w (sz, res, data_header 1 @ q) w3"
      by simp
    show ?thesis
      by (rule runs_bnd [OF b])
        (use log_data_runs [of 1 q sz _ w3] in \<open>simp add: runs_def log_msg_run\<close>)
  qed
  have "runs (tftp_rrq_send S l (Some n) from a fd) w () w3"
    unfolding tftp_rrq_send_def option.case
    by (rule runs_andthen [OF set1], rule runs_andthen [OF runs_log_msg], simp,
        simp only: logs_twice, rule runs_andthen [OF set2], rule blk)
  moreover have "serving S w3 xs n from a fd c"
    using h cl sv s fd n by (auto simp: serving_def hosts_def client_def tftp_session_def host_at_def w3_def w2_def
        set_fd0_def)
  moreover have "trace w3 = trace w @ block_events r from fd c 0"
    by (simp add: w3_def w2_def block_events_def)
  ultimately show ?thesis by blast
qed

lemma rrq_serve_runs:
  assumes st: "session_state w xs" and cl: "client w xs from = Some a"
    and sv: "h_service (host_at w a) AND SERVICE_TFTP \<noteq> 0"
    and path: "f_path f = Some path" and opn: "s_open S (trace w) path = Inr (fd, c)" "readable S fd"
    and n: "lheap w n = Some r" "l_send r = Some Udp_send"
    and room: "fst (spec_add (s_time S (trace w)) (c_session_timeout w) (c_session_max w) a SERVICE_TFTP
        (int (sin_port from)) (table w xs))"
  shows "\<exists>w'. runs (tftp_rrq_serve S l (Some n) from a f) w () w' \<and> serving S w' xs n from a fd c
     \<and> trace w' = trace w @ [OpenFile path] @ block_events r from fd c 0"
proof -
  let ?sid = "int (sin_port from)" and ?now = "s_time S (trace w)"
  have a: "a \<in> set xs" using client_mem [OF cl] by simp
  obtain w1 h1 p where add: "runs (host_session_add S a SERVICE_TFTP ?sid) w True w1"
    and st1: "session_state w1 xs" and fr: "session_frame w w1"
    and h1: "hheap w1 a = Some h1" "h_ip h1 = h_ip (host_at w a)" "h_service h1 = h_service (host_at w a)"
    and p: "h_session h1 = Some p" "sheap w1 p = Some (fresh_session SERVICE_TFTP ?now ?sid)"
    by (rule session_add_new [OF st a room])
  have eqs: "trace w1 = trace w" "lheap w1 = lheap w" using fr by (simp_all add: session_frame_def)
  have step: "\<exists>w'. runs (bnd (open_rdonly S (f_path f)) (\<lambda>r. case r of
         Inl e \<Rightarrow>
           andthen (log_msg (LOG_WARN OR LOG_BOOT) ''open(%s, O_RDONLY): %s'')
           (andthen (session_set a (set_fd0 0))
           (bnd (asks (\<lambda>w. s_errtext S (trace w))) (tftp_send_error S l from (tftp_open_error e))))
       | Inr fd \<Rightarrow> tftp_rrq_send S l (Some n) from a fd)) (w1\<lparr>logs := ls\<rparr>) () w' \<and> serving S w' xs n from a fd c
     \<and> trace w' = trace w @ [OpenFile path] @ block_events r from fd c 0" for ls
  proof -
    let ?w2 = "w1\<lparr>logs := ls, trace := trace w @ [OpenFile path], fdtab := (fdtab w1)(fd \<mapsto> c)\<rparr>"
    have o2: "open_rdonly S (f_path f) (w1\<lparr>logs := ls\<rparr>) = Ret (Inr fd, ?w2)"
      using opn path eqs by (simp add: open_rdonly_run)
    have host2: "host_at ?w2 = host_at w1" by (simp add: host_at_def fun_eq_iff)
    obtain w' where w': "runs (tftp_rrq_send S l (Some n) from a fd) ?w2 () w'" "serving S w' xs n from a fd c"
      "trace w' = trace ?w2 @ block_events r from fd c 0"
      using rrq_send_runs [of ?w2 xs "from" a p "fresh_session SERVICE_TFTP ?now ?sid" fd c S n r l]
        frame_hosts [OF st1] frame_client [OF fr frame_hosts [OF st], of "from"] cl sv h1 p n opn eqs
      by (auto simp: host2 client_def hosts_def fresh_session_def session_new_def host_at_def)
    show ?thesis
      by (intro exI [of _ w'] conjI, rule runs_bnd_Ret, rule o2) (use w' in \<open>simp_all add: eqs\<close>)
  qed
  show ?thesis
    unfolding tftp_rrq_serve_def
    by (rule runs_bnd_ex1 [OF add]) (use step in \<open>simp only: not_True_eq_False if_False\<close>)
qed

subsection \<open>Facts: the files that can be opened\<close>

definition is_open :: "event \<Rightarrow> bool" where
  "is_open e = (case e of OpenFile _ \<Rightarrow> True | _ \<Rightarrow> False)"

definition opens_are :: "event list \<Rightarrow> world \<Rightarrow> bool" where
  "opens_are os w \<longleftrightarrow> filter is_open (trace w) = os"

lemma opens_are_frame [simp]:
  "opens_are os (w\<lparr>logs := ls\<rparr>) = opens_are os w"
  "opens_are os (w\<lparr>hheap := hh\<rparr>) = opens_are os w"
  "opens_are os (w\<lparr>sheap := sh\<rparr>) = opens_are os w"
  "opens_are os (w\<lparr>lheap := lh\<rparr>) = opens_are os w"
  "opens_are os (w\<lparr>g_listeners := gl\<rparr>) = opens_are os w"
  "opens_are os (w\<lparr>g_n_sessions := gn\<rparr>) = opens_are os w"
  "opens_are os (w\<lparr>brk := b\<rparr>) = opens_are os w"
  "opens_are os (w\<lparr>fdtab := ft\<rparr>) = opens_are os w"
  "opens_are os (w\<lparr>rmp_sid := sid\<rparr>) = opens_are os w"
  "\<not> is_open e \<Longrightarrow> opens_are os (w\<lparr>trace := trace w @ [e]\<rparr>) = opens_are os w"
  by (simp_all add: opens_are_def)

lemma is_open_simps [simp]:
  "is_open (OpenFile p)" "\<not> is_open (SendUdp fd dst bs)" "\<not> is_open (SendLink dev bs)"
  "\<not> is_open (ReadAt fd offs len)" "\<not> is_open (ArpSet ip eth)" "\<not> is_open OpenSocket"
  "\<not> is_open (CloseFd fd)" "\<not> is_open (SetFlags fd flags)"
  by (simp_all add: is_open_def)

lemma keeps_opens_store [keeps_rules]:
  "keeps (opens_are os) (host_put a h)" "keeps (opens_are os) (session_put p s)"
  "keeps (opens_are os) (session_free p)" "keeps (opens_are os) (listener_put l r)"
  "keeps (opens_are os) (listener_free l)" "keeps (opens_are os) malloc"
  "keeps (opens_are os) (close_fd fd)"
  unfolding host_put_def session_put_def session_free_def listener_put_def listener_free_def close_fd_def
  by (auto intro!: keeps_modify keeps_rules) (auto intro!: keepsI simp: store_run(9))

lemma keeps_opens_logging [keeps_rules]:
  "keeps (opens_are os) (log_msg what fmt)" "keeps (opens_are os) (tftp_log_msgpacket p len)"
  unfolding tftp_log_msgpacket_def by (auto intro!: keeps_rules)

lemma keeps_opens_listener [keeps_rules]:
  "keeps (opens_are os) (listener_search_by_fd fd)" "keeps (opens_are os) (listener_delete lp)"
  "keeps (opens_are os) (listener_add lp)" "keeps (opens_are os) (listener_send S l dst pk n)"
  "keeps (opens_are os) (listener_new_udp S a b service desc)"
  unfolding listener_search_by_fd_def listener_delete_def delete_unregistered_def listener_add_def listener_link_def
    listener_send_def i_listener_udp_send_def i_listener_link_send_def listener_new_udp_def
    i_listener_fcntl_nonblock_def Let_def listener_cleanup_def i_listener_link_cleanup_def
    i_listener_udp_cleanup_def i_listener_rpc_udp_cleanup_def
  by (auto intro!: keeps_rules keeps_modify split: option.splits send_fn.splits cleanup_fn.splits)

lemma keeps_opens_session [keeps_rules]:
  "keeps (opens_are os) (host_session_delete hp msg)" "keeps (opens_are os) (host_session_timeout S hp)"
  "keeps (opens_are os) (util_host_session_timeout_all S)" "keeps (opens_are os) (host_session_add S a m sid)"
  "keeps (opens_are os) (host_session_check S a m sid)"
  "keeps (opens_are os) (session_set a f)" "keeps (opens_are os) (session_fd0 a)"
proof -
  show del: "keeps (opens_are os) (host_session_delete hp msg)" for hp msg
    unfolding host_session_delete_def session_close_fd_def
    by (auto intro!: keeps_rules keeps_modify split: option.splits)
  show tmo: "keeps (opens_are os) (host_session_timeout S hp)" for hp
    unfolding host_session_timeout_def by (auto intro!: keeps_rules del split: option.splits)
  show all: "keeps (opens_are os) (util_host_session_timeout_all S)"
    unfolding util_host_session_timeout_all_def by (intro keeps_rules tmo)
  show "keeps (opens_are os) (host_session_add S a m sid)"
    unfolding host_session_add_def host_session_create_def
    by (auto intro!: keeps_rules keeps_modify del all split: option.splits)
  show "keeps (opens_are os) (host_session_check S a m sid)"
    unfolding host_session_check_def by (auto intro!: keeps_rules split: option.splits)
  show "keeps (opens_are os) (session_set a f)" "keeps (opens_are os) (session_fd0 a)"
    unfolding session_set_def session_fd0_def by (auto intro!: keeps_rules)
qed

lemma keeps_opens_lookup [keeps_rules]:
  "keeps (opens_are os) (util_name2file hp m name no)" "keeps (opens_are os) (util_read S fd len offs)"
  unfolding util_name2file_def util_read_def Let_def
  by (auto intro!: keeps_rules split: option.splits)

lemma keeps_opens_send [keeps_rules]:
  "keeps (opens_are os) (tftp_send_error S l from err msg)"
  "keeps (opens_are os) (tftp_send_block S l out from fd k offs)"
  "keeps (opens_are os) (tftp_rrq_send S l nl from a fd)"
  "keeps (opens_are os) (tftp_ack S l from p a)"
  unfolding tftp_send_error_def tftp_send_block_def tftp_rrq_send_def tftp_ack_def Let_def
  by (auto intro!: keeps_rules split: option.splits)

text \<open>\<open>opens_within P os w\<close>: after the opens \<open>os\<close>, only paths of \<open>P\<close> were opened.\<close>

definition opens_within :: "string set \<Rightarrow> event list \<Rightarrow> world \<Rightarrow> bool" where
  "opens_within P os w \<longleftrightarrow> (\<exists>ps. set ps \<subseteq> P \<and> opens_are (os @ map OpenFile ps) w)"

definition allowed_paths :: "world \<Rightarrow> addr \<Rightarrow> mask \<Rightarrow> string set" where
  "allowed_paths w a m = {p. \<exists>f \<in> set (h_files (host_at w a)). f_service f AND m \<noteq> 0 \<and> f_path f = Some p}"

lemma opens_within_refl: "opens_within P (filter is_open (trace w)) w"
  by (auto simp: opens_within_def opens_are_def intro: exI [of _ "[]"])

lemma keeps_within: "(\<And>os. keeps (opens_are os) m) \<Longrightarrow> keeps (opens_within P os) m"
  by (fastforce simp: opens_within_def intro!: keepsI dest: keepsD)

lemma within_open: "p \<in> P \<Longrightarrow> opens_within P os w \<Longrightarrow> opens_within P os (w\<lparr>trace := trace w @ [OpenFile p]\<rparr>)"
proof -
  assume p: "p \<in> P" and "opens_within P os w"
  then obtain ps where "set ps \<subseteq> P" "opens_are (os @ map OpenFile ps) w"
    by (auto simp: opens_within_def)
  with p show ?thesis
    unfolding opens_within_def by (intro exI [of _ "ps @ [p]"]) (simp add: opens_are_def)
qed

lemma opens_within_fdtab [simp]: "opens_within P os (w\<lparr>fdtab := t\<rparr>) = opens_within P os w"
  by (simp add: opens_within_def)

lemma keeps_open_rdonly:
  assumes "\<And>p. path = Some p \<Longrightarrow> p \<in> P"
  shows "keeps (opens_within P os) (open_rdonly S path)"
proof (rule keepsI)
  fix w x w' assume "opens_within P os w" "open_rdonly S path w = Ret (x, w')"
  then show "opens_within P os w'"
    using assms
    by (auto simp: open_rdonly_def bnd_Ret_iff andthen_Ret_iff store_run(10) intro!: within_open
        split: option.splits sum.splits)
qed

lemma keeps_rrq_serve:
  assumes "\<And>p. f_path f = Some p \<Longrightarrow> p \<in> P"
  shows "keeps (opens_within P os) (tftp_rrq_serve S l nl from a f)"
  unfolding tftp_rrq_serve_def
  by (intro keeps_rules keeps_within keeps_open_rdonly assms) (auto intro!: keeps_within keeps_rules)

lemma keeps_rrq_file:
  assumes "\<And>p. f_path f = Some p \<Longrightarrow> p \<in> P"
  shows "keeps (opens_within P os) (tftp_rrq_file S l from dst a f)"
  unfolding tftp_rrq_file_def
  by (intro keeps_andthen keeps_bnd keeps_rrq_serve assms) (auto intro!: keeps_within keeps_rules)

lemma rrq_opens:
  assumes r: "tftp_rrq S l from dst p pktlen a w = Ret (x, w')" and i: "opens_within P os w"
    and P: "allowed_paths w a SERVICE_TFTP \<subseteq> P"
  shows "opens_within P os w'"
proof -
  obtain name g w1 where g: "util_name2file (Some a) SERVICE_TFTP name 0 w = Ret (g, w1)"
    and rest: "(case g of
         None \<Rightarrow> tftp_send_error S l from TFTP_E_NOENT ''file not configured''
       | Some f \<Rightarrow> tftp_rrq_file S l from dst a f) w1 = Ret (x, w')"
    using r by (cases "tftp_get_filename p pktlen")
      (auto simp: tftp_rrq_def bnd_Ret_iff simp del: TFTP_E_NOENT_def SERVICE_TFTP_def)
  have w1: "w1 = w" using name2file_allowed [OF g] by simp
  show ?thesis
  proof (cases g)
    case None
    have "keeps (opens_within P os) (tftp_send_error S l from TFTP_E_NOENT ''file not configured'')"
      by (intro keeps_within keeps_rules)
    then show ?thesis using rest None i w1 by (auto dest: keepsD)
  next
    case (Some f)
    with name2file_allowed [OF g] P have "\<And>p. f_path f = Some p \<Longrightarrow> p \<in> P"
      by (auto simp: allowed_paths_def)
    then have "keeps (opens_within P os) (tftp_rrq_file S l from dst a f)"
      by (rule keeps_rrq_file)
    then show ?thesis using rest Some i w1 by (auto dest: keepsD)
  qed
qed

lemma handler_opens:
  assumes h: "hosts w xs" and r: "tftp_handler S l from dst p pktlen w = Ret (x, w')"
  shows "opens_within (case client w xs from of
      Some a \<Rightarrow> if h_service (host_at w a) AND SERVICE_TFTP \<noteq> 0 then allowed_paths w a SERVICE_TFTP else {}
    | None \<Rightarrow> {}) (filter is_open (trace w)) w'"
    (is "opens_within ?P ?os w'")
proof -
  have err: "opens_within ?P ?os w2"
    if "andthen (log_msg what fmt) (tftp_send_error S l from e msg) w1 = Ret (x, w2)" "opens_within ?P ?os w1"
    for what fmt e msg w1 w2
  proof -
    have "keeps (opens_within ?P ?os) (andthen (log_msg what fmt) (tftp_send_error S l from e msg))"
      by (intro keeps_within keeps_rules)
    from keepsD [where I = "opens_within ?P ?os", OF this that] show ?thesis .
  qed
  obtain ls where log: "tftp_log_msgpacket p pktlen w = Ret ((), w\<lparr>logs := ls\<rparr>)"
    and r1: "bnd (util_ip2host (sin_addr from)) (\<lambda>hp. case hp of
        None \<Rightarrow>
          andthen (log_msg (LOG_INFO OR LOG_BOOT) ''tftp request from host %s denied (client unknown)'')
            (tftp_send_error S l from TFTP_E_ACCESS ''access denied, client unknown'')
      | Some a \<Rightarrow> tftp_for_host S l from dst p pktlen a) (w\<lparr>logs := ls\<rparr>) = Ret (x, w')"
    using r unfolding tftp_handler_def andthen_unit_Ret [of "tftp_log_msgpacket p pktlen"]
    by (metis log_msgpacket_Ret)
  let ?w = "w\<lparr>logs := ls\<rparr>"
  have hl: "hosts ?w xs" and cl: "client ?w xs from = client w xs from" and ha: "host_at ?w = host_at w"
    using h by (auto simp: hosts_def client_def host_at_def)
  have ip: "util_ip2host (sin_addr from) ?w = Ret (client w xs from, ?w)"
    using util_ip2host_run [OF hl] cl by (simp add: client_def eq_commute)
  have i: "opens_within ?P ?os ?w" using opens_within_refl [of ?P w] by (simp add: opens_within_def)
  show ?thesis
  proof (cases "client w xs from")
    case None
    with r1 ip err i show ?thesis by (auto simp: bnd_run)
  next
    case (Some a)
    then have a: "hheap ?w a = Some (host_at w a)" using hosts_alloc [OF h] client_mem by simp
    show ?thesis
    proof (cases "h_service (host_at w a) AND SERVICE_TFTP = 0")
      case True
      with Some r1 ip err i a show ?thesis by (auto simp: bnd_run tftp_for_host_def)
    next
      case False
      then have P: "allowed_paths ?w a SERVICE_TFTP \<subseteq> ?P"
        using Some by (simp add: allowed_paths_def ha)
      obtain op where "tftp_op p = Ret op"
        and sw: "(if op = TFTPOP_RRQ then tftp_rrq S l from dst p pktlen a
          else if op = TFTPOP_WRQ \<or> op = TFTPOP_DATA then
            tftp_send_error S l from TFTP_E_UNDEF ''writing files not supported''
          else if op = TFTPOP_ACK then tftp_ack S l from p a
          else if op = TFTPOP_ERROR then ret ()
          else log_msg (LOG_INFO OR LOG_BOOT)
            ''tftp request from host %s denied (unknown opcode %d)'') ?w = Ret (x, w')"
        using r1 False Some ip a
        by (auto simp: bnd_run tftp_for_host_def tftp_switch_def lift_def split: outcome.splits)
      show ?thesis
      proof (cases "op = TFTPOP_RRQ")
        case True
        with sw rrq_opens [OF _ i P] show ?thesis by simp
      next
        case False
        have "keeps (opens_within ?P ?os) (if op = TFTPOP_WRQ \<or> op = TFTPOP_DATA then
            tftp_send_error S l from TFTP_E_UNDEF ''writing files not supported''
          else if op = TFTPOP_ACK then tftp_ack S l from p a
          else if op = TFTPOP_ERROR then ret ()
          else log_msg (LOG_INFO OR LOG_BOOT)
            ''tftp request from host %s denied (unknown opcode %d)'')"
          by (intro keeps_within keeps_rules)
        from keepsD [where I = "opens_within ?P ?os", OF this _ i] sw False show ?thesis by simp
      qed
    qed
  qed
qed

subsection \<open>Facts: requests that cannot be served\<close>

text \<open>
  With sockets that work, a request for a configured file ends in the registration of the
  new listener, which writes through its NULL name.
\<close>

lemma rrq_file_undefined:
  assumes st: "session_state w xs" and a: "a \<in> set xs" and S: "working_sockets S"
  shows "tftp_rrq_file S l from dst a f w = Undef ''listener_add: l->name[0] = 0 with NULL name''"
proof -
  obtain w1 where d: "host_session_delete (Some a) ''new request'' w = Ret ((), w1)" "session_state w1 xs"
    using srun_delete [OF st a, of "''new request''"] by (auto simp: srun_def runs_iff)
  have ha: "hheap w1 a = Some (host_at w1 a)" using frame_hosts [OF d(2)] a by (rule hosts_alloc)
  let ?desc = "Some (take 127 (''tftp data '' @ or_null (h_name (host_at w1 a))))"
  obtain n w2 where n: "listener_new_udp S (Some (dst\<lparr>sin_port := 0\<rparr>)) (Some from) (Some Tftp_handler) ?desc w1
      = Ret (Some n, w2)"
    using listener_new_udp_works [OF S] by blast
  obtain r where r: "lheap w2 n = Some r" "l_name r = None" "l_receive r = Some Udp_receive" "l_cleanup r = Some Udp_cleanup"
    using listener_new_udp_result [OF n] by auto
  have "listener_add (Some n) w2 = Undef ''listener_add: l->name[0] = 0 with NULL name''"
    by (rule listener_add_unnamed [OF r(1)]) (use r in simp_all)
  then show ?thesis
    using d(1) ha n by (simp add: tftp_rrq_file_def bnd_run andthen_def)
qed

text \<open>A block that cannot be acknowledged: no session, or the wrong port.\<close>

lemma ack_no_session:
  assumes h: "hosts w xs" and cl: "client w xs from = Some a"
    and sv: "h_service (host_at w a) AND SERVICE_TFTP \<noteq> 0" and none: "h_session (host_at w a) = None"
    and l: "lheap w l = Some r" "l_send r = Some Udp_send" and n: "n < 65536"
  shows "runs (tftp_handler S l from dst (ack_packet n @ q) pktlen) w ()
     (if n = 1 then w else sent_udp r from (error_reply TFTP_E_BADSID ''no session'') w)"
proof -
  have ha: "hheap w a = Some (host_at w a)" using hosts_alloc [OF h] client_mem [OF cl] by simp
  obtain t where t: "tftp_text (ack_packet n @ q) pktlen = Ret t"
    using n by (simp add: tftp_text_def)
  show ?thesis
  proof (rule switch_runs [OF h cl sv t])
    fix ls
    have chk: "runs (host_session_check S a SERVICE_TFTP (int (sin_port from))) (w\<lparr>logs := ls\<rparr>) E_NOSESSION w"
      using ha none by (simp add: host_session_check_def bnd_run andthen_def runs_def log_msg_run)
    have e: "runs (tftp_send_error S l from TFTP_E_BADSID ''no session'') (w\<lparr>logs := ls'\<rparr>) ()
        (sent_udp r from (error_reply TFTP_E_BADSID ''no session'') w)" for ls'
      using send_error_runs [of "w\<lparr>logs := ls'\<rparr>" l r "''no session''" S "from" TFTP_E_BADSID] l by simp
    have "runs (tftp_ack S l from (ack_packet n @ q) a) (w\<lparr>logs := ls\<rparr>) ()
        (if n = 1 then w else sent_udp r from (error_reply TFTP_E_BADSID ''no session'') w)"
      unfolding tftp_ack_def
      by (rule runs_bnd [OF chk], rule runs_bnd_Ret [where x = n]) (use n e in \<open>auto simp: runs_def [of "ret ()"]\<close>)
    then show "runs (tftp_switch S l from dst (ack_packet n @ q) pktlen a) (w\<lparr>logs := ls\<rparr>) ()
        (if n = 1 then w else sent_udp r from (error_reply TFTP_E_BADSID ''no session'') w)"
      unfolding tftp_switch_def by (auto intro: runs_bnd_Ret)
  qed
qed

end
