(* ===== verification/Rarp.thy ===== *)
theory Rarp
  imports Listener
begin

text \<open>
  \<open>src/rarp.c\<close> and \<open>src/rarp.h\<close>: the RARP responder of the link listener. A frame is the
  list of its captured bytes with the length the capture reports beside it. Of the three
  variants of \<open>rarp_updatetable\<close> the one for systems with \<open>SIOCSARP\<close> is modelled.
\<close>

definition ETHERTYPE_REVARP :: nat where [simp]: "ETHERTYPE_REVARP = 0x8035"
definition ETHERTYPE_IP :: nat where [simp]: "ETHERTYPE_IP = 0x0800"
definition ARPHRD_ETHER :: nat where [simp]: "ARPHRD_ETHER = 1"
definition ARPOP_REVREQUEST :: nat where [simp]: "ARPOP_REVREQUEST = 3"
definition ARPOP_REVREPLY :: nat where [simp]: "ARPOP_REVREPLY = 4"
definition LIBNET_ETH_H :: nat where [simp]: "LIBNET_ETH_H = 14"

subsection \<open>The header\<close>

record rarp_header =
  ra_daddr :: etheraddr
  ra_saddr :: etheraddr
  ra_type :: nat
  ra_hrd :: nat
  ra_pro :: nat
  ra_hln :: u8
  ra_pln :: u8
  ra_op :: nat
  ra_sha :: etheraddr
  ra_spa :: ipaddr
  ra_tha :: etheraddr
  ra_tpa :: ipaddr

text \<open>
  The struct read from and written to its 42 bytes, with \<open>ntohs\<close> and \<open>htons\<close> of the 16-bit
  fields in it.
\<close>

definition sizeof_rarp :: nat where [simp]: "sizeof_rarp = 42"

definition rarp_decode :: "u8 list \<Rightarrow> rarp_header option" where
  "rarp_decode p =
     (if length p < sizeof_rarp then None
      else Some \<lparr>ra_daddr = slice 0 6 p, ra_saddr = slice 6 6 p, ra_type = be16 (p ! 12) (p ! 13),
        ra_hrd = be16 (p ! 14) (p ! 15), ra_pro = be16 (p ! 16) (p ! 17), ra_hln = p ! 18, ra_pln = p ! 19,
        ra_op = be16 (p ! 20) (p ! 21), ra_sha = slice 22 6 p, ra_spa = slice 28 4 p,
        ra_tha = slice 32 6 p, ra_tpa = slice 38 4 p\<rparr>)"

definition rarp_encode :: "rarp_header \<Rightarrow> u8 list" where
  "rarp_encode r = ra_daddr r @ ra_saddr r @ put16 (ra_type r) @ put16 (ra_hrd r) @ put16 (ra_pro r)
     @ [ra_hln r, ra_pln r] @ put16 (ra_op r) @ ra_sha r @ ra_spa r @ ra_tha r @ ra_tpa r"

text \<open>The test on the fields that lie in the first 20 bytes.\<close>

definition is_rarp :: "u8 list \<Rightarrow> bool" where
  "is_rarp p \<longleftrightarrow> be16 (p ! 12) (p ! 13) = ETHERTYPE_REVARP \<and> be16 (p ! 14) (p ! 15) = ARPHRD_ETHER
     \<and> be16 (p ! 16) (p ! 17) = ETHERTYPE_IP \<and> p ! 18 = 6 \<and> p ! 19 = 4"

subsection \<open>The handler\<close>

text \<open>
  The text of the log line. \<open>ARPHRD_FRELAY\<close> is not defined on the systems with \<open>SIOCSARP\<close>.
  The texts of the addresses fit in their arrays of 32 bytes.
\<close>

definition ARPHRD_IEEE802 :: nat where [simp]: "ARPHRD_IEEE802 = 6"
definition ETHERTYPE_IPV6 :: nat where [simp]: "ETHERTYPE_IPV6 = 0x86DD"

definition hrd_name :: "nat \<Rightarrow> string" where
  "hrd_name n = (if n = ARPHRD_ETHER then ''ether'' else if n = ARPHRD_IEEE802 then ''token-ring'' else ''unknown'')"

definition pro_name :: "nat \<Rightarrow> string" where
  "pro_name n = (if n = ETHERTYPE_IP then ''IP'' else if n = ETHERTYPE_IPV6 then ''IPv6'' else ''unknown'')"

definition rarp_op_name :: "nat \<Rightarrow> string" where
  "rarp_op_name n = (if n = ARPOP_REVREQUEST then ''rev request'' else if n = ARPOP_REVREPLY then ''rev reply''
     else ''unknown request'')"

definition rarp_log_text :: "sys \<Rightarrow> rarp_header \<Rightarrow> string" where
  "rarp_log_text S r =
     ''rarp '' @ rarp_op_name (ra_op r) @ '' (0x'' @ show_hex (ra_op r) @ '')'' @ NL
     @ ''  from '' @ take 31 (s_ether_ntoa S (ra_saddr r)) @ '' to '' @ take 31 (s_ether_ntoa S (ra_daddr r)) @ NL
     @ ''  hardware '' @ hrd_name (ra_hrd r) @ '' (length '' @ show_nat (unat (ra_hln r)) @ ''), protocol ''
       @ pro_name (ra_pro r) @ '' (length '' @ show_nat (unat (ra_pln r)) @ '')'' @ NL
     @ ''  source '' @ take 31 (s_ether_ntoa S (ra_sha r)) @ '' '' @ take 31 (s_inet_ntoa S (ra_spa r)) @ NL
     @ ''  target '' @ take 31 (s_ether_ntoa S (ra_tha r)) @ '' '' @ take 31 (s_inet_ntoa S (ra_tpa r)) @ NL"

definition rarp_logpacket :: "sys \<Rightarrow> rarp_header \<Rightarrow> unit cmd" where
  "rarp_logpacket S r = log_msg (LOG_INFO OR LOG_BOOT) (rarp_log_text S r)"

definition rarp_updatetable :: "sys \<Rightarrow> ipaddr \<Rightarrow> etheraddr \<Rightarrow> unit cmd" where
  "rarp_updatetable S ip eth = bnd (asks (\<lambda>w. s_socket S (trace w))) (\<lambda>r. andthen (emit OpenSocket) (case r of
      None \<Rightarrow> log_msg (LOG_WARN OR LOG_DEV) ''socket(AF_INET, SOCK_DGRAM, 0): %s''
    | Some s \<Rightarrow> bnd (asks (\<lambda>w. s_arp_ioctl S (trace w))) (\<lambda>ok.
        andthen (if ok then emit (ArpSet ip eth) else log_msg (LOG_WARN OR LOG_DEV) ''SIOCSARP: %s'')
        (close_fd s))))"

definition rarp_reply :: "listener_t \<Rightarrow> host_t \<Rightarrow> rarp_header \<Rightarrow> rarp_header" where
  "rarp_reply l h req = \<lparr>ra_daddr = ra_saddr req, ra_saddr = l_eth l, ra_type = ETHERTYPE_REVARP,
     ra_hrd = ARPHRD_ETHER, ra_pro = ETHERTYPE_IP, ra_hln = 6, ra_pln = 4, ra_op = ARPOP_REVREPLY,
     ra_sha = l_eth l, ra_spa = l_ip l, ra_tha = ra_tha req, ra_tpa = h_ip h\<rparr>"

text \<open>
  The reply is padded to 60 bytes: the 18 bytes after the header are whatever the stack
  holds.
\<close>

definition rarp_answer :: "sys \<Rightarrow> addr \<Rightarrow> addr \<Rightarrow> rarp_header \<Rightarrow> unit cmd" where
  "rarp_answer S l a req = bnd (listener_get l) (\<lambda>r. bnd (host_get a) (\<lambda>h.
     if ra_op req = ARPOP_REVREQUEST then
       andthen (rarp_updatetable S (h_ip h) (h_eth h))
       (let npktlen = max 60 (int sizeof_rarp) in
        andthen (rarp_logpacket S (rarp_reply r h req))
        (bnd (asks (\<lambda>w. stack_buf S (trace w) 4096 (rarp_encode (rarp_reply r h req)))) (\<lambda>buf.
         bnd (listener_send S l None buf npktlen) (\<lambda>sent.
         if sent \<noteq> npktlen then log_msg (LOG_WARN OR LOG_BOOT) ''error sending rarp reply'' else ret ()))))
     else ret ()))"

definition rarp_request :: "sys \<Rightarrow> addr \<Rightarrow> rarp_header \<Rightarrow> unit cmd" where
  "rarp_request S l req =
     andthen (rarp_logpacket S req)
     (bnd (util_ether2host (ra_tha req)) (\<lambda>hp. case hp of
        None \<Rightarrow> log_msg (LOG_INFO OR LOG_BOOT) ''rarp request from host %s denied (client unknown)''
      | Some a \<Rightarrow> bnd (host_get a) (\<lambda>h.
          if h_service h AND SERVICE_RARP = 0 then
            log_msg (LOG_INFO OR LOG_BOOT)
              ''rarp request from host %s denied (rarp not allowed for this host)''
          else rarp_answer S l a req)))"

definition rarp_handler :: "sys \<Rightarrow> addr \<Rightarrow> u8 list \<Rightarrow> int \<Rightarrow> unit cmd" where
  "rarp_handler S l p pktlen =
     (if 0 \<le> pktlen \<and> pktlen < int (LIBNET_ETH_H + s_arp_hdr_size S) then ret ()
      else if length p < 20 then undef ''rarp: read past packet''
      else if \<not> is_rarp p then ret ()
      else bnd (deref ''rarp: read past packet'' (rarp_decode p)) (rarp_request S l))"

subsection \<open>Facts\<close>

definition rarp_wf :: "rarp_header \<Rightarrow> bool" where
  "rarp_wf r \<longleftrightarrow> length (ra_daddr r) = 6 \<and> length (ra_saddr r) = 6 \<and> ra_type r < 65536 \<and> ra_hrd r < 65536
     \<and> ra_pro r < 65536 \<and> ra_op r < 65536 \<and> length (ra_sha r) = 6 \<and> length (ra_spa r) = 4
     \<and> length (ra_tha r) = 6 \<and> length (ra_tpa r) = 4"

lemma length_rarp_encode: "rarp_wf r \<Longrightarrow> length (rarp_encode r) = 42"
  by (simp add: rarp_wf_def rarp_encode_def)

lemma list6: "length xs = 6 \<Longrightarrow> \<exists>a b c d e f. xs = [a, b, c, d, e, f]"
  by (auto simp: eval_nat_numeral length_Suc_conv)

lemma list4: "length xs = 4 \<Longrightarrow> \<exists>a b c d. xs = [a, b, c, d]"
  by (auto simp: eval_nat_numeral length_Suc_conv)

lemma rarp_decode_encode:
  assumes "rarp_wf r"
  shows "rarp_decode (rarp_encode r @ rest) = Some r"
proof -
  obtain d s sh sp th tp where parts: "ra_daddr r = d" "ra_saddr r = s" "ra_sha r = sh" "ra_spa r = sp"
    "ra_tha r = th" "ra_tpa r = tp" by simp
  have "length d = 6" "length s = 6" "length sh = 6" "length sp = 4" "length th = 6" "length tp = 4"
    using assms parts by (auto simp: rarp_wf_def)
  then show ?thesis
    using assms parts unfolding rarp_wf_def
    by (cases r) (auto dest!: list6 list4 simp: rarp_decode_def rarp_encode_def slice_def put16_def be16_put16)
qed

lemma is_rarp_encode:
  assumes "rarp_wf r"
  shows "is_rarp (rarp_encode r @ rest) \<longleftrightarrow> ra_type r = ETHERTYPE_REVARP \<and> ra_hrd r = ARPHRD_ETHER
     \<and> ra_pro r = ETHERTYPE_IP \<and> ra_hln r = 6 \<and> ra_pln r = 4"
proof -
  have "length (ra_daddr r) = 6" "length (ra_saddr r) = 6" using assms by (auto simp: rarp_wf_def)
  then obtain a b c d e f g h i j k l where "ra_daddr r = [a, b, c, d, e, f]" "ra_saddr r = [g, h, i, j, k, l]"
    by (metis list6)
  then show ?thesis
    using assms by (auto simp: rarp_wf_def is_rarp_def rarp_encode_def put16_def be16_put16)
qed

lemma rarp_reply_wf:
  "rarp_wf req \<Longrightarrow> length (l_eth r) = 6 \<Longrightarrow> length (l_ip r) = 4 \<Longrightarrow> length (h_ip h) = 4 \<Longrightarrow>
   rarp_wf (rarp_reply r h req)"
  by (simp add: rarp_wf_def rarp_reply_def)

text \<open>The buffer the answer is built in holds the reply, whatever the stack held before.\<close>

lemma rarp_reply_in_buffer:
  assumes "rarp_wf (rarp_reply r h req)"
  shows "rarp_decode (stack_buf S tr 4096 (rarp_encode (rarp_reply r h req))) = Some (rarp_reply r h req)"
proof -
  let ?e = "rarp_encode (rarp_reply r h req)"
  have "length ?e = 42" using assms by (rule length_rarp_encode)
  then have "stack_buf S tr 4096 ?e = ?e @ drop 42 (stack_buf S tr 4096 ?e)"
    by (simp add: stack_buf_def)
  then show ?thesis using rarp_decode_encode [OF assms] by metis
qed

lemma updatetable_runs:
  assumes "s_socket S (trace w) = Some s" "s_arp_ioctl S (trace w @ [OpenSocket])"
  shows "runs (rarp_updatetable S ip eth) w ()
     (w\<lparr>trace := trace w @ [OpenSocket, ArpSet ip eth, CloseFd s], fdtab := (fdtab w)(s := None)\<rparr>)"
  using assms by (simp add: rarp_updatetable_def bnd_run andthen_def runs_def close_fd_def)

text \<open>
  The answer to a request over a link listener: the ARP table is updated, and the reply is
  handed to a send function that refuses it, because 60 bytes are fewer than its minimum.
\<close>

lemma rarp_answer_runs:
  assumes l: "lheap w l = Some r" "l_send r = Some Link_send" and h: "hheap w a = Some h"
    and req: "ra_op req = ARPOP_REVREQUEST"
    and s: "s_socket S (trace w) = Some s" "s_arp_ioctl S (trace w @ [OpenSocket])"
  shows "runs (rarp_answer S l a req) w ()
     (w\<lparr>trace := trace w @ [OpenSocket, ArpSet (h_ip h) (h_eth h), CloseFd s], fdtab := (fdtab w)(s := None)\<rparr>)"
    (is "runs _ w () ?w")
proof -
  have snd: "runs (listener_send S l None (stack_buf S tr 4096 bs) 60) (?w\<lparr>logs := ls\<rparr>) (-1) ?w" for tr bs ls
    using link_send_short [of "?w\<lparr>logs := ls\<rparr>" l r 60 S None "stack_buf S tr 4096 bs"] l by simp
  have rest: "runs (andthen (rarp_logpacket S (rarp_reply r h req))
        (bnd (asks (\<lambda>w. stack_buf S (trace w) 4096 (rarp_encode (rarp_reply r h req)))) (\<lambda>buf.
         bnd (listener_send S l None buf 60) (\<lambda>sent.
         if sent \<noteq> 60 then log_msg (LOG_WARN OR LOG_BOOT) ''error sending rarp reply'' else ret ()))))
      (?w\<lparr>logs := ls\<rparr>) () ?w" for ls
    unfolding rarp_logpacket_def
    by (rule runs_andthen [OF runs_log_msg], simp, rule runs_asks, rule runs_bnd, simp only: logs_twice, rule snd)
      (simp add: runs_def log_msg_run)
  show ?thesis
    unfolding rarp_answer_def Let_def
    by (rule runs_bnd_Ret [where x = r], simp add: l, rule runs_bnd_Ret [where x = h], simp add: h,
        simp only: req simp_thms if_True, rule runs_andthen [OF updatetable_runs [OF s]])
      (use rest in \<open>simp add: max_def\<close>)
qed

lemma rarp_handler_request:
  assumes "rarp_wf req" "is_rarp (rarp_encode req @ rest)"
    and "int (LIBNET_ETH_H + s_arp_hdr_size S) \<le> pktlen"
  shows "rarp_handler S l (rarp_encode req @ rest) pktlen = rarp_request S l req"
  using assms length_rarp_encode [OF assms(1)] rarp_decode_encode [OF assms(1), of rest]
  by (simp add: rarp_handler_def)

lemma rarp_client_find:
  assumes h: "hosts w xs"
  shows "util_ether2host e (w\<lparr>logs := ls\<rparr>) = Ret (find (\<lambda>a. h_eth (host_at w a) = e) xs, w\<lparr>logs := ls\<rparr>)"
  using util_ether2host_run [of "w\<lparr>logs := ls\<rparr>" xs e] h by (simp add: hosts_def host_at_def)

text \<open>A request by an unknown client, or by one that may not use RARP, changes nothing.\<close>

lemma rarp_request_denied:
  assumes h: "hosts w xs"
    and d: "case find (\<lambda>a. h_eth (host_at w a) = ra_tha req) xs of
      None \<Rightarrow> True | Some a \<Rightarrow> h_service (host_at w a) AND SERVICE_RARP = 0"
  shows "runs (rarp_request S l req) w () w"
  unfolding rarp_request_def rarp_logpacket_def
proof (rule runs_andthen [OF runs_log_msg], simp, rule runs_bnd_Ret, rule rarp_client_find [OF h])
  fix ls
  show "runs (case find (\<lambda>a. h_eth (host_at w a) = ra_tha req) xs of
        None \<Rightarrow> log_msg (LOG_INFO OR LOG_BOOT) ''rarp request from host %s denied (client unknown)''
      | Some a \<Rightarrow> bnd (host_get a) (\<lambda>h.
          if h_service h AND SERVICE_RARP = 0 then
            log_msg (LOG_INFO OR LOG_BOOT)
              ''rarp request from host %s denied (rarp not allowed for this host)''
          else rarp_answer S l a req)) (w\<lparr>logs := ls\<rparr>) () w"
  proof (cases "find (\<lambda>a. h_eth (host_at w a) = ra_tha req) xs")
    case None
    then show ?thesis by (simp add: runs_def log_msg_run)
  next
    case (Some a)
    then have "hheap w a = Some (host_at w a)" by (auto simp: find_Some_iff intro: hosts_alloc [OF h])
    with Some d show ?thesis by (simp add: bnd_run runs_def log_msg_run)
  qed
qed

text \<open>A request by a host that may use RARP.\<close>

lemma rarp_request_runs:
  assumes h: "hosts w xs" and cl: "find (\<lambda>a. h_eth (host_at w a) = ra_tha req) xs = Some a"
    and sv: "h_service (host_at w a) AND SERVICE_RARP \<noteq> 0"
    and l: "lheap w l = Some r" "l_send r = Some Link_send" and req: "ra_op req = ARPOP_REVREQUEST"
    and s: "s_socket S (trace w) = Some s" "s_arp_ioctl S (trace w @ [OpenSocket])"
  shows "runs (rarp_request S l req) w ()
     (w\<lparr>trace := trace w @ [OpenSocket, ArpSet (h_ip (host_at w a)) (h_eth (host_at w a)), CloseFd s],
        fdtab := (fdtab w)(s := None)\<rparr>)" (is "runs _ w () ?w")
  unfolding rarp_request_def rarp_logpacket_def
proof (rule runs_andthen [OF runs_log_msg], simp, rule runs_bnd_Ret, rule rarp_client_find [OF h])
  fix ls
  have ha: "hheap w a = Some (host_at w a)" using cl by (auto simp: find_Some_iff intro: hosts_alloc [OF h])
  have "runs (rarp_answer S l a req) (w\<lparr>logs := ls\<rparr>) () ?w"
    by (rule runs_upto_logs [OF rarp_answer_runs [of "w\<lparr>logs := ls\<rparr>" l r a "host_at w a" req S s]])
      (use l ha req s in simp_all)
  with ha sv show "runs (case find (\<lambda>a. h_eth (host_at w a) = ra_tha req) xs of
        None \<Rightarrow> log_msg (LOG_INFO OR LOG_BOOT) ''rarp request from host %s denied (client unknown)''
      | Some a \<Rightarrow> bnd (host_get a) (\<lambda>h.
          if h_service h AND SERVICE_RARP = 0 then
            log_msg (LOG_INFO OR LOG_BOOT)
              ''rarp request from host %s denied (rarp not allowed for this host)''
          else rarp_answer S l a req)) (w\<lparr>logs := ls\<rparr>) () ?w"
    unfolding cl option.case by (auto intro!: runs_bnd_Ret)
qed

end
