(* ===== verification/Rmp.thy ===== *)
theory Rmp
  imports Host
begin

text \<open>
  \<open>src/rmp.c\<close> and \<open>src/rmp.h\<close>: the boot server of HP's remote maintenance protocol over the
  link listener. Frames are byte lists with the captured length beside them, replies are
  built in a buffer of 4096 bytes on the stack.
\<close>

subsection \<open>Constants\<close>

definition rmp_addr :: etheraddr where [simp]: "rmp_addr = [9, 0, 9, 0, 0, 4]"
definition SAP_HP :: u8 where [simp]: "SAP_HP = 0xF8"
definition CNTL_HP :: nat where [simp]: "CNTL_HP = 0x300"
definition DXSAP_HP :: nat where [simp]: "DXSAP_HP = 0x608"
definition SXSAP_HP :: nat where [simp]: "SXSAP_HP = 0x609"

definition RMPOP_BOOT_REQ :: u8 where [simp]: "RMPOP_BOOT_REQ = 1"
definition RMPOP_BOOT_REPL :: u8 where [simp]: "RMPOP_BOOT_REPL = 129"
definition RMPOP_READ_REQ :: u8 where [simp]: "RMPOP_READ_REQ = 2"
definition RMPOP_READ_REPL :: u8 where [simp]: "RMPOP_READ_REPL = 130"
definition RMPOP_BOOT_DONE :: u8 where [simp]: "RMPOP_BOOT_DONE = 3"

definition RMP_VERSION :: nat where [simp]: "RMP_VERSION = 2"
definition RMP_PROBESID :: nat where [simp]: "RMP_PROBESID = 0xffff"
definition RMP_MACHLEN :: nat where [simp]: "RMP_MACHLEN = 20"

definition RMP_E_OKAY :: u8 where [simp]: "RMP_E_OKAY = 0"
definition RMP_E_EOF :: u8 where [simp]: "RMP_E_EOF = 2"
definition RMP_E_ABORT :: u8 where [simp]: "RMP_E_ABORT = 3"
definition RMP_E_BUSY :: u8 where [simp]: "RMP_E_BUSY = 4"
definition RMP_E_NOFILE :: u8 where [simp]: "RMP_E_NOFILE = 16"
definition RMP_E_OPENFILE :: u8 where [simp]: "RMP_E_OPENFILE = 17"
definition RMP_E_NODFLT :: u8 where [simp]: "RMP_E_NODFLT = 18"
definition RMP_E_BADSID :: u8 where [simp]: "RMP_E_BADSID = 25"

definition RMP_BOOT_REPL :: nat where [simp]: "RMP_BOOT_REPL = 21"
definition RMP_READ_REPL :: nat where [simp]: "RMP_READ_REPL = 18"
definition RMP_READ_REPL_DATALEN :: nat where [simp]: "RMP_READ_REPL_DATALEN = 1514 - 14 - 18"

subsection \<open>The header\<close>

record rmp_header =
  rm_daddr :: etheraddr
  rm_saddr :: etheraddr
  rm_len :: nat
  rm_dsap :: u8
  rm_ssap :: u8
  rm_cntl :: nat
  rm_pad :: nat
  rm_dxsap :: nat
  rm_sxsap :: nat
  rm_type :: u8
  rm_retcode :: u8
  rm_seqh :: nat
  rm_seql :: nat
  rm_session :: nat

definition sizeof_rmp :: nat where [simp]: "sizeof_rmp = 32"

definition rmp_decode :: "u8 list \<Rightarrow> rmp_header option" where
  "rmp_decode p =
     (if length p < sizeof_rmp then None
      else Some \<lparr>rm_daddr = slice 0 6 p, rm_saddr = slice 6 6 p, rm_len = be16 (p ! 12) (p ! 13),
        rm_dsap = p ! 14, rm_ssap = p ! 15, rm_cntl = be16 (p ! 16) (p ! 17), rm_pad = be16 (p ! 18) (p ! 19),
        rm_dxsap = be16 (p ! 20) (p ! 21), rm_sxsap = be16 (p ! 22) (p ! 23), rm_type = p ! 24,
        rm_retcode = p ! 25, rm_seqh = be16 (p ! 26) (p ! 27), rm_seql = be16 (p ! 28) (p ! 29),
        rm_session = be16 (p ! 30) (p ! 31)\<rparr>)"

definition rmp_encode :: "rmp_header \<Rightarrow> u8 list" where
  "rmp_encode r = rm_daddr r @ rm_saddr r @ put16 (rm_len r) @ [rm_dsap r, rm_ssap r] @ put16 (rm_cntl r)
     @ put16 (rm_pad r) @ put16 (rm_dxsap r) @ put16 (rm_sxsap r) @ [rm_type r, rm_retcode r]
     @ put16 (rm_seqh r) @ put16 (rm_seql r) @ put16 (rm_session r)"

text \<open>\<open>ntohs(seqh) << 16 | ntohs(seql)\<close> in a 32-bit \<open>int\<close>: from \<open>seqh\<close> 0x8000 on it is negative.\<close>

definition rmp_seq :: "rmp_header \<Rightarrow> int" where
  "rmp_seq r = to_int32 (int (rm_seqh r) * 65536 + int (rm_seql r))"

definition for_us :: "listener_t \<Rightarrow> rmp_header \<Rightarrow> bool" where
  "for_us l r \<longleftrightarrow> (rm_daddr r = rmp_addr \<or> rm_daddr r = l_eth l) \<and> rm_dsap r = SAP_HP
     \<and> rm_cntl r = CNTL_HP \<and> rm_dxsap r = DXSAP_HP"

subsection \<open>Names in a request\<close>

definition rmp_machtype :: "u8 list \<Rightarrow> string" where
  "rmp_machtype m = map char_at (takeWhile (\<lambda>b. b \<noteq> 0x20 \<and> b \<noteq> 0) (take RMP_MACHLEN m))"

definition rmp_filename :: "nat \<Rightarrow> u8 list \<Rightarrow> string" where
  "rmp_filename n m = cstr (take n m)"

text \<open>
  The variable part of a boot request: version, machine type, length and bytes of the file
  name, at the offsets 32, 34, 54 and 55.
\<close>

definition boot_version :: "u8 list \<Rightarrow> nat option" where
  "boot_version p = rd16 p 32"

definition boot_machtype :: "u8 list \<Rightarrow> string option" where
  "boot_machtype p = (if length p < 54 then None else Some (rmp_machtype (slice 34 RMP_MACHLEN p)))"

definition boot_filename :: "u8 list \<Rightarrow> string option" where
  "boot_filename p = (case rd8 p 54 of
      None \<Rightarrow> None
    | Some n \<Rightarrow> if 55 + unat n > length p then None else Some (rmp_filename (unat n) (drop 55 p)))"

subsection \<open>Logging of frames\<close>

text \<open>The level of a read request or reply drops the category when the offset is not 0.\<close>

definition read_level :: "int \<Rightarrow> mask" where
  "read_level seq = (if seq \<noteq> 0 then LOG_DEBUG else LOG_INFO OR LOG_BOOT)"

definition RMP_E_TIMEOUT :: u8 where [simp]: "RMP_E_TIMEOUT = 5"
definition RMP_E_OPENDFLT :: u8 where [simp]: "RMP_E_OPENDFLT = 19"
definition RMP_E_BADPACKET :: u8 where [simp]: "RMP_E_BADPACKET = 27"

definition retcode_name :: "u8 \<Rightarrow> string" where
  "retcode_name c =
     (if c = RMP_E_OKAY then ''OK ''
      else if c = RMP_E_EOF then ''EOF ''
      else if c = RMP_E_ABORT then ''ABORT ''
      else if c = RMP_E_BUSY then ''BUSY ''
      else if c = RMP_E_TIMEOUT then ''LENGTHEN TIMEOUT ''
      else if c = RMP_E_NOFILE then ''NO FILE ''
      else if c = RMP_E_OPENFILE then ''OPEN FAILED ''
      else if c = RMP_E_NODFLT then ''NO DEFAULT FILE ''
      else if c = RMP_E_OPENDFLT then ''DEFAULT OPEN FAILED ''
      else if c = RMP_E_BADSID then ''BADSID ''
      else if c = RMP_E_BADPACKET then ''BADPACKET ''
      else '''')"

text \<open>What all lines have in common. The texts of the addresses fit in their arrays of 32 bytes.\<close>

definition rmp_log_head :: "sys \<Rightarrow> string \<Rightarrow> string \<Rightarrow> rmp_header \<Rightarrow> string" where
  "rmp_log_head S what indent r =
     ''rmp '' @ what @ '' (0x'' @ show_hex (unat (rm_type r)) @ '') '' @ show_nat (rm_len r) @ '' bytes'' @ NL
     @ indent @ ''from '' @ take 31 (s_ether_ntoa S (rm_saddr r)) @ '' to '' @ take 31 (s_ether_ntoa S (rm_daddr r)) @ NL
     @ ''  retcode '' @ retcode_name (rm_retcode r) @ ''('' @ show_nat (unat (rm_retcode r)) @ ''), sequence ''
     @ show_int (rmp_seq r) @ '', session '' @ show_nat (rm_session r)"

definition boot_req_spec :: "rmp_header \<Rightarrow> string" where
  "boot_req_spec r =
     (if rm_session r = RMP_PROBESID
      then (if rmp_seq r = 0 then ''boot request (send server id)'' else ''boot request (send filename)'')
      else ''boot request'')"

definition boot_repl_spec :: "rmp_header \<Rightarrow> string \<times> string" where
  "boot_repl_spec r =
     (if rm_session r = 0
      then (if rmp_seq r = 0 then (''boot reply (send server id)'', ''server'') else (''boot reply (send filename)'', ''filename''))
      else (''boot reply'', ''filename''))"

definition quoted :: "string \<Rightarrow> string" where
  "quoted s = CHR 0x22 # s @ [CHR 0x22]"

definition rmp_logpacket :: "sys \<Rightarrow> u8 list \<Rightarrow> unit cmd" where
  "rmp_logpacket S p = bnd (deref ''rmp: read past packet'' (rmp_decode p)) (\<lambda>r.
     if rm_type r = RMPOP_BOOT_REQ then
       bnd (deref ''rmp: read past packet'' (boot_version p)) (\<lambda>version.
       bnd (deref ''rmp: read past packet'' (boot_machtype p)) (\<lambda>machtype.
       bnd (deref ''rmp: read past packet'' (boot_filename p)) (\<lambda>filename.
       log_msg (LOG_INFO OR LOG_BOOT) (rmp_log_head S (boot_req_spec r) ''  '' r @ NL @ ''  version '' @ show_nat version
         @ '', machtype '' @ quoted machtype @ '', filename '' @ quoted filename))))
     else if rm_type r = RMPOP_BOOT_REPL then
       bnd (deref ''rmp: read past packet'' (boot_version p)) (\<lambda>version.
       bnd (deref ''rmp: read past packet'' (rd8 p 34)) (\<lambda>n.
       if 35 + unat n > length p then undef ''rmp: read past packet''
       else log_msg (LOG_INFO OR LOG_BOOT) (rmp_log_head S (fst (boot_repl_spec r)) ''  '' r @ NL @ ''  version ''
         @ show_nat version @ '', '' @ snd (boot_repl_spec r) @ '' '' @ quoted (rmp_filename (unat n) (drop 35 p)))))
     else if rm_type r = RMPOP_READ_REQ then
       bnd (deref ''rmp: read past packet'' (rd16 p 32)) (\<lambda>n.
       log_msg (read_level (rmp_seq r)) (rmp_log_head S ''read request'' ''  '' r @ NL @ ''  size '' @ show_nat n))
     else if rm_type r = RMPOP_READ_REPL then
       log_msg (read_level (rmp_seq r)) (rmp_log_head S ''read reply'' '''' r @ NL)
     else if rm_type r = RMPOP_BOOT_DONE then log_msg (LOG_INFO OR LOG_BOOT) (rmp_log_head S ''boot done'' ''  '' r)
     else log_msg (LOG_INFO OR LOG_BOOT) (rmp_log_head S ''unknown request'' ''  '' r))"

subsection \<open>Replies\<close>

definition rmp_reply :: "listener_t \<Rightarrow> rmp_header \<Rightarrow> rmp_header" where
  "rmp_reply l req = \<lparr>rm_daddr = rm_saddr req, rm_saddr = l_eth l, rm_len = 0, rm_dsap = SAP_HP,
     rm_ssap = SAP_HP, rm_cntl = CNTL_HP, rm_pad = 0, rm_dxsap = SXSAP_HP, rm_sxsap = DXSAP_HP,
     rm_type = 0, rm_retcode = RMP_E_OKAY, rm_seqh = rm_seqh req, rm_seql = rm_seql req,
     rm_session = rm_session req\<rparr>"

text \<open>
  The end of both replies: the length, which leaves out the 14 bytes of the Ethernet
  header, goes into the frame and is also the number of bytes sent.
\<close>

definition rmp_send :: "sys \<Rightarrow> addr \<Rightarrow> rmp_header \<Rightarrow> u8 list \<Rightarrow> int \<Rightarrow> unit cmd" where
  "rmp_send S l repl body npktlen =
     bnd (asks (\<lambda>w. stack_buf S (trace w) 4096 (rmp_encode (repl\<lparr>rm_len := nat npktlen\<rparr>) @ body))) (\<lambda>buf.
     andthen (rmp_logpacket S buf)
     (bnd (listener_send S l None buf npktlen) (\<lambda>sent.
      if sent \<noteq> npktlen then log_msg (LOG_WARN OR LOG_BOOT) ''error sending rmp reply'' else ret ())))"

text \<open>
  A probe asks for the server's name (sequence number 0) or for the name of the file
  \<open>seq - 1\<close>. The name's length is stored in 8 bits.
\<close>

definition rmp_probe_name :: "addr \<Rightarrow> addr \<Rightarrow> int \<Rightarrow> (string \<times> u8) cmd" where
  "rmp_probe_name l a seq =
     (if seq = 0 then bnd (listener_get l) (\<lambda>r.
        bnd (deref ''rmp: NULL listener name'' (l_name r)) (\<lambda>n. ret (n, RMP_E_OKAY)))
      else bnd (util_name2file (Some a) SERVICE_RMP None (seq - 1)) (\<lambda>f. case f of
          None \<Rightarrow> ret ('''', RMP_E_NODFLT)
        | Some f \<Rightarrow> bnd (deref ''rmp: NULL file name'' (f_name f)) (\<lambda>n. ret (n, RMP_E_OKAY))))"

definition rmp_probe :: "sys \<Rightarrow> addr \<Rightarrow> addr \<Rightarrow> rmp_header \<Rightarrow> rmp_header \<Rightarrow> unit cmd" where
  "rmp_probe S l a req repl = bnd (rmp_probe_name l a (rmp_seq req)) (\<lambda>(name, code).
     let size = word_of_nat (length name) :: u8 in
     if 35 + length name + 1 > 4096 then undef ''rmp: write past buf''
     else rmp_send S l (repl\<lparr>rm_type := RMPOP_BOOT_REPL, rm_retcode := code, rm_session := 0\<rparr>)
       (put16 RMP_VERSION @ [size] @ bytes name @ [0]) (int (RMP_BOOT_REPL + unat size)))"

text \<open>
  The normal boot request sets up the session and the reply, but sends nothing; its last
  statement logs \<open>f->path\<close>, also when \<open>f\<close> is NULL. The result is the header of the reply.
\<close>

definition rmp_open_error :: "errno \<Rightarrow> u8" where
  "rmp_open_error e = (case e of
      ENOENT \<Rightarrow> RMP_E_NOFILE
    | EMFILE \<Rightarrow> RMP_E_BUSY
    | ENFILE \<Rightarrow> RMP_E_BUSY
    | _ \<Rightarrow> RMP_E_OPENFILE)"

definition rmp_boot_file :: "sys \<Rightarrow> addr \<Rightarrow> file_t \<Rightarrow> rmp_header \<Rightarrow> int \<Rightarrow> rmp_header cmd" where
  "rmp_boot_file S a f repl sid =
     bnd (host_session_add S a SERVICE_RMP sid) (\<lambda>ok.
     bnd (if \<not> ok then ret (repl\<lparr>rm_retcode := RMP_E_BUSY\<rparr>)
          else bnd (open_rdonly S (f_path f)) (\<lambda>r. case r of
              Inl e \<Rightarrow>
                andthen (log_msg (LOG_WARN OR LOG_BOOT) ''open(%s, O_RDONLY): %s'')
                (andthen (session_set a (set_fd0 0))
                (ret (repl\<lparr>rm_retcode := rmp_open_error e\<rparr>)))
            | Inr fd \<Rightarrow>
                andthen (session_set a (set_fd0 fd))
                (ret (repl\<lparr>rm_session := nat (sid mod 65536)\<rparr>)))) (\<lambda>repl'.
     andthen (log_msg (LOG_INFO OR LOG_BOOT) ''sending file %s'') (ret repl')))"

definition rmp_boot :: "sys \<Rightarrow> addr \<Rightarrow> u8 list \<Rightarrow> rmp_header \<Rightarrow> rmp_header cmd" where
  "rmp_boot S a p repl =
     bnd (deref ''rmp: read past packet'' (boot_filename p)) (\<lambda>filename.
     bnd (util_name2file (Some a) SERVICE_RMP (Some filename) 0) (\<lambda>r. case r of
       None \<Rightarrow> undef ''rmp: f->path with f NULL''
     | Some f \<Rightarrow>
         bnd (modify (\<lambda>w. w\<lparr>rmp_sid := to_int32 (rmp_sid w + 1)\<rparr>)) (\<lambda>_.
         bnd (asks rmp_sid) (rmp_boot_file S a f repl))))"

definition rmp_boot_req :: "sys \<Rightarrow> addr \<Rightarrow> addr \<Rightarrow> u8 list \<Rightarrow> rmp_header \<Rightarrow> rmp_header \<Rightarrow> unit cmd" where
  "rmp_boot_req S l a p req repl = bnd (deref ''rmp: read past packet'' (boot_version p)) (\<lambda>v.
     if v \<noteq> RMP_VERSION then
       log_msg (LOG_INFO OR LOG_BOOT) ''rmp request from host %s denied (version %d not supported)''
     else if rm_session req = RMP_PROBESID then rmp_probe S l a req repl
     else bnd (rmp_boot S a p (repl\<lparr>rm_type := RMPOP_BOOT_REPL\<rparr>)) (\<lambda>_. ret ()))"

text \<open>A read request: at most 1482 bytes of the file from the offset, and a return code.\<close>

definition rmp_read :: "sys \<Rightarrow> addr \<Rightarrow> u8 list \<Rightarrow> rmp_header \<Rightarrow> (u8 \<times> int \<times> u8 list) cmd" where
  "rmp_read S a p req =
     bnd (host_session_check S a SERVICE_RMP (int (rm_session req))) (\<lambda>e.
     if e = E_NOSESSION then ret (RMP_E_ABORT, 0, [])
     else if e = E_BADSID then ret (RMP_E_BADSID, 0, [])
     else if e = E_NOERROR then
       bnd (deref ''rmp: read past packet'' (rd16 p 32)) (\<lambda>n.
       bnd (session_fd0 a) (\<lambda>fd.
       bnd (util_read S fd (min n RMP_READ_REPL_DATALEN) (rmp_seq req)) (\<lambda>(size, d).
       ret (if size < 0 then RMP_E_ABORT else if size = 0 then RMP_E_EOF else RMP_E_OKAY, size, d))))
     else ret (RMP_E_ABORT, 0, []))"

definition rmp_read_req :: "sys \<Rightarrow> addr \<Rightarrow> addr \<Rightarrow> u8 list \<Rightarrow> rmp_header \<Rightarrow> rmp_header \<Rightarrow> unit cmd" where
  "rmp_read_req S l a p req repl = bnd (rmp_read S a p req) (\<lambda>(code, size, d).
     rmp_send S l (repl\<lparr>rm_type := RMPOP_READ_REPL, rm_retcode := code\<rparr>) d (int RMP_READ_REPL + size))"

subsection \<open>The handler\<close>

definition rmp_switch :: "sys \<Rightarrow> addr \<Rightarrow> addr \<Rightarrow> u8 list \<Rightarrow> rmp_header \<Rightarrow> unit cmd" where
  "rmp_switch S l a p req = bnd (listener_get l) (\<lambda>r. let repl = rmp_reply r req in
     if rm_type req = RMPOP_BOOT_REQ then rmp_boot_req S l a p req repl
     else if rm_type req = RMPOP_READ_REQ then rmp_read_req S l a p req repl
     else if rm_type req = RMPOP_BOOT_DONE then host_session_delete (Some a) ''boot done''
     else ret ())"

text \<open>
  The client: the host with the frame's source address, or, for a boot request, a copy of
  the host named like the machine type.
\<close>

definition rmp_client :: "sys \<Rightarrow> u8 list \<Rightarrow> rmp_header \<Rightarrow> addr option cmd" where
  "rmp_client S p req = bnd (util_ether2host (rm_saddr req)) (\<lambda>hp. case hp of
      Some a \<Rightarrow> ret (Some a)
    | None \<Rightarrow>
        bnd (if rm_type req = RMPOP_BOOT_REQ
             then bnd (deref ''rmp: read past packet'' (boot_machtype p)) util_name2host
             else ret None) (\<lambda>m. case m of
          Some src \<Rightarrow> bnd (host_clone S src None (Some (rm_saddr req)) None) (\<lambda>a. ret (Some a))
        | None \<Rightarrow>
            andthen (log_msg (LOG_INFO OR LOG_BOOT) ''rmp request from host %s denied (client unknown)'')
              (ret None)))"

definition rmp_for_client :: "sys \<Rightarrow> addr \<Rightarrow> u8 list \<Rightarrow> rmp_header \<Rightarrow> unit cmd" where
  "rmp_for_client S l p req = bnd (rmp_client S p req) (\<lambda>hp. case hp of
      None \<Rightarrow> ret ()
    | Some a \<Rightarrow> bnd (host_get a) (\<lambda>h.
        if h_service h AND SERVICE_RMP = 0 then
          log_msg (LOG_INFO OR LOG_BOOT) ''rmp request from host %s denied (rmp not allowed for this host)''
        else rmp_switch S l a p req))"

definition rmp_handler :: "sys \<Rightarrow> addr \<Rightarrow> u8 list \<Rightarrow> int \<Rightarrow> unit cmd" where
  "rmp_handler S l p pktlen =
     (if 0 \<le> pktlen \<and> pktlen < int sizeof_rmp then ret ()
      else bnd (deref ''rmp: read past packet'' (rmp_decode p)) (\<lambda>req.
        bnd (listener_get l) (\<lambda>r.
        if \<not> for_us r req then ret ()
        else andthen (rmp_logpacket S p) (rmp_for_client S l p req))))"

subsection \<open>Facts: headers\<close>

definition rmp_wf :: "rmp_header \<Rightarrow> bool" where
  "rmp_wf r \<longleftrightarrow> length (rm_daddr r) = 6 \<and> length (rm_saddr r) = 6 \<and> rm_len r < 65536 \<and> rm_cntl r < 65536
     \<and> rm_pad r < 65536 \<and> rm_dxsap r < 65536 \<and> rm_sxsap r < 65536 \<and> rm_seqh r < 65536
     \<and> rm_seql r < 65536 \<and> rm_session r < 65536"

lemma length_rmp_encode: "rmp_wf r \<Longrightarrow> length (rmp_encode r) = 32"
  by (simp add: rmp_wf_def rmp_encode_def)

lemma six_bytes: "length xs = 6 \<Longrightarrow> \<exists>a b c d e f. xs = [a, b, c, d, e, f]"
  by (auto simp: eval_nat_numeral length_Suc_conv)

lemma rmp_decode_encode:
  assumes "rmp_wf r"
  shows "rmp_decode (rmp_encode r @ rest) = Some r"
proof -
  obtain a b c d e f g h i j k l where "rm_daddr r = [a, b, c, d, e, f]" "rm_saddr r = [g, h, i, j, k, l]"
    using assms six_bytes unfolding rmp_wf_def by metis
  then show ?thesis
    using assms unfolding rmp_wf_def
    by (cases r) (simp add: rmp_decode_def rmp_encode_def slice_def put16_def be16_put16)
qed

lemma rmp_decode_wf: "rmp_decode p = Some r \<Longrightarrow> rmp_wf r"
  by (auto simp: rmp_decode_def rmp_wf_def be16_bound split: if_splits)

lemma rmp_reply_wf: "rmp_wf req \<Longrightarrow> length (l_eth l) = 6 \<Longrightarrow> rmp_wf (rmp_reply l req)"
  by (simp add: rmp_wf_def rmp_reply_def)

lemma rmp_wf_updates [simp]:
  "rmp_wf r \<Longrightarrow> n < 65536 \<Longrightarrow> rmp_wf (r\<lparr>rm_len := n\<rparr>)"
  "rmp_wf r \<Longrightarrow> n < 65536 \<Longrightarrow> rmp_wf (r\<lparr>rm_session := n\<rparr>)"
  "rmp_wf r \<Longrightarrow> rmp_wf (r\<lparr>rm_type := t\<rparr>)"
  "rmp_wf r \<Longrightarrow> rmp_wf (r\<lparr>rm_retcode := c\<rparr>)"
  by (simp_all add: rmp_wf_def)

text \<open>Frames for another protocol or another station are ignored.\<close>

lemma rmp_not_for_us:
  assumes "rmp_decode p = Some req" "lheap w l = Some r" "\<not> for_us r req"
  shows "rmp_handler S l p pktlen w = Ret ((), w)"
  using assms by (simp add: rmp_handler_def bnd_run)

subsection \<open>Facts: sending\<close>

lemma rmp_log_reply:
  assumes wf: "rmp_wf r" and ty: "rm_type r = RMPOP_READ_REPL \<or> rm_type r = RMPOP_BOOT_REPL"
  shows "runs (rmp_logpacket S (stack_buf S tr 4096 (rmp_encode r @ body))) (w\<lparr>logs := ls\<rparr>) () w"
proof -
  let ?b = "stack_buf S tr 4096 (rmp_encode r @ body)"
  have "length (rmp_encode r) = 32" by (rule length_rmp_encode [OF wf])
  then have "?b = rmp_encode r @ drop 32 ?b" by (simp add: stack_buf_def)
  then have d: "rmp_decode ?b = Some r" using rmp_decode_encode [OF wf] by metis
  have n: "35 + unat (x :: u8) \<le> 4096" for x
    using unsigned_less [of x, where ?'a = nat] by simp
  have lv: "read_level q AND LOG_LEVEL \<noteq> LOG_ERR" for q by (simp add: read_level_def)
  have log: "runs (log_msg what fmt) (w\<lparr>logs := ls\<rparr>) () w" if "what AND LOG_LEVEL \<noteq> LOG_ERR" for what fmt
    by (rule runs_upto_logs [OF runs_log_msg [OF that]]) simp
  have n: "\<not> 35 + unat (x :: u8) > 4096" for x using n [of x] by simp
  show ?thesis
    using ty
  proof
    assume "rm_type r = RMPOP_READ_REPL"
    then show ?thesis using log [OF lv] by (simp add: rmp_logpacket_def d)
  next
    assume "rm_type r = RMPOP_BOOT_REPL"
    moreover have "rd8 ?b 34 = Some (?b ! 34)" "boot_version ?b = Some (be16 (?b ! 32) (?b ! 33))"
      by (simp_all add: rd8_def boot_version_def rd16_def)
    ultimately show ?thesis using log n by (simp add: rmp_logpacket_def d)
  qed
qed

text \<open>
  A reply leaves as its first \<open>n\<close> bytes, header included; fewer than 62 are not sent.
\<close>

lemma rmp_send_runs:
  assumes l: "lheap w l = Some r" "l_send r = Some Link_send"
    and wf: "rmp_wf repl" "rm_type repl = RMPOP_READ_REPL \<or> rm_type repl = RMPOP_BOOT_REPL"
    and n: "0 \<le> n" "nat n \<le> 32 + length body" "nat n \<le> 4096"
  shows "runs (rmp_send S l repl body n) w ()
     (if n < 62 then w
      else w\<lparr>trace := trace w @ [SendLink (l_device r) (take (nat n) (rmp_encode (repl\<lparr>rm_len := nat n\<rparr>) @ body))]\<rparr>)"
    (is "runs _ w () ?w")
proof -
  let ?r = "repl\<lparr>rm_len := nat n\<rparr>"
  let ?b = "stack_buf S (trace w) 4096 (rmp_encode ?r @ body)"
  have wf': "rmp_wf ?r" using wf(1) n by simp
  have tk: "take (nat n) ?b = take (nat n) (rmp_encode ?r @ body)"
    using length_rmp_encode [OF wf'] n by (simp add: stack_buf_def min_def) arith
  have log: "runs (rmp_logpacket S ?b) w () w"
    using rmp_log_reply [OF wf', of S "trace w" body "logs w" w] wf(2) by simp
  have snd: "\<exists>x. runs (listener_send S l None ?b n) (w\<lparr>logs := ls\<rparr>) x ?w" for ls
  proof (cases "n < 62")
    case True
    with link_send_short [of "w\<lparr>logs := ls\<rparr>" l r n S None ?b] l show ?thesis by auto
  next
    case False
    have "runs (listener_send S l None ?b n) (w\<lparr>logs := ls\<rparr>)
        (s_sent S (trace (w\<lparr>logs := ls\<rparr>)) (take (nat n) ?b))
        ((w\<lparr>logs := ls\<rparr>)\<lparr>trace := trace (w\<lparr>logs := ls\<rparr>) @ [SendLink (l_device r) (take (nat n) ?b)]\<rparr>)"
      by (rule link_send_runs) (use False l n in auto)
    then have "runs (listener_send S l None ?b n) (w\<lparr>logs := ls\<rparr>)
        (s_sent S (trace (w\<lparr>logs := ls\<rparr>)) (take (nat n) ?b)) ?w"
      by (rule runs_upto_logs) (use False in \<open>simp add: tk\<close>)
    then show ?thesis ..
  qed
  have fin: "runs (if x \<noteq> n then log_msg (LOG_WARN OR LOG_BOOT) ''error sending rmp reply'' else ret ())
      (v\<lparr>logs := ls\<rparr>) () v" for x v ls
    by (simp add: runs_def log_msg_run)
  show ?thesis
    unfolding rmp_send_def
  proof (rule runs_asks, rule runs_andthen [OF log])
    fix ls
    obtain x where x: "runs (listener_send S l None ?b n) (w\<lparr>logs := ls\<rparr>) x ?w" using snd by blast
    show "runs (bnd (listener_send S l None ?b n) (\<lambda>sent.
        if sent \<noteq> n then log_msg (LOG_WARN OR LOG_BOOT) ''error sending rmp reply'' else ret ())) (w\<lparr>logs := ls\<rparr>) () ?w"
      by (rule runs_bnd [OF x]) (rule fin)
  qed
qed

subsection \<open>Facts: read requests\<close>

text \<open>Every branch of a read request: the return code, the size and the bytes read.\<close>

definition rmp_session :: "world \<Rightarrow> addr \<Rightarrow> int \<Rightarrow> int \<Rightarrow> bool" where
  "rmp_session w a sid fd \<longleftrightarrow> (\<exists>p s. h_session (host_at w a) = Some p \<and> sheap w p = Some s
     \<and> s_service s = SERVICE_RMP \<and> s_sid s = sid \<and> s_fd s ! 0 = fd)"

lemma rmp_read_no_session:
  assumes "hheap w a = Some h" "h_session h = None"
  shows "runs (rmp_read S a p req) w (RMP_E_ABORT, 0, []) w"
  using assms by (simp add: rmp_read_def host_session_check_def bnd_run andthen_def runs_def log_msg_run)

lemma rmp_read_bad_sid:
  assumes "hheap w a = Some h" "h_session h = Some q" "sheap w q = Some s" "s_service s = SERVICE_RMP"
    and "s_sid s \<noteq> int (rm_session req)"
  shows "runs (rmp_read S a p req) w (RMP_E_BADSID, 0, []) w"
  using assms by (simp add: rmp_read_def host_session_check_def bnd_run andthen_def runs_def log_msg_run)

text \<open>The bytes of the file from the offset, and the code for them.\<close>

definition rmp_chunk :: "u8 list \<Rightarrow> int \<Rightarrow> nat \<Rightarrow> u8 list" where
  "rmp_chunk c offs n = take (min n RMP_READ_REPL_DATALEN) (drop (nat offs) c)"

definition chunk_code :: "u8 list \<Rightarrow> u8" where
  "chunk_code d = (if d = [] then RMP_E_EOF else RMP_E_OKAY)"

lemma rmp_read_ok:
  assumes h: "hheap w a = Some h" "h_session h = Some q" "sheap w q = Some s" "s_service s = SERVICE_RMP"
    and sid: "s_sid s = int (rm_session req)" and n: "rd16 p 32 = Some n"
    and fd: "fdtab w (s_fd s ! 0) = Some c" "\<not> s_lseek_fails S (trace w) (s_fd s ! 0)"
      "\<not> s_read_fails S (trace w) (s_fd s ! 0)" and seq: "0 \<le> rmp_seq req"
  shows "runs (rmp_read S a p req) w
     (chunk_code (rmp_chunk c (rmp_seq req) n), int (length (rmp_chunk c (rmp_seq req) n)), rmp_chunk c (rmp_seq req) n)
     (w\<lparr>sheap := (sheap w)(q \<mapsto> s\<lparr>s_atime := to_int32 (s_time S (trace w))\<rparr>),
        trace := trace w @ [ReadAt (s_fd s ! 0) (rmp_seq req) (min n RMP_READ_REPL_DATALEN)]\<rparr>)"
proof -
  let ?w = "w\<lparr>sheap := (sheap w)(q \<mapsto> s\<lparr>s_atime := to_int32 (s_time S (trace w))\<rparr>)\<rparr>"
  let ?d = "rmp_chunk c (rmp_seq req) n"
  have chk: "host_session_check S a SERVICE_RMP (int (rm_session req)) w = Ret (E_NOERROR, ?w)"
    using session_check_ok [OF h(1,2,3,4) sid [symmetric, THEN sym]] by simp
  have fd0: "session_fd0 a ?w = Ret (s_fd s ! 0, ?w)"
    using h by (simp add: session_fd0_def bnd_run)
  have i32: "to_int32 (rmp_seq req) = rmp_seq req"
    unfolding rmp_seq_def by (rule to_int32_id [OF to_int32_range])
  have rd: "util_read S (s_fd s ! 0) (min n RMP_READ_REPL_DATALEN) (rmp_seq req) ?w
      = Ret ((int (length ?d), ?d), ?w\<lparr>trace := trace w @ [ReadAt (s_fd s ! 0) (rmp_seq req) (min n RMP_READ_REPL_DATALEN)]\<rparr>)"
    using fd seq i32 by (simp add: util_read_def bnd_run andthen_def Let_def rmp_chunk_def)
  have "rmp_read S a p req w = Ret ((chunk_code ?d, int (length ?d), ?d),
      ?w\<lparr>trace := trace w @ [ReadAt (s_fd s ! 0) (rmp_seq req) (min n RMP_READ_REPL_DATALEN)]\<rparr>)"
    using n unfolding rmp_read_def
    by (simp add: chk bnd_run fd0 rd chunk_code_def del: SERVICE_RMP_def RMP_READ_REPL_DATALEN_def)
  then show ?thesis by (simp add: runs_def)
qed

lemma length_rmp_chunk: "length (rmp_chunk c offs n) \<le> 1482"
  by (simp add: rmp_chunk_def)

text \<open>
  The answer to a read request over a link listener: the frame has room for the header and
  all bytes but the last 14, which are lost; below 44 bytes of data nothing is sent.
\<close>

definition read_reply :: "listener_t \<Rightarrow> rmp_header \<Rightarrow> u8 list \<Rightarrow> rmp_header" where
  "read_reply r req d = (rmp_reply r req)\<lparr>rm_type := RMPOP_READ_REPL, rm_retcode := chunk_code d,
     rm_len := 18 + length d\<rparr>"

lemma rmp_read_reply_runs:
  assumes l: "lheap w l = Some r" "l_send r = Some Link_send" "length (l_eth r) = 6" and wf: "rmp_wf req"
    and rd: "runs (rmp_read S a p req) w (chunk_code d, int (length d), d) w1" "lheap w1 = lheap w"
    and len: "length d \<le> 1482"
  shows "runs (rmp_read_req S l a p req (rmp_reply r req)) w ()
     (if length d < 44 then w1
      else w1\<lparr>trace := trace w1 @ [SendLink (l_device r)
        (rmp_encode (read_reply r req d) @ take (length d - 14) d)]\<rparr>)" (is "runs _ w () ?w")
proof -
  let ?repl = "(rmp_reply r req)\<lparr>rm_type := RMPOP_READ_REPL, rm_retcode := chunk_code d\<rparr>"
  have wf': "rmp_wf ?repl" using rmp_reply_wf [OF wf l(3)] by simp
  have ln: "nat (int RMP_READ_REPL + int (length d)) = 18 + length d" by simp
  have snd: "runs (rmp_send S l ?repl d (int RMP_READ_REPL + int (length d))) (w1\<lparr>logs := ls\<rparr>) () ?w" for ls
  proof (rule runs_upto_logs)
    show "runs (rmp_send S l ?repl d (int RMP_READ_REPL + int (length d))) (w1\<lparr>logs := ls\<rparr>) ()
      (if int RMP_READ_REPL + int (length d) < 62 then w1\<lparr>logs := ls\<rparr>
       else (w1\<lparr>logs := ls\<rparr>)\<lparr>trace := trace (w1\<lparr>logs := ls\<rparr>) @ [SendLink (l_device r)
        (take (nat (int RMP_READ_REPL + int (length d)))
          (rmp_encode (?repl\<lparr>rm_len := nat (int RMP_READ_REPL + int (length d))\<rparr>) @ d))]\<rparr>)"
      by (rule rmp_send_runs) (use l rd(2) wf' len in auto)
    have "length (rmp_encode (read_reply r req d)) = 32"
      by (rule length_rmp_encode) (use wf' len in \<open>simp add: read_reply_def\<close>)
    then show "(if int RMP_READ_REPL + int (length d) < 62 then w1\<lparr>logs := ls\<rparr>
       else (w1\<lparr>logs := ls\<rparr>)\<lparr>trace := trace (w1\<lparr>logs := ls\<rparr>) @ [SendLink (l_device r)
        (take (nat (int RMP_READ_REPL + int (length d)))
          (rmp_encode (?repl\<lparr>rm_len := nat (int RMP_READ_REPL + int (length d))\<rparr>) @ d))]\<rparr>)\<lparr>logs := []\<rparr> = ?w\<lparr>logs := []\<rparr>"
      unfolding ln by (auto simp: read_reply_def nat_add_distrib)
  qed
  show ?thesis
    unfolding rmp_read_req_def by (rule runs_bnd [OF rd(1)]) (use snd in simp)
qed

subsection \<open>Facts: boot requests\<close>

text \<open>A normal boot request for a file the host does not have reads through a NULL pointer.\<close>

lemma rmp_boot_no_file:
  assumes "hheap w a = Some h" "boot_filename p = Some name"
    and "file_passes file_ranks SERVICE_RMP (Some name) (h_files h) 0 = None"
  shows "rmp_boot S a p repl w = Undef ''rmp: f->path with f NULL''"
  using assms by (simp add: rmp_boot_def util_name2file_def bnd_run)

text \<open>
  A normal boot request that succeeds: the file is opened and the session carries the new
  id, but no frame is sent, so that the client never learns the id.
\<close>

lemma rmp_boot_runs:
  assumes st: "session_state w xs" and a: "a \<in> set xs" and name: "boot_filename p = Some name"
    and f: "file_passes file_ranks SERVICE_RMP (Some name) (h_files (host_at w a)) 0 = Some f" "f_path f = Some path"
    and opn: "s_open S (trace w) path = Inr (fd, c)"
    and room: "fst (spec_add (s_time S (trace w)) (c_session_timeout w) (c_session_max w) a SERVICE_RMP
        (to_int32 (rmp_sid w + 1)) (table w xs))"
  shows "\<exists>w'. runs (rmp_boot S a p repl) w (repl\<lparr>rm_session := nat (to_int32 (rmp_sid w + 1) mod 65536)\<rparr>) w'
     \<and> (rmp_session w' a (to_int32 (rmp_sid w + 1)) fd \<and> fdtab w' fd = Some c \<and> trace w' = trace w @ [OpenFile path])"
proof -
  let ?sid = "to_int32 (rmp_sid w + 1)"
  let ?w = "w\<lparr>rmp_sid := ?sid\<rparr>"
  have ha: "hheap w a = Some (host_at w a)" using hosts_alloc [OF frame_hosts [OF st]] a by simp
  have st0: "session_state ?w xs" using st by simp
  obtain w1 h1 q where add: "runs (host_session_add S a SERVICE_RMP ?sid) ?w True w1"
    and st1: "session_state w1 xs" and fr: "session_frame ?w w1"
    and h1: "hheap w1 a = Some h1" "h_session h1 = Some q"
      "sheap w1 q = Some (fresh_session SERVICE_RMP (s_time S (trace w)) ?sid)"
    by (rule session_add_new [OF st0 a, of S SERVICE_RMP ?sid]) (use room in simp_all)
  have eqs: "trace w1 = trace w" using fr by (simp add: session_frame_def)
  let ?s = "set_fd0 fd (fresh_session SERVICE_RMP (s_time S (trace w)) ?sid)"
  define w2 where "w2 = w1\<lparr>trace := trace w @ [OpenFile path], fdtab := (fdtab w1)(fd \<mapsto> c), sheap := (sheap w1)(q \<mapsto> ?s)\<rparr>"
  have "runs (rmp_boot_file S a f repl ?sid) ?w (repl\<lparr>rm_session := nat (?sid mod 65536)\<rparr>) w2"
    unfolding rmp_boot_file_def
  proof (rule runs_bnd [OF add])
    fix ls
    have o: "open_rdonly S (Some path) (w1\<lparr>logs := ls\<rparr>) = Ret (Inr fd, w1\<lparr>logs := ls, trace := trace w @ [OpenFile path],
        fdtab := (fdtab w1)(fd \<mapsto> c)\<rparr>)"
      using open_rdonly_run [of S "w1\<lparr>logs := ls\<rparr>" path fd c] opn eqs by simp
    show "runs (bnd (if \<not> True then ret (repl\<lparr>rm_retcode := RMP_E_BUSY\<rparr>)
          else bnd (open_rdonly S (f_path f)) (\<lambda>r. case r of
              Inl e \<Rightarrow>
                andthen (log_msg (LOG_WARN OR LOG_BOOT) ''open(%s, O_RDONLY): %s'')
                (andthen (session_set a (set_fd0 0))
                (ret (repl\<lparr>rm_retcode := rmp_open_error e\<rparr>)))
            | Inr fd \<Rightarrow>
                andthen (session_set a (set_fd0 fd))
                (ret (repl\<lparr>rm_session := nat (?sid mod 65536)\<rparr>)))) (\<lambda>repl'.
     andthen (log_msg (LOG_INFO OR LOG_BOOT) ''sending file %s'') (ret repl'))) (w1\<lparr>logs := ls\<rparr>)
      (repl\<lparr>rm_session := nat (?sid mod 65536)\<rparr>) w2"
      using f(2) h1 by (simp add: o bnd_run andthen_def session_set_run runs_def log_msg_run w2_def)
  qed
  then have "runs (rmp_boot S a p repl) w (repl\<lparr>rm_session := nat (?sid mod 65536)\<rparr>) w2"
    using ha f(1) name by (simp add: rmp_boot_def util_name2file_def bnd_run runs_def)
  moreover have "rmp_session w2 a ?sid fd"
    using h1 by (simp add: rmp_session_def w2_def host_at_def fresh_session_def set_fd0_def session_new_def)
  ultimately show ?thesis by (auto simp: w2_def)
qed

subsection \<open>Facts: probes\<close>

text \<open>The files a probe can name: those the host may load over RMP, in the order of its list.\<close>

definition rmp_files :: "host_t \<Rightarrow> file_t list" where
  "rmp_files h = filter (\<lambda>f. f_service f AND SERVICE_RMP \<noteq> 0) (h_files h)"

lemma ranked_any: "ranked file_ranks m None ns = filter (\<lambda>n. f_service n AND m \<noteq> 0) ns"
proof -
  have one: "filter (\<lambda>n. i_file_match n m None = 1) ns = filter (\<lambda>n. f_service n AND m \<noteq> 0) ns"
    by (rule filter_cong) (simp_all add: i_file_match_def)
  have "filter (\<lambda>n. i_file_match n m None = i) ns = []" if "1 < i" for i
    using that by (simp add: filter_empty_conv i_file_match_def)
  then show ?thesis using one by (simp add: ranked_def file_ranks_def)
qed

lemma probe_name_file:
  assumes "hheap w a = Some h"
  shows "rmp_probe_name l a (int k + 1) w =
     (if k < length (rmp_files h) then bnd (deref ''rmp: NULL file name'' (f_name (rmp_files h ! k))) (\<lambda>n. ret (n, RMP_E_OKAY)) w
      else Ret (('''', RMP_E_NODFLT), w))"
  using assms by (simp add: rmp_probe_name_def util_name2file_def bnd_run file_passes_ranked ranked_any rmp_files_def
      del: SERVICE_RMP_def)

lemma probe_name_server:
  "lheap w l = Some r \<Longrightarrow> l_name r = Some n \<Longrightarrow> rmp_probe_name l a 0 w = Ret ((n, RMP_E_OKAY), w)"
  by (simp add: rmp_probe_name_def bnd_run)

definition probe_reply :: "listener_t \<Rightarrow> rmp_header \<Rightarrow> u8 \<Rightarrow> nat \<Rightarrow> rmp_header" where
  "probe_reply r req rc n = (rmp_reply r req)\<lparr>rm_type := RMPOP_BOOT_REPL, rm_retcode := rc, rm_session := 0,
     rm_len := n\<rparr>"

text \<open>
  The answer to a probe. It is cut by the 14 bytes of the Ethernet header, and an answer with
  a name of 40 characters or less is never sent.
\<close>

lemma rmp_probe_runs:
  assumes l: "lheap w l = Some r" "l_send r = Some Link_send" "length (l_eth r) = 6" and wf: "rmp_wf req"
    and name: "rmp_probe_name l a (rmp_seq req) w = Ret ((name, rc), w)" and len: "length name < 256"
  shows "runs (rmp_probe S l a req (rmp_reply r req)) w ()
     (if length name \<le> 40 then w
      else w\<lparr>trace := trace w @ [SendLink (l_device r) (take (21 + length name)
        (rmp_encode (probe_reply r req rc (21 + length name)) @ put16 RMP_VERSION
          @ [word_of_nat (length name)] @ bytes name @ [0]))]\<rparr>)" (is "runs _ w () ?w")
proof -
  let ?repl = "(rmp_reply r req)\<lparr>rm_type := RMPOP_BOOT_REPL, rm_retcode := rc, rm_session := 0\<rparr>"
  let ?body = "put16 RMP_VERSION @ [word_of_nat (length name)] @ bytes name @ [0]"
  have size: "unat (word_of_nat (length name) :: u8) = length name"
    using len by (simp add: unsigned_of_nat take_bit_eq_mod)
  have "rmp_wf ?repl" using wf l(3) by (simp add: rmp_wf_def rmp_reply_def)
  then have "runs (rmp_send S l ?repl ?body (int (21 + length name))) w ()
     (if int (21 + length name) < 62 then w
      else w\<lparr>trace := trace w @ [SendLink (l_device r) (take (nat (int (21 + length name)))
        (rmp_encode (?repl\<lparr>rm_len := nat (int (21 + length name))\<rparr>) @ ?body))]\<rparr>)"
    by (rule rmp_send_runs [OF l(1,2)]) (use len in simp_all)
  moreover have "int (21 + length name) < 62 \<longleftrightarrow> length name \<le> 40" by arith
  ultimately have "runs (rmp_send S l ?repl ?body (int (21 + length name))) w () ?w"
    by (simp only: nat_int probe_reply_def)
  then show ?thesis
    unfolding rmp_probe_def
    by (intro runs_bnd_Ret [of _ w "(name, rc)" w]) (use name len size in \<open>simp_all add: Let_def\<close>)
qed

end
