(* ===== verification/Dhcp.thy ===== *)
theory Dhcp
  imports Listener
begin

text \<open>
  \<open>src/dhcp.c\<close> and \<open>src/dhcp.h\<close>: the BOOTP handler, which checks a request against the
  configuration and logs it, and answers nothing.
\<close>

definition DHCPOP_BOOTREQUEST :: u8 where [simp]: "DHCPOP_BOOTREQUEST = 1"

text \<open>
  \<open>strlen\<close> of a field: it runs on over the following bytes of the receive buffer, and off
  its end when there is no zero byte.
\<close>

definition field_strlen :: "u8 list \<Rightarrow> nat \<Rightarrow> nat outcome" where
  "field_strlen p offs =
     (let s = takeWhile (\<lambda>b. b \<noteq> 0) (drop offs p)
      in if offs + length s \<ge> length p then Undef ''dhcp: read past packet'' else Ret (length s))"

text \<open>The fields \<open>sname[64]\<close> at offset 44 and \<open>file[128]\<close> at offset 108.\<close>

definition malformed :: "u8 list \<Rightarrow> bool outcome" where
  "malformed p = obind (field_strlen p 44) (\<lambda>n.
     if n > 64 then Ret True else obind (field_strlen p 108) (\<lambda>m. Ret (m > 128)))"

definition dhcp_sname :: "u8 list \<Rightarrow> string" where
  "dhcp_sname p = cstr (drop 44 p)"

definition dhcp_client :: "u8 list \<Rightarrow> unit cmd" where
  "dhcp_client p = bnd (util_ether2host (slice 28 6 p)) (\<lambda>hp. case hp of
      None \<Rightarrow> log_msg (LOG_INFO OR LOG_BOOT) ''dhcp request from host %s denied (client unknown)''
    | Some a \<Rightarrow> bnd (host_get a) (\<lambda>h.
        if p ! 0 = DHCPOP_BOOTREQUEST then
          (if h_service h AND SERVICE_DHCP = 0 then
             log_msg (LOG_INFO OR LOG_BOOT)
               ''bootp request from host %s denied (bootp not allowed for this host)''
           else ret ())
        else log_msg (LOG_INFO OR LOG_BOOT) ''dhcp request from host %s denied (unknown opcode %d)''))"

definition dhcp_handler :: "addr \<Rightarrow> u8 list \<Rightarrow> unit cmd" where
  "dhcp_handler l p =
     (if length p < 300 then undef ''dhcp: read past packet''
      else if unat (p ! 3) > 16 then log_msg (LOG_DEV OR LOG_INFO) ''dhcp request: max hop count exceeded''
      else bnd (lift (malformed p)) (\<lambda>bad.
        if bad then log_msg (LOG_DEV OR LOG_WARN) ''malformed dhcp packet''
        else bnd (listener_get l) (\<lambda>r.
          if p ! 44 \<noteq> 0 then
            bnd (deref ''dhcp: strcmp with NULL name'' (l_name r)) (\<lambda>n.
            if dhcp_sname p \<noteq> n
            then log_msg (LOG_DEV OR LOG_INFO) ''dhcp request for other server (%s)''
            else dhcp_client p)
          else dhcp_client p)))"

text \<open>Whatever the packet is, the daemon does nothing but log.\<close>

definition only_log :: "world \<Rightarrow> world \<Rightarrow> bool" where
  "only_log w0 w \<longleftrightarrow> w\<lparr>logs := []\<rparr> = w0\<lparr>logs := []\<rparr>"

lemma only_log_logs [simp]: "only_log w0 (w\<lparr>logs := ls\<rparr>) = only_log w0 w"
  by (simp add: only_log_def)

lemma keeps_dhcp_handler: "keeps (only_log w0) (dhcp_handler l p)"
  unfolding dhcp_handler_def dhcp_client_def util_ether2host_def
  by (auto intro!: keeps_rules split: option.splits)

lemma dhcp_only_logs: "dhcp_handler l p w = Ret (x, w') \<Longrightarrow> w'\<lparr>logs := []\<rparr> = w\<lparr>logs := []\<rparr>"
  using keepsD [OF keeps_dhcp_handler, of l p w x w' w] by (simp add: only_log_def)

end
