(* ===== verification/Bootparam.thy ===== *)
theory Bootparam
  imports Listener
begin

text \<open>
  \<open>src/bootparam.c\<close>: the two procedures of the bootparam RPC program. A NULL result is
  \<open>None\<close>; the RPC library then sends no reply. The listener is searched by the value of
  \<open>xp_port\<close> of the transport.
\<close>

record whoami_res =
  wr_client_name :: "string option"
  wr_domain_name :: string
  wr_router_address :: ipaddr

record getfile_res =
  gr_server_name :: "string option"
  gr_server_path :: "string option"
  gr_server_address :: ipaddr

definition bootparam_host :: "addr option \<Rightarrow> host_t option cmd" where
  "bootparam_host hp = (case hp of
      None \<Rightarrow> andthen (log_msg (LOG_INFO OR LOG_BOOT)
          ''bootparam request from host %s denied (client unknown)'') (ret None)
    | Some a \<Rightarrow> bnd (host_get a) (\<lambda>h.
        if h_service h AND SERVICE_BOOTPARM = 0 then
          andthen (log_msg (LOG_INFO OR LOG_BOOT)
            ''bootparam request from host %s denied (bootparam not allowed for this host)'') (ret None)
        else ret (Some h)))"

definition bootparam_listener :: "int \<Rightarrow> listener_t option cmd" where
  "bootparam_listener fd = bnd (listener_search_by_fd fd) (\<lambda>lp. case lp of
      None \<Rightarrow> andthen (log_msg (LOG_WARN OR LOG_DEV) ''bootparamprog: listener_search_by_fd() failed'') (ret None)
    | Some l \<Rightarrow> bnd (listener_get l) (\<lambda>r. ret (Some r)))"

definition bootparamproc_whoami :: "ipaddr \<Rightarrow> int \<Rightarrow> whoami_res option cmd" where
  "bootparamproc_whoami ip xp_port =
     andthen (log_msg (LOG_INFO OR LOG_BOOT) ''bootparam whoami request from %s ipaddress %s'')
     (bnd (util_ip2host ip) (\<lambda>hp. bnd (bootparam_host hp) (\<lambda>ho. case ho of
        None \<Rightarrow> ret None
      | Some h \<Rightarrow> bnd (bootparam_listener xp_port) (\<lambda>lo. case lo of
          None \<Rightarrow> ret None
        | Some r \<Rightarrow>
            andthen (log_msg (LOG_INFO OR LOG_BOOT) ''bootparam whoami reply to %s'')
            (ret (Some \<lparr>wr_client_name = h_name h, wr_domain_name = '''', wr_router_address = l_ip r\<rparr>))))))"

definition bootparamproc_getfile :: "string \<Rightarrow> string \<Rightarrow> int \<Rightarrow> getfile_res option cmd" where
  "bootparamproc_getfile client_name file_id xp_port =
     andthen (log_msg (LOG_INFO OR LOG_BOOT) ''bootparam getfile request from %s client_name %s, file_id %s'')
     (bnd (util_name2host client_name) (\<lambda>hp. bnd (bootparam_host hp) (\<lambda>ho. case ho of
        None \<Rightarrow> ret None
      | Some h \<Rightarrow> bnd (util_name2file hp SERVICE_BOOTPARM (Some file_id) 0) (\<lambda>fo. case fo of
          None \<Rightarrow> ret None
        | Some f \<Rightarrow> bnd (bootparam_listener xp_port) (\<lambda>lo. case lo of
            None \<Rightarrow> ret None
          | Some r \<Rightarrow>
              andthen (log_msg (LOG_INFO OR LOG_BOOT) ''bootparam getfile reply from %s to %s'')
              (ret (Some \<lparr>gr_server_name = f_server f, gr_server_path = f_path f, gr_server_address = l_ip r\<rparr>)))))))"

subsection \<open>Facts\<close>

lemma bootparam_host_Ret:
  assumes "bootparam_host hp w = Ret (Some h, w')"
  shows "w' = w \<and> (\<exists>a. hp = Some a \<and> hheap w a = Some h) \<and> h_service h AND SERVICE_BOOTPARM \<noteq> 0"
  using assms by (auto simp: bootparam_host_def bnd_Ret_iff andthen_Ret_iff store_Ret_iff
      split: option.splits if_splits)

lemma bootparam_listener_Ret:
  "bootparam_listener fd w = Ret (Some r, w') \<Longrightarrow> w' = w \<and> (\<exists>l. lheap w l = Some r \<and> l_fd r = fd)"
  by (auto simp: bootparam_listener_def listener_search_by_fd_def ll_find_def bnd_Ret_iff andthen_Ret_iff
      store_Ret_iff lift_def dest!: walk_Hit split: option.splits outcome.splits walk.splits)

lemma host_scan_hit:
  "host_scan P w = Ret (Some a, w') \<Longrightarrow> w' = w \<and> (\<exists>h. hheap w a = Some h \<and> P h)"
  by (auto simp: host_scan_def ll_find_def bnd_Ret_iff lift_def dest: walk_Hit
      split: option.splits outcome.splits walk.splits)

text \<open>Only a configured host that may use bootparam gets an answer, and the answer is its own.\<close>

lemma whoami_answer:
  assumes "bootparamproc_whoami ip xp_port w = Ret (Some res, w')"
  shows "\<exists>a h l r. hheap w a = Some h \<and> h_ip h = ip \<and> h_service h AND SERVICE_BOOTPARM \<noteq> 0
     \<and> lheap w l = Some r \<and> l_fd r = xp_port
     \<and> res = \<lparr>wr_client_name = h_name h, wr_domain_name = '''', wr_router_address = l_ip r\<rparr>"
proof -
  obtain w1 hp w2 h w3 r w4 where
    log: "log_msg (LOG_INFO OR LOG_BOOT) ''bootparam whoami request from %s ipaddress %s'' w = Ret ((), w1)"
    and hp: "util_ip2host ip w1 = Ret (hp, w2)" and ho: "bootparam_host hp w2 = Ret (Some h, w3)"
    and lo: "bootparam_listener xp_port w3 = Ret (Some r, w4)"
    and res: "res = \<lparr>wr_client_name = h_name h, wr_domain_name = '''', wr_router_address = l_ip r\<rparr>"
    using assms
    by (auto simp: bootparamproc_whoami_def bnd_Ret_iff andthen_unit_Ret split: option.splits
        simp del: LOG_INFO_def LOG_BOOT_def)
  obtain ls where w1: "w1 = w\<lparr>logs := ls\<rparr>" using log_msg_Ret [OF log] by blast
  obtain a where a: "w3 = w2" "hp = Some a" "hheap w2 a = Some h" "h_service h AND SERVICE_BOOTPARM \<noteq> 0"
    using bootparam_host_Ret [OF ho] by blast
  have s: "w2 = w1" "h_ip h = ip"
    using host_scan_hit [OF hp [unfolded util_ip2host_def a(2)]] a(3) by auto
  obtain l where "lheap w3 l = Some r" "l_fd r = xp_port" using bootparam_listener_Ret [OF lo] by blast
  with a s res w1 show ?thesis by auto
qed

lemma name2host_hit:
  assumes "util_name2host name w = Ret (Some a, w')"
  shows "w' = w \<and> (\<exists>h n. hheap w a = Some h \<and> h_name h = Some n \<and> strcaseeq name n)"
proof -
  obtain w1 where s: "host_scan (\<lambda>h. case h_name h of None \<Rightarrow> True | Some n \<Rightarrow> strcaseeq name n) w = Ret (Some a, w1)"
    "w' = w1" and n: "\<exists>h n. hheap w1 a = Some h \<and> h_name h = Some n"
    using assms by (auto simp: util_name2host_def bnd_Ret_iff store_Ret_iff split: option.splits if_splits)
  from host_scan_hit [OF s(1)] n s(2) show ?thesis by auto
qed

lemma getfile_answer:
  assumes "bootparamproc_getfile client file_id xp_port w = Ret (Some res, w')"
  shows "\<exists>a h n f l r. hheap w a = Some h \<and> h_name h = Some n \<and> strcaseeq client n
     \<and> h_service h AND SERVICE_BOOTPARM \<noteq> 0 \<and> f \<in> set (h_files h) \<and> f_service f AND SERVICE_BOOTPARM \<noteq> 0
     \<and> lheap w l = Some r \<and> l_fd r = xp_port
     \<and> res = \<lparr>gr_server_name = f_server f, gr_server_path = f_path f, gr_server_address = l_ip r\<rparr>"
proof -
  obtain w1 hp w2 h w3 f w4 r w5 where
    log: "log_msg (LOG_INFO OR LOG_BOOT) ''bootparam getfile request from %s client_name %s, file_id %s'' w = Ret ((), w1)"
    and hp: "util_name2host client w1 = Ret (hp, w2)" and ho: "bootparam_host hp w2 = Ret (Some h, w3)"
    and fo: "util_name2file hp SERVICE_BOOTPARM (Some file_id) 0 w3 = Ret (Some f, w4)"
    and lo: "bootparam_listener xp_port w4 = Ret (Some r, w5)"
    and res: "res = \<lparr>gr_server_name = f_server f, gr_server_path = f_path f, gr_server_address = l_ip r\<rparr>"
    using assms
    by (auto simp: bootparamproc_getfile_def bnd_Ret_iff andthen_unit_Ret split: option.splits
        simp del: LOG_INFO_def LOG_BOOT_def SERVICE_BOOTPARM_def)
  obtain ls where w1: "w1 = w\<lparr>logs := ls\<rparr>" using log_msg_Ret [OF log] by blast
  obtain a where a: "w3 = w2" "hp = Some a" "hheap w2 a = Some h" "h_service h AND SERVICE_BOOTPARM \<noteq> 0"
    using bootparam_host_Ret [OF ho] by blast
  obtain n where n: "w2 = w1" "h_name h = Some n" "strcaseeq client n"
    using name2host_hit [OF hp [unfolded a(2)]] a(3) by auto
  have f: "w4 = w3" "f \<in> set (h_files h)" "f_service f AND SERVICE_BOOTPARM \<noteq> 0"
    using name2file_allowed [OF fo [unfolded a(2)]] a(1,3) by (auto simp: host_at_def)
  obtain l where "lheap w4 l = Some r" "l_fd r = xp_port" using bootparam_listener_Ret [OF lo] by blast
  with a n f res w1 show ?thesis
    by (intro exI [of _ a] exI [of _ h] exI [of _ n] exI [of _ f] exI [of _ l] exI [of _ r]) simp
qed

end
