(* ===== verification/Dispatch.thy ===== *)
theory Dispatch
  imports Tftp Rarp Rmp Dhcp Bootparam
begin

text \<open>
  \<open>src/listener.c\<close>, the receive functions and the event loop, which hand packets to the
  handlers of the services.
\<close>

subsection \<open>Link listeners\<close>

text \<open>
  The callback of \<open>pcap_loop\<close>: the frame type, or the DSAP of an 802.2 frame, selects the
  handler. The frame is its captured bytes, with the length on the wire beside it.
\<close>

definition i_listener_link_pcap_callback :: "sys \<Rightarrow> addr \<Rightarrow> u8 list \<Rightarrow> int \<Rightarrow> unit cmd" where
  "i_listener_link_pcap_callback S l pkt len = bnd (deref ''pcap callback: read past packet'' (rd16 pkt 12)) (\<lambda>t.
     if t = ETHERTYPE_REVARP then
       andthen (log_msg (LOG_DEBUG OR LOG_DEV) ''lnet recv revarp %s -> %s (%d)'') (rarp_handler S l pkt len)
     else if t < 1536 then
       bnd (deref ''pcap callback: read past packet'' (rd8 pkt 14)) (\<lambda>dsap.
       if dsap = SAP_HP then
         andthen (log_msg (LOG_DEBUG OR LOG_DEV) ''lnet recv sap_hp %s -> %s (%d)'') (rmp_handler S l pkt len)
       else ret ())
     else ret ())"

definition i_listener_link_receive :: "sys \<Rightarrow> addr \<Rightarrow> unit cmd" where
  "i_listener_link_receive S l = bnd (listener_get l) (\<lambda>r.
     bnd (asks (\<lambda>w. s_frame S (trace w) (l_device r))) (\<lambda>f. case f of
       None \<Rightarrow> ret ()
     | Some (pkt, len) \<Rightarrow> i_listener_link_pcap_callback S l pkt len))"

subsection \<open>UDP listeners\<close>

text \<open>The call \<open>l->service(l, &sai_from, &sai_to, buf, len)\<close>.\<close>

definition call_service ::
  "sys \<Rightarrow> service_fn \<Rightarrow> addr \<Rightarrow> sockaddr_in \<Rightarrow> sockaddr_in \<Rightarrow> u8 list \<Rightarrow> int \<Rightarrow> unit cmd" where
  "call_service S f l from dst buf len = (case f of
      Tftp_handler \<Rightarrow> tftp_handler S l from dst buf len
    | Dhcp_handler \<Rightarrow> dhcp_handler l buf
    | Rarp_handler \<Rightarrow> rarp_handler S l buf len
    | Rmp_handler \<Rightarrow> rmp_handler S l buf len)"

definition i_listener_udp_receive :: "sys \<Rightarrow> addr \<Rightarrow> unit cmd" where
  "i_listener_udp_receive S l = bnd (listener_get l) (\<lambda>r.
     bnd (asks trace) (\<lambda>tr. case s_recvfrom S tr (l_fd r) of
       No_data \<Rightarrow> ret ()
     | Recv_failed \<Rightarrow> log_msg (LOG_WARN OR LOG_DEV) ''recvfrom(%s): %s''
     | Datagram from bs \<Rightarrow>
         let len = min 4096 (length bs); buf = stack_buf S tr 4096 (take len bs) in
         (case s_sockname S tr (l_fd r) of
            None \<Rightarrow> log_msg (LOG_WARN OR LOG_DEV) ''getsockname(): %s''
          | Some dst \<Rightarrow>
              andthen (log_msg (LOG_DEBUG OR LOG_DEV) ''udp recv %s -> %s (%d)'')
              (case l_service r of
                 None \<Rightarrow> log_msg (LOG_WARN OR LOG_DEV)
                   ''%s request from host %s to %s rejected (no service handler)''
               | Some f \<Rightarrow> call_service S f l from dst buf (int len)))))"

subsection \<open>RPC listeners\<close>

text \<open>
  The RPC library reads and decodes the call, calls the procedure and sends its result back.
  \<open>s_rpc_call\<close> is the call it finds on the descriptor.
\<close>

definition i_listener_rpc_udp_receive :: "sys \<Rightarrow> addr \<Rightarrow> unit cmd" where
  "i_listener_rpc_udp_receive S l = bnd (listener_get l) (\<lambda>r.
     if \<not> s_svc_fd S (l_fd r) then log_msg (LOG_WARN OR LOG_DEV) ''listener_rcp_handler: %d is not an rpc fd''
     else bnd (asks (\<lambda>w. s_rpc_call S (trace w) (l_fd r))) (\<lambda>c. case c of
         None \<Rightarrow> ret ()
       | Some (Whoami ip xp_port) \<Rightarrow> bnd (bootparamproc_whoami ip xp_port) (\<lambda>_. ret ())
       | Some (Getfile name file xp_port) \<Rightarrow> bnd (bootparamproc_getfile name file xp_port) (\<lambda>_. ret ())))"

subsection \<open>The event loop\<close>

definition listener_receive :: "sys \<Rightarrow> addr \<Rightarrow> unit cmd" where
  "listener_receive S l = bnd (listener_get l) (\<lambda>r. case l_receive r of
      None \<Rightarrow> undef ''NULL receive function''
    | Some Link_receive \<Rightarrow> i_listener_link_receive S l
    | Some Udp_receive \<Rightarrow> i_listener_udp_receive S l
    | Some Rpc_udp_receive \<Rightarrow> i_listener_rpc_udp_receive S l)"

text \<open>
  The second loop of \<open>listener_select\<close>. The next pointer is read after the receive function
  has run, so a listener that deletes itself is read after its end. The list may grow while
  it is walked: \<open>n\<close> bounds the number of turns.
\<close>

definition serve :: "sys \<Rightarrow> int list \<Rightarrow> addr \<Rightarrow> unit cmd" where
  "serve S ready a = bnd (listener_get a) (\<lambda>r.
     if l_fd r \<ge> 0 \<and> l_fd r \<in> set ready then listener_receive S a else ret ())"

fun select_loop :: "nat \<Rightarrow> sys \<Rightarrow> int list \<Rightarrow> addr option \<Rightarrow> unit cmd" where
  "select_loop n S ready None = ret ()"
| "select_loop 0 S ready (Some a) = lift Loop"
| "select_loop (Suc n) S ready (Some a) = andthen (serve S ready a)
     (bnd (listener_get a) (\<lambda>r. select_loop n S ready (l_next r)))"

text \<open>\<open>FD_SET\<close> writes a set of 1024 bits.\<close>

definition FD_SETSIZE :: int where [simp]: "FD_SETSIZE = 1024"

definition listener_select :: "sys \<Rightarrow> nat \<Rightarrow> unit cmd" where
  "listener_select S n =
     bnd (asks (\<lambda>w. ll_nodes (lheap w) l_next (g_listeners w))) (\<lambda>nodes. bnd (lift nodes) (\<lambda>as.
     bnd (asks (\<lambda>w. filter (\<lambda>fd. 0 \<le> fd) (map (\<lambda>a. l_fd (listener_at w a)) as))) (\<lambda>fds.
     if \<exists>fd \<in> set fds. fd \<ge> FD_SETSIZE then undef ''FD_SET: descriptor too big''
     else bnd (asks (\<lambda>w. s_select S (trace w) fds)) (\<lambda>r. case r of
         Interrupted \<Rightarrow> ret ()
       | Wait_failed \<Rightarrow> log_msg (LOG_WARN OR LOG_DEV) ''select: %s''
       | Ready ready \<Rightarrow> bnd (asks g_listeners) (select_loop n S ready)))))"

subsection \<open>Facts: which handler gets a frame\<close>

lemma callback_rarp:
  assumes "rarp_wf r" "ra_type r = ETHERTYPE_REVARP"
  shows "i_listener_link_pcap_callback S l (rarp_encode r @ rest) len =
     andthen (log_msg (LOG_DEBUG OR LOG_DEV) ''lnet recv revarp %s -> %s (%d)'')
       (rarp_handler S l (rarp_encode r @ rest) len)"
proof -
  obtain a b c d e f g h i j k m where "ra_daddr r = [a, b, c, d, e, f]" "ra_saddr r = [g, h, i, j, k, m]"
    using assms(1) list6 unfolding rarp_wf_def by metis
  then have "rd16 (rarp_encode r @ rest) 12 = Some (ra_type r)"
    using assms(1) by (simp add: rd16_def rarp_encode_def put16_def be16_put16 rarp_wf_def)
  then show ?thesis using assms(2) by (simp add: i_listener_link_pcap_callback_def)
qed

lemma callback_rmp:
  assumes "rmp_wf r" "rm_len r < 1536"
  shows "i_listener_link_pcap_callback S l (rmp_encode r @ rest) len =
     (if rm_dsap r = SAP_HP then andthen (log_msg (LOG_DEBUG OR LOG_DEV) ''lnet recv sap_hp %s -> %s (%d)'')
       (rmp_handler S l (rmp_encode r @ rest) len) else ret ())"
proof -
  obtain a b c d e f g h i j k m where "rm_daddr r = [a, b, c, d, e, f]" "rm_saddr r = [g, h, i, j, k, m]"
    using assms(1) list6 unfolding rmp_wf_def by metis
  then have "rd16 (rmp_encode r @ rest) 12 = Some (rm_len r)" "rd8 (rmp_encode r @ rest) 14 = Some (rm_dsap r)"
    using assms by (simp_all add: rd16_def rd8_def rmp_encode_def put16_def be16_put16 rmp_wf_def)
  then show ?thesis using assms(2) by (simp add: i_listener_link_pcap_callback_def)
qed

text \<open>Every other frame is dropped without a trace.\<close>

lemma callback_other:
  assumes "rd16 pkt 12 = Some t" "t \<noteq> ETHERTYPE_REVARP" "1536 \<le> t"
  shows "i_listener_link_pcap_callback S l pkt len w = Ret ((), w)"
  using assms by (simp add: i_listener_link_pcap_callback_def)

subsection \<open>Facts: the event loop\<close>

text \<open>
  As long as the receive functions that run leave the listeners alone, one pass serves every
  ready listener once, in the order of the list, and the length of the list is enough fuel.
\<close>

lemma select_loop_each:
  assumes "chain h l_next p xs"
    and "\<And>a. a \<in> set xs \<Longrightarrow> keeps (\<lambda>v. lheap v = h) (serve S ready a)"
    and "length xs \<le> n" and "lheap w = h"
  shows "select_loop n S ready p w = each (serve S ready) xs w"
  using assms
proof (induction xs arbitrary: p n w)
  case Nil
  then show ?case by simp
next
  case (Cons a xs)
  obtain r :: listener_t where a: "p = Some a" "h a = Some r" "chain h l_next (l_next r) xs"
    using Cons.prems(1) by (auto split: option.splits)
  obtain m where m: "n = Suc m" "length xs \<le> m" using Cons.prems(3) by (cases n) auto
  have rest: "bnd (listener_get a) (\<lambda>r. select_loop m S ready (l_next r)) w1 = each (serve S ready) xs w1"
    if "lheap w1 = h" for w1
    using Cons.IH [OF a(3) Cons.prems(2) m(2) that] a(2) that by (simp add: bnd_run)
  show ?case
  proof (cases "serve S ready a w")
    case (Ret y)
    then obtain w1 where r: "serve S ready a w = Ret ((), w1)" by (cases y) auto
    have "lheap w1 = h" using keepsD [of "\<lambda>v. lheap v = h" "serve S ready a" w "()" w1] Cons.prems(2,4) r by simp
    then show ?thesis using r rest [of w1] by (simp add: a(1) m(1) andthen_def bnd_run)
  qed (simp_all add: a(1) m(1) andthen_def bnd_run)
qed

definition no_big_fd :: "world \<Rightarrow> addr list \<Rightarrow> bool" where
  "no_big_fd w xs \<longleftrightarrow> (\<forall>a \<in> set xs. l_fd (listener_at w a) < FD_SETSIZE)"

definition open_fds :: "world \<Rightarrow> addr list \<Rightarrow> int list" where
  "open_fds w xs = filter (\<lambda>fd. 0 \<le> fd) (map (\<lambda>a. l_fd (listener_at w a)) xs)"

lemma listener_select_serves:
  assumes "listeners w xs" "no_big_fd w xs" "s_select S (trace w) (open_fds w xs) = Ready ready"
    and "\<And>a. a \<in> set xs \<Longrightarrow> keeps (\<lambda>v. lheap v = lheap w) (serve S ready a)"
    and "length xs \<le> n"
  shows "listener_select S n w = each (serve S ready) xs w"
proof -
  have "ll_nodes (lheap w) l_next (g_listeners w) = Ret xs"
    using assms(1) by (simp add: listeners_def ll_nodes_chain)
  moreover have "\<not> (\<exists>fd \<in> set (open_fds w xs). fd \<ge> FD_SETSIZE)"
    using assms(2) by (auto simp: open_fds_def no_big_fd_def)
  moreover have "select_loop n S ready (g_listeners w) w = each (serve S ready) xs w"
    by (rule select_loop_each [OF _ assms(4,5) refl]) (use assms(1) in \<open>simp_all add: listeners_def\<close>)
  ultimately show ?thesis
    using assms(3) by (simp add: listener_select_def open_fds_def [symmetric] bnd_run)
qed

text \<open>A turn without events, or one that is interrupted, changes nothing.\<close>

lemma serve_idle: "lheap w a = Some r \<Longrightarrow> l_fd r \<notin> set ready \<Longrightarrow> serve S ready a w = Ret ((), w)"
  by (simp add: serve_def bnd_run)

lemma each_serve_idle:
  "(\<And>a. a \<in> set xs \<Longrightarrow> \<exists>r. lheap w a = Some r \<and> l_fd r \<notin> set ready) \<Longrightarrow>
   each (serve S ready) xs w = Ret ((), w)"
proof (induction xs)
  case Nil
  then show ?case by simp
next
  case (Cons a xs)
  then obtain r :: listener_t where "lheap w a = Some r" "l_fd r \<notin> set ready" by auto
  with Cons show ?case by (simp add: andthen_def bnd_run serve_idle)
qed

lemma each_append: "each f (us @ vs) = andthen (each f us) (each f vs)"
proof (induction us)
  case Nil
  show ?case by (simp only: each_simps append_Nil andthen_def bnd_simps)
next
  case (Cons u us)
  then show ?case by (simp add: andthen_def bnd_assoc)
qed

text \<open>One ready descriptor: its listener's receive function runs, and no other.\<close>

lemma each_serve_one:
  assumes xs: "xs = ys @ a # zs" and r: "lheap w a = Some r" "l_fd r = fd" "0 \<le> fd"
    and others: "\<And>b. b \<in> set ys \<union> set zs \<Longrightarrow> \<exists>q. lheap w b = Some q \<and> l_fd q \<noteq> fd"
    and run: "listener_receive S a w = Ret ((), w')" and same: "lheap w' = lheap w"
  shows "each (serve S [fd]) xs w = Ret ((), w')"
proof -
  have "each (serve S [fd]) ys w = Ret ((), w)"
    using others by (intro each_serve_idle) auto
  moreover have "serve S [fd] a w = Ret ((), w')"
    using r run by (simp add: serve_def bnd_run)
  moreover have "each (serve S [fd]) zs w' = Ret ((), w')"
    using others same by (intro each_serve_idle) auto
  ultimately show ?thesis by (simp add: xs each_append andthen_def bnd_run)
qed

end
