(* ===== verification/Bootd.thy ===== *)
theory Bootd
  imports Conf Dispatch
begin

text \<open>
  \<open>src/bootd.c\<close>: the start of the daemon and its loop, with \<open>util_stats\<close> and
  \<open>util_cleanup\<close> of \<open>src/util.c\<close>.
\<close>

text \<open>
  The packet counters of the link listeners, as \<open>int\<close> sums. The statistics of a listener's
  pcap handle are an answer of the system.
\<close>

fun sum_stats :: "sys \<Rightarrow> addr list \<Rightarrow> int \<Rightarrow> int \<Rightarrow> (int \<times> int) cmd" where
  "sum_stats S [] received dropped = ret (received, dropped)"
| "sum_stats S (a # as) received dropped = bnd (listener_get a) (\<lambda>l.
     if l_type l AND LISTEN_LINK \<noteq> 0
     then bnd (asks (\<lambda>w. s_pcap_stats S (trace w) (l_device l))) (\<lambda>(r, d).
       sum_stats S as (to_int32 (received + r)) (to_int32 (dropped + d)))
     else sum_stats S as received dropped)"

definition util_stats :: "sys \<Rightarrow> unit cmd" where
  "util_stats S = bnd (asks (\<lambda>w. ll_nodes (lheap w) l_next (g_listeners w))) (\<lambda>nodes. bnd (lift nodes) (\<lambda>as.
     bnd (sum_stats S as 0 0) (\<lambda>(received, dropped).
     log_msg (LOG_INFO OR LOG_MISC) (''exiting'' @ [char_of (10 :: nat)] @ ''  '' @ show_int received
       @ '' bytes received by filter'' @ [char_of (10 :: nat)] @ ''  '' @ show_int dropped @ '' packets dropped by kernel''))))"

definition util_cleanup :: "unit cmd" where
  "util_cleanup = ret ()"

definition enter_directory :: "sys \<Rightarrow> unit cmd" where
  "enter_directory S = bnd (asks c_directory) (\<lambda>d. case d of
      None \<Rightarrow> ret ()
    | Some dir \<Rightarrow> bnd (asks (\<lambda>w. s_chdir S (trace w) dir)) (\<lambda>ok. andthen (emit (Chdir dir))
        (if ok then ret () else log_msg (LOG_WARN OR LOG_CONF) ''chdir(%s): %s'')))"

text \<open>The loop of the daemon, at most \<open>k\<close> turns; \<open>n\<close> bounds the list of listeners in each.\<close>

fun run_loop :: "nat \<Rightarrow> sys \<Rightarrow> nat \<Rightarrow> unit cmd" where
  "run_loop 0 S n = lift Loop"
| "run_loop (Suc k) S n = bnd (asks g_run) (\<lambda>go.
     if go then andthen (listener_select S n) (run_loop k S n) else ret ())"

definition bootd_start :: "sys \<Rightarrow> nat \<Rightarrow> (char \<times> string) list \<Rightarrow> unit cmd" where
  "bootd_start S n opts = andthen service_init (andthen (conf_args S opts)
     (andthen (bnd (asks c_file) (conf_file S n))
     (andthen (enter_directory S)
     (andthen (service_start S)
     (log_msg (LOG_INFO OR LOG_DEV) ''starting server loop'')))))"

definition bootd_main :: "sys \<Rightarrow> nat \<Rightarrow> nat \<Rightarrow> (char \<times> string) list \<Rightarrow> int cmd" where
  "bootd_main S n k opts = andthen (bootd_start S n opts)
     (andthen (run_loop k S n) (andthen (util_stats S) (andthen util_cleanup (ret 0))))"

end
