(* ===== verification/Messages.thy ===== *)
theory Messages
  imports Tftp Rarp Rmp
begin

text \<open>
  The types of the messages that leave the daemon. Each predicate states the form of the
  bytes of one kind of message; \<open>event_typed\<close> collects them over the events of the trace.
\<close>

subsection \<open>Forms\<close>

text \<open>
  A data packet of TFTP carries at most 512 bytes. After a failed read the code sends three
  bytes of its header.
\<close>

definition tftp_data :: "u8 list \<Rightarrow> bool" where
  "tftp_data bs \<longleftrightarrow> (\<exists>n d. length d \<le> 512 \<and> (bs = data_header n @ d \<or> bs = take 3 (data_header n)))"

definition tftp_errors :: "nat set" where
  "tftp_errors = {TFTP_E_UNDEF, TFTP_E_NOENT, TFTP_E_ACCESS, TFTP_E_BADSID}"

definition tftp_error :: "u8 list \<Rightarrow> bool" where
  "tftp_error bs \<longleftrightarrow> (\<exists>e msg. e \<in> tftp_errors \<and> length msg < 512 \<and> bs = error_reply e msg)"

definition rarp_message :: "u8 list \<Rightarrow> bool" where
  "rarp_message bs \<longleftrightarrow> (\<exists>r h req pad. bs = take 60 (rarp_encode (rarp_reply r h req) @ pad))"

text \<open>
  A reply of RMP, of which the code sends as many bytes as its length field says: at least 17
  of the header, after a failed read, and at most 1500.
\<close>

definition rmp_message :: "u8 list \<Rightarrow> bool" where
  "rmp_message bs \<longleftrightarrow> 17 \<le> length bs \<and> length bs \<le> 1500 \<and> (\<exists>l req type rc sid body.
     type \<in> {RMPOP_BOOT_REPL, RMPOP_READ_REPL} \<and>
     bs = take (length bs) (rmp_encode ((rmp_reply l req)\<lparr>rm_type := type, rm_retcode := rc, rm_session := sid,
       rm_len := length bs\<rparr>) @ body))"

definition message :: "u8 list \<Rightarrow> bool" where
  "message bs \<longleftrightarrow> tftp_data bs \<or> tftp_error bs \<or> rarp_message bs \<or> rmp_message bs"

definition event_typed :: "event \<Rightarrow> bool" where
  "event_typed e \<longleftrightarrow> (case e of
      SendUdp fd dst bs \<Rightarrow> message bs
    | SendLink dev bs \<Rightarrow> message bs \<and> 62 \<le> length bs
    | _ \<Rightarrow> True)"

lemma event_typed_quiet [simp]:
  "event_typed (OpenFile p)" "event_typed (ReadAt fd offs n)" "event_typed (ArpSet ip eth)" "event_typed OpenSocket"
  "event_typed (CloseFd fd)" "event_typed (SetFlags fd m)" "event_typed (Chdir p)"
  by (simp_all add: event_typed_def)

subsection \<open>Results that bound a message\<close>

lemma uint_byte: "uint (b :: u8) \<le> 255"
  using unsigned_less [of b, where ?'a = int] by simp

lemma util_read_result:
  assumes "util_read S fd n offs w = Ret (r, w')" "offs < 2 ^ 31"
  shows "\<exists>got d. r = (got, d) \<and> (got = -1 \<or> got = int (length d) \<and> length d \<le> n)"
proof -
  have "0 \<le> offs \<Longrightarrow> \<not> to_int32 offs < 0" using assms(2) by (simp add: to_int32_id)
  with assms(1) show ?thesis
    by (auto simp: util_read_def bnd_Ret_iff andthen_unit_Ret Let_def split: option.splits if_splits)
qed

lemma rmp_read_result:
  assumes "rmp_read S a p req w = Ret (x, w')"
  shows "\<exists>c got d. x = (c, got, d) \<and> -1 \<le> got \<and> got \<le> 1482"
proof -
  have "rmp_seq req < 2 ^ 31" unfolding rmp_seq_def by (rule to_int32_range)
  then have "util_read S fd (min n 1482) (rmp_seq req) v = Ret (r, v') \<Longrightarrow>
      \<exists>got d. r = (got, d) \<and> -1 \<le> got \<and> got \<le> 1482" for fd n v v' r
    using util_read_result by fastforce
  with assms show ?thesis
    by (fastforce simp: rmp_read_def bnd_Ret_iff split: if_splits prod.splits)
qed

subsection \<open>What the servers send has these forms\<close>

lemma message_error:
  assumes e: "e \<in> tftp_errors" and n: "nat (5 + int (length msg)) \<le> length (error_packet e msg)"
  shows "message (take (nat (5 + int (length msg))) (error_packet e msg))"
proof -
  have len: "length msg < 512" and nat: "nat (5 + int (length msg)) = 4 + Suc (length msg)"
    using n by (simp_all add: error_packet_def nat_add_distrib bytes_def)
  then have "take (nat (5 + int (length msg))) (error_packet e msg) = error_reply e msg"
    by (simp add: error_packet_def error_reply_def strncpy_def bytes_def min_def Suc_diff_le byte_of_def)
  with e len show ?thesis unfolding message_def tftp_error_def by blast
qed

lemma take_stack_buf_short: "m \<le> k \<Longrightarrow> \<exists>pad. take m (stack_buf S tr k bs) = take m (bs @ pad)"
  by (intro exI [of _ "s_junk S tr @ replicate k 0"]) (simp only: stack_buf_def take_take min.absorb1)

lemma message_data:
  assumes "got = -1 \<or> got = int (length d) \<and> length d \<le> 512"
  shows "message (take (nat (4 + got)) (stack_buf S tr 4096 (data_header n @ d)))"
proof -
  have "tftp_data (take (nat (4 + got)) (stack_buf S tr 4096 (data_header n @ d)))"
  proof (cases "got = -1")
    case True
    then show ?thesis unfolding tftp_data_def
      by (intro exI [of _ n] exI [of _ "[]"]) (simp add: stack_buf_def data_header_def)
  next
    case False
    with assms have "nat (4 + got) = length (data_header n @ d)" "length d \<le> 512"
      by (auto simp: data_header_def nat_add_distrib)
    then show ?thesis unfolding tftp_data_def
      by (intro exI [of _ n] exI [of _ d]) (simp add: stack_buf_def data_header_def)
  qed
  then show ?thesis by (simp add: message_def)
qed

lemma message_rarp: "message (take 60 (stack_buf S tr 4096 (rarp_encode (rarp_reply r h req))))"
  using take_stack_buf_short [of 60 4096 S tr "rarp_encode (rarp_reply r h req)"]
  by (auto simp: message_def rarp_message_def)

lemma message_rmp:
  assumes "type \<in> {RMPOP_BOOT_REPL, RMPOP_READ_REPL}" "17 \<le> n" "n \<le> 1500"
    and repl: "repl = (rmp_reply l req)\<lparr>rm_type := type, rm_retcode := rc, rm_session := sid\<rparr>"
  shows "message (take (nat n) (stack_buf S tr 4096 (rmp_encode (repl\<lparr>rm_len := nat n\<rparr>) @ body)))"
proof -
  let ?bs = "take (nat n) (stack_buf S tr 4096 (rmp_encode (repl\<lparr>rm_len := nat n\<rparr>) @ body))"
  have len: "length ?bs = nat n" using assms(3) by simp
  have n: "nat n \<le> 4096" using assms(3) by simp
  obtain pad where "?bs = take (nat n) (rmp_encode (repl\<lparr>rm_len := nat n\<rparr>) @ body @ pad)"
    using take_stack_buf_short [OF n, of S tr "rmp_encode (repl\<lparr>rm_len := nat n\<rparr>) @ body"]
    unfolding append_assoc by blast
  then have "\<exists>body'. ?bs = take (length ?bs) (rmp_encode (repl\<lparr>rm_len := length ?bs\<rparr>) @ body')"
    unfolding len by blast
  moreover have "17 \<le> length ?bs" "length ?bs \<le> 1500" using assms(2,3) unfolding len by simp_all
  ultimately have "rmp_message ?bs" using assms(1) unfolding rmp_message_def repl by blast
  then show ?thesis by (simp add: message_def)
qed

end
