(* ===== verification/Serving.thy ===== *)
theory Serving
  imports Dispatch Messages
begin

text \<open>
  How an invariant is carried through the serving of a request. Three locales say what a
  predicate on the state has to do with the state: \<open>calm\<close>, for what all handlers do to
  listeners, descriptors and the outside; \<open>handling\<close>, which adds laws for the operations on
  sessions and for the clients of a frame, and under which a turn of the event loop keeps the
  predicate; \<open>undisturbed\<close>, for predicates that do not depend on the hosts and sessions at all,
  which have the laws of \<open>handling\<close>.
\<close>

subsection \<open>Rules\<close>

lemma keeps_let [keeps_rules]: "(\<And>x. keeps I (f x)) \<Longrightarrow> keeps I (let x = v in f x)"
  by simp

lemma keeps_bool [keeps_rules]: "keeps I m \<Longrightarrow> keeps I k \<Longrightarrow> keeps I (case b of True \<Rightarrow> m | False \<Rightarrow> k)"
  by (cases b) simp_all

lemma keeps_fns [keeps_rules]:
  "keeps I m1 \<Longrightarrow> keeps I m2 \<Longrightarrow> keeps I m3 \<Longrightarrow> keeps I (case c of Link_cleanup \<Rightarrow> m1 | Udp_cleanup \<Rightarrow> m2 | Rpc_udp_cleanup \<Rightarrow> m3)"
  "keeps I n1 \<Longrightarrow> keeps I n2 \<Longrightarrow> keeps I (case s of Link_send \<Rightarrow> n1 | Udp_send \<Rightarrow> n2)"
  "keeps I m1 \<Longrightarrow> keeps I m2 \<Longrightarrow> keeps I m3 \<Longrightarrow> keeps I (case r of Link_receive \<Rightarrow> m1 | Udp_receive \<Rightarrow> m2 | Rpc_udp_receive \<Rightarrow> m3)"
  "keeps I m1 \<Longrightarrow> keeps I m2 \<Longrightarrow> keeps I m3 \<Longrightarrow> keeps I m4 \<Longrightarrow>
   keeps I (case f of Tftp_handler \<Rightarrow> m1 | Dhcp_handler \<Rightarrow> m2 | Rarp_handler \<Rightarrow> m3 | Rmp_handler \<Rightarrow> m4)"
  by (cases c, simp_all) (cases s, simp_all, cases r, simp_all, cases f, simp_all)

lemma keeps_answers [keeps_rules]:
  "(\<And>x y. keeps I (m1 x y)) \<Longrightarrow> keeps I m2 \<Longrightarrow> keeps I m3 \<Longrightarrow>
   keeps I (case d of Datagram x y \<Rightarrow> m1 x y | No_data \<Rightarrow> m2 | Recv_failed \<Rightarrow> m3)"
  "(\<And>x y. keeps I (n1 x y)) \<Longrightarrow> (\<And>x y z. keeps I (n2 x y z)) \<Longrightarrow>
   keeps I (case c of Whoami x y \<Rightarrow> n1 x y | Getfile x y z \<Rightarrow> n2 x y z)"
  "(\<And>x. keeps I (k1 x)) \<Longrightarrow> keeps I m2 \<Longrightarrow> keeps I m3 \<Longrightarrow>
   keeps I (case s of Ready x \<Rightarrow> k1 x | Interrupted \<Rightarrow> m2 | Wait_failed \<Rightarrow> m3)"
  by (cases d, simp_all) (cases c, simp_all, cases s, simp_all)


subsection \<open>What every handler does\<close>

lemma set_l_next_service [simp]: "l_service (set_l_next p r) = l_service r"
  by (simp add: set_l_next_def)

text \<open>\<open>svc\<close> bounds the handlers that listeners have.\<close>

locale calm =
  fixes I :: "world \<Rightarrow> bool" and svc :: "service_fn option \<Rightarrow> bool"
  assumes io_updates [simp]: "I (w\<lparr>g_listeners := p\<rparr>) = I w" "I (w\<lparr>rmp_sid := i\<rparr>) = I w" "I (w\<lparr>fdtab := t\<rparr>) = I w"
      "I (w\<lparr>logs := ls\<rparr>) = I w"
    and alloc [simp]: "I w \<Longrightarrow> I (w\<lparr>brk := Suc (brk w)\<rparr>)"
    and events [simp]: "event_typed e \<Longrightarrow> I w \<Longrightarrow> I (w\<lparr>trace := trace w @ [e]\<rparr>)"
    and listener_gone: "I w \<Longrightarrow> I (w\<lparr>lheap := (lheap w)(a := None)\<rparr>)"
    and listener_set: "I w \<Longrightarrow> svc (l_service r) \<Longrightarrow> I (w\<lparr>lheap := (lheap w)(a \<mapsto> r)\<rparr>)"
    and listener_service: "I w \<Longrightarrow> lheap w a = Some r \<Longrightarrow> svc (l_service r)"
    and svc_tftp [simp]: "svc None" "svc (Some Tftp_handler)"
begin

lemma kept_modify [keeps_rules]: "(\<And>w. I (f w) = I w) \<Longrightarrow> keeps I (modify f)"
  by (rule keeps_modify) simp

lemma kept_store [keeps_rules]: "keeps I malloc" "keeps I (log_msg what fmt)" "keeps I (listener_free a)"
  unfolding malloc_def log_msg_def listener_free_def keeps_def triple_def by (auto simp: listener_gone split: option.splits if_splits)

lemma kept_listener_put [keeps_rules]: "svc (l_service r) \<Longrightarrow> keeps I (listener_put a r)"
  unfolding listener_put_def keeps_def triple_def by (auto simp: listener_set split: option.splits if_splits)

lemma kept_listener_get: "(\<And>r. svc (l_service r) \<Longrightarrow> keeps I (k r)) \<Longrightarrow> keeps I (bnd (listener_get a) k)"
  unfolding keeps_def triple_def
  by (auto simp: bnd_Ret_iff listener_get_def dest: listener_service split: option.splits)

lemma kept_emit [keeps_rules]: "event_typed e \<Longrightarrow> keeps I (emit e)"
  unfolding emit_def by (rule keeps_modify) simp

lemma kept_files [keeps_rules]: "keeps I (open_rdonly S f)" "keeps I (close_fd fd)" "keeps I (util_read S fd n offs)"
  unfolding open_rdonly_def close_fd_def util_read_def by (intro keeps_rules; simp)+

lemma kept_lookup [keeps_rules]:
  "keeps I (util_name2host x)" "keeps I (util_ether2host e)" "keeps I (util_ip2host a)" "keeps I (util_name2ether S y)"
  "keeps I (util_name2ip S y)" "keeps I (util_ether2name S e)" "keeps I (util_ip2name S a)" "keeps I (util_name2file p m f i)"
  unfolding util_name2host_def util_ether2host_def util_ip2host_def util_name2ether_def util_name2ip_def
    util_ether2name_def util_ip2name_def util_name2file_def by (intro keeps_rules; simp)+

lemma kept_cleanup [keeps_rules]: "keeps I (listener_cleanup l)"
  unfolding listener_cleanup_def i_listener_link_cleanup_def i_listener_udp_cleanup_def i_listener_rpc_udp_cleanup_def
  by (intro keeps_rules; simp)

lemma kept_listener [keeps_rules]:
  "keeps I (listener_add p)" "keeps I (listener_delete p)" "keeps I (listener_search_by_fd fd)"
  unfolding listener_add_def listener_link_def listener_delete_def delete_unregistered_def listener_search_by_fd_def
  by (intro kept_listener_get keeps_rules; simp)+

lemma kept_send:
  assumes "nat n \<le> length x \<Longrightarrow> 0 \<le> n \<Longrightarrow> message (take (nat n) x)"
  shows "keeps I (listener_send S l r x n)"
  unfolding listener_send_def i_listener_link_send_def i_listener_udp_send_def
  by (intro keeps_rules) (use assms in \<open>auto simp: event_typed_def\<close>)

lemma kept_session_fd0 [keeps_rules]: "keeps I (session_fd0 a)"
  unfolding session_fd0_def by (intro keeps_rules)

lemma kept_new_udp [keeps_rules]: "svc f \<Longrightarrow> keeps I (listener_new_udp S a b f d)"
  unfolding listener_new_udp_def i_listener_fcntl_nonblock_def Let_def by (intro keeps_rules; simp add: described_def)

lemma kept_tftp_log [keeps_rules]: "keeps I (tftp_log_msgpacket p n)"
  unfolding tftp_log_msgpacket_def by (intro keeps_rules)

lemma kept_tftp_error [keeps_rules]: "e \<in> tftp_errors \<Longrightarrow> keeps I (tftp_send_error S l a e msg)"
  unfolding tftp_send_error_def Let_def by (intro keeps_rules kept_send message_error; simp)

lemma kept_tftp_block:
  assumes "offs < 2 ^ 31"
  shows "keeps I (tftp_send_block S l out a fd n offs)"
  unfolding tftp_send_block_def
proof (rule keeps_bnd_result [OF kept_files(3)])
  fix r w w'
  assume "util_read S fd 512 offs w = Ret (r, w')"
  then obtain got d where "r = (got, d)" "got = -1 \<or> got = int (length d) \<and> length d \<le> 512"
    using util_read_result assms by blast
  then show "keeps I (case r of (got, d) \<Rightarrow>
     andthen (if got < 0 then bnd (asks (\<lambda>w. s_errtext S (trace w))) (tftp_send_error S l a TFTP_E_UNDEF) else ret ())
     (bnd (asks (\<lambda>w. stack_buf S (trace w) 4096 (data_header n @ d))) (\<lambda>repl.
      bnd (listener_send S out (Some a) repl (4 + got)) (\<lambda>r. ret (4 + got, r, repl)))))"
    by (auto intro!: keeps_rules keeps_bnd_asks kept_send message_data simp: tftp_errors_def)
qed

lemma kept_rarp [keeps_rules]: "keeps I (rarp_handler S l p n)"
  unfolding rarp_handler_def rarp_request_def rarp_answer_def rarp_updatetable_def rarp_logpacket_def Let_def
  by (intro keeps_bnd_asks keeps_rules kept_send) (use message_rarp in simp_all)

lemma kept_rmp_log [keeps_rules]: "keeps I (rmp_logpacket S p)"
  unfolding rmp_logpacket_def by (intro keeps_rules)

lemma kept_rmp_send:
  assumes "type \<in> {RMPOP_BOOT_REPL, RMPOP_READ_REPL}" "17 \<le> n" "n \<le> 1500"
    "repl = (rmp_reply r req)\<lparr>rm_type := type, rm_retcode := rc, rm_session := sid\<rparr>"
  shows "keeps I (rmp_send S l repl body n)"
  unfolding rmp_send_def by (intro keeps_bnd_asks keeps_rules kept_send message_rmp [OF assms])

lemma kept_rmp_probe [keeps_rules]: "keeps I (rmp_probe S l a req (rmp_reply r q))"
  unfolding rmp_probe_def rmp_probe_name_def Let_def
  by (intro keeps_rules kept_rmp_send [OF _ _ _ refl]) (simp_all add: order_trans [OF uint_byte])

lemma kept_dhcp [keeps_rules]: "keeps I (dhcp_handler l p)"
  unfolding dhcp_handler_def dhcp_client_def by (intro keeps_rules; simp)

lemma kept_bootparam [keeps_rules]: "keeps I (bootparamproc_whoami a i)" "keeps I (bootparamproc_getfile x y i)"
  unfolding bootparamproc_whoami_def bootparamproc_getfile_def bootparam_host_def bootparam_listener_def
  by (intro keeps_rules; simp)+

end

subsection \<open>A turn of the event loop\<close>

text \<open>The frames that the callback hands to the handler of RMP.\<close>

definition rmp_frame :: "u8 list \<Rightarrow> bool" where
  "rmp_frame p \<longleftrightarrow> (case rd16 p 12 of None \<Rightarrow> False | Some t \<Rightarrow> t < 1536 \<and> rd8 p 14 = Some SAP_HP)"

text \<open>
  \<open>H\<close> holds of the addresses of the hosts that a lookup can return, \<open>F\<close> of the RMP frames
  that can arrive. A UDP listener with the handler of RMP may get any bytes.
\<close>

locale handling = calm +
  fixes S :: sys and F :: "u8 list \<Rightarrow> bool" and H :: "addr \<Rightarrow> bool"
  assumes session_laws: "H a \<Longrightarrow> keeps I (host_session_add S a m i)" "H a \<Longrightarrow> keeps I (host_session_delete (Some a) msg)"
      "keeps I (host_session_check S a m i)" "keeps I (session_set a f)"
    and client_of: "I w \<Longrightarrow> util_ip2host x w = Ret (Some a, w') \<Longrightarrow> H a"
    and client_of_frame: "F p \<Longrightarrow> rmp_decode p = Some req \<Longrightarrow> I w \<Longrightarrow> rmp_client S p req w = Ret (c, w') \<Longrightarrow>
      I w' \<and> (\<forall>a. c = Some a \<longrightarrow> H a)"
    and frames: "s_frame S tr dev = Some (p, n) \<Longrightarrow> rmp_frame p \<Longrightarrow> F p"
    and datagrams: "svc (Some Rmp_handler) \<Longrightarrow> F p"
begin

lemma kept_client_of:
  assumes "keeps I (k None)" and k: "\<And>a. H a \<Longrightarrow> keeps I (k (Some a))"
  shows "keeps I (bnd (util_ip2host x) k)"
proof (rule keepsI)
  fix w y w'
  assume w: "I w" "bnd (util_ip2host x) k w = Ret (y, w')"
  then obtain c w1 where c: "util_ip2host x w = Ret (c, w1)" "k c w1 = Ret (y, w')" by (auto simp only: bnd_Ret_iff)
  have "keeps I (k c)"
  proof (cases c)
    case (Some a)
    with c(1) have "util_ip2host x w = Ret (Some a, w1)" by simp
    from k [OF client_of [OF w(1) this]] Some show ?thesis by simp
  qed (simp add: assms(1))
  from keepsD [OF this c(2) keepsD [OF kept_lookup(3) c(1) w(1)]] show "I w'" .
qed

lemma kept_rmp_client:
  assumes "F p" "rmp_decode p = Some req" and k: "\<And>c. (\<And>a. c = Some a \<Longrightarrow> H a) \<Longrightarrow> keeps I (k c)"
  shows "keeps I (bnd (rmp_client S p req) k)"
proof (rule keepsI)
  fix w y w'
  assume w: "I w" "bnd (rmp_client S p req) k w = Ret (y, w')"
  then obtain c w1 where c: "rmp_client S p req w = Ret (c, w1)" "k c w1 = Ret (y, w')" by (auto simp only: bnd_Ret_iff)
  note law = client_of_frame [OF assms(1,2) w(1) c(1)]
  have "keeps I (k c)" by (rule k) (use law in simp)
  from keepsD [OF this c(2)] law show "I w'" by simp
qed

lemma kept_tftp_ack [keeps_rules]: "keeps I (tftp_ack S l from p a)"
  unfolding tftp_ack_def
proof (rule keeps_bnd [OF session_laws(3)], rule keeps_bnd_lift)
  fix e n assume "tftp_n p = Ret n"
  then have "int n * 512 < 2 ^ 31"
    using be16_bound [of "p ! 2" "p ! 3"] by (auto simp: tftp_n_def rd16_def split: if_splits)
  then show "keeps I (if e \<noteq> E_NOERROR then
       (if n = 1 then ret () else tftp_send_error S l from TFTP_E_BADSID ''no session'')
     else bnd (session_fd0 a) (\<lambda>fd.
       bnd (tftp_send_block S l l from fd (n + 1) (int n * 512)) (\<lambda>(npktlen, sent, repl).
       andthen (if sent \<noteq> npktlen then log_msg (LOG_WARN OR LOG_BOOT) ''error sending tftp reply'' else ret ())
         (tftp_log_msgpacket repl npktlen))))"
    by (intro keeps_rules kept_tftp_block) (simp add: tftp_errors_def)
qed

lemma kept_tftp [keeps_rules]: "keeps I (tftp_handler S l from d p n)"
proof -
  have e: "tftp_open_error e \<in> tftp_errors" for e
    by (cases e) (simp_all add: tftp_open_error_def tftp_errors_def)
  have for_host: "keeps I (tftp_for_host S l from d p n a)" if "H a" for a
    unfolding tftp_for_host_def tftp_switch_def tftp_rrq_def tftp_rrq_file_def tftp_rrq_serve_def tftp_rrq_send_def
    by (intro kept_tftp_block session_laws keeps_rules) (use e that in \<open>simp_all add: tftp_errors_def\<close>)
  show ?thesis
    unfolding tftp_handler_def by (intro kept_client_of keeps_rules for_host; simp add: tftp_errors_def)
qed

lemma kept_rmp_read [keeps_rules]: "keeps I (rmp_read_req S l a p req (rmp_reply r q))"
  unfolding rmp_read_req_def
proof (rule keeps_bnd_result)
  show "keeps I (rmp_read S a p req)" unfolding rmp_read_def by (intro session_laws keeps_rules)
  fix x w w'
  assume "rmp_read S a p req w = Ret (x, w')"
  then obtain c got d where x: "x = (c, got, d)" "-1 \<le> got" "got \<le> 1482" using rmp_read_result by blast
  have "keeps I (rmp_send S l ((rmp_reply r q)\<lparr>rm_type := RMPOP_READ_REPL, rm_retcode := c\<rparr>) d (int RMP_READ_REPL + got))"
    by (rule kept_rmp_send [where sid = "rm_session q" and rc = c and r = r and req = q])
      (use x in \<open>simp_all add: rmp_reply_def\<close>)
  then show "keeps I (case x of (c, got, d) \<Rightarrow>
     rmp_send S l ((rmp_reply r q)\<lparr>rm_type := RMPOP_READ_REPL, rm_retcode := c\<rparr>) d (int RMP_READ_REPL + got))"
    by (simp add: x)
qed

lemma kept_rmp:
  assumes "F p"
  shows "keeps I (rmp_handler S l p n)"
proof -
  have boot: "keeps I (rmp_boot S a p repl)" if "H a" for a repl
    unfolding rmp_boot_def rmp_boot_file_def by (intro session_laws keeps_rules; simp add: that)
  have switch: "keeps I (rmp_switch S l a p req)" if "H a" for a req
    unfolding rmp_switch_def rmp_boot_req_def Let_def by (intro boot session_laws keeps_rules; rule that)
  have "keeps I (rmp_for_client S l p req)" if "rmp_decode p = Some req" for req
    unfolding rmp_for_client_def by (intro kept_rmp_client [OF assms that] keeps_rules switch) simp
  then show ?thesis
    unfolding rmp_handler_def by (intro keeps_bnd_deref keeps_rules; simp)
qed

lemma kept_callback: "(rmp_frame p \<Longrightarrow> F p) \<Longrightarrow> keeps I (i_listener_link_pcap_callback S l p n)"
  unfolding i_listener_link_pcap_callback_def by (intro keeps_bnd_deref kept_rmp keeps_rules) (simp add: rmp_frame_def)

lemma kept_call_service: "svc (Some f) \<Longrightarrow> keeps I (call_service S f l from d p n)"
  unfolding call_service_def by (cases f) (auto intro!: keeps_rules kept_rmp datagrams)

lemma kept_udp_receive [keeps_rules]: "keeps I (i_listener_udp_receive S l)"
  unfolding i_listener_udp_receive_def Let_def by (intro kept_listener_get kept_call_service keeps_rules) auto

lemma kept_link_receive [keeps_rules]: "keeps I (i_listener_link_receive S l)"
  unfolding i_listener_link_receive_def
  by (intro keeps_bnd_asks kept_callback keeps_rules) (auto dest: frames)

lemma kept_serve [keeps_rules]: "keeps I (serve S ready a)"
  unfolding serve_def listener_receive_def i_listener_rpc_udp_receive_def by (intro keeps_rules; simp)

lemma kept_select_loop [keeps_rules]: "keeps I (select_loop n S ready p)"
proof (induction n arbitrary: p)
  case 0
  show ?case by (cases p) (simp_all only: select_loop.simps, (intro keeps_rules)+)
next
  case (Suc n)
  then show ?case by (cases p) (simp_all only: select_loop.simps, (intro keeps_rules; assumption)+)
qed

lemma kept_select [keeps_rules]: "keeps I (listener_select S n)"
  unfolding listener_select_def by (intro keeps_rules; simp)

end

subsection \<open>Predicates that do not depend on hosts and sessions\<close>

locale undisturbed = calm +
  assumes store_updates [simp]: "I (w\<lparr>g_hosts := p\<rparr>) = I w" "I (w\<lparr>hheap := h\<rparr>) = I w" "I (w\<lparr>sheap := s\<rparr>) = I w"
    and counter_updates [simp]: "I (w\<lparr>g_n_sessions := i\<rparr>) = I w"
begin

lemma kept_stores [keeps_rules]: "keeps I (host_put a t)" "keeps I (session_put a s)" "keeps I (session_free a)"
  unfolding host_put_def session_put_def session_free_def keeps_def triple_def by (auto split: option.splits if_splits)

lemma kept_session_delete [keeps_rules]: "keeps I (host_session_delete p msg)"
  unfolding host_session_delete_def session_close_fd_def by (intro keeps_rules; simp)

lemma kept_session [keeps_rules]:
  "keeps I (host_session_add S a m i)" "keeps I (host_session_check S a m i)" "keeps I (session_set a f)"
  unfolding host_session_add_def util_host_session_timeout_all_def host_session_timeout_def host_session_create_def
    host_session_check_def session_set_def session_fd0_def by (intro keeps_rules; simp)+

lemma kept_host_add [keeps_rules]: "keeps I (host_add S p)"
  unfolding host_add_def host_defaults_def host_fill_name_def host_fill_ip_def host_fill_ether_def host_link_def
  by (intro keeps_rules; simp)

lemma kept_host_clone [keeps_rules]: "keeps I (host_clone S a x e i)"
  unfolding host_clone_def by (intro keeps_rules; simp)

lemma kept_rmp_client [keeps_rules]: "keeps I (rmp_client S p req)"
  unfolding rmp_client_def by (intro keeps_rules)

end

text \<open>They have the laws of \<open>handling\<close>, whatever frames arrive.\<close>

sublocale undisturbed \<subseteq> served: handling I svc S "\<lambda>_. True" "\<lambda>_. True" for S
  by unfold_locales (auto intro: keeps_rules keepsD [OF kept_rmp_client])

end
