(* ===== verification/Steady.thy ===== *)
theory Steady
  imports Bootd Serving
begin

text \<open>
  What the daemon does not touch. A turn of the event loop keeps the settings, that is the
  flag of the main loop, the options, the tables of services and devices, the levels of the
  log and the entries of the configuration, whatever arrives. The start of the daemon writes
  all of these but the flag of the main loop, so that the loop never ends. The locale
  \<open>unshaken\<close> states what a predicate must not depend on for the whole start to keep it.
\<close>

text \<open>The settings are not disturbed.\<close>

definition settings :: "world \<Rightarrow> world" where
  "settings w = initial_world\<lparr>c_session_max := c_session_max w, c_session_timeout := c_session_timeout w,
     c_resolve_ether := c_resolve_ether w, c_resolve_ip := c_resolve_ip w, c_file := c_file w,
     c_directory := c_directory w, c_chroot := c_chroot w, g_run := g_run w, l_services := l_services w,
     l_devices := l_devices w, lg := lg w, pt := pt w, pheap := pheap w\<rparr>"

interpretation steady: undisturbed "\<lambda>w. settings w = s" "\<lambda>_. True" for s
  by unfold_locales (simp_all add: settings_def)

lemma select_settings: "listener_select S n w = Ret (r, w') \<Longrightarrow> settings w' = settings w"
  using keepsD [OF steady.served.kept_select [where s = "settings w"]] by blast

subsection \<open>Starting the daemon\<close>

locale unshaken = undisturbed +
  assumes any_service [simp]: "svc sf"
    and option_updates [simp]: "I (w\<lparr>c_session_max := i\<rparr>) = I w" "I (w\<lparr>c_session_timeout := i\<rparr>) = I w"
      "I (w\<lparr>c_resolve_ether := b\<rparr>) = I w" "I (w\<lparr>c_resolve_ip := b\<rparr>) = I w" "I (w\<lparr>c_file := f\<rparr>) = I w"
      "I (w\<lparr>c_directory := f\<rparr>) = I w" "I (w\<lparr>c_chroot := f\<rparr>) = I w"
    and table_updates [simp]: "I (w\<lparr>l_services := ss\<rparr>) = I w" "I (w\<lparr>l_devices := ds\<rparr>) = I w" "I (w\<lparr>lg := g\<rparr>) = I w"
      "I (w\<lparr>pt := p\<rparr>) = I w" "I (w\<lparr>pheap := ph\<rparr>) = I w"
begin

lemma kept_log_init [keeps_rules]: "keeps I (log_init S i f)"
  unfolding log_init_def log_set_file_def by (intro keeps_rules; simp)

lemma kept_service_init [keeps_rules]: "keeps I service_init"
  unfolding service_init_def bootparam_service_init_def service_add_def by (intro keeps_rules; simp)

lemma kept_devices [keeps_rules]:
  "keeps I (device_init S)" "keeps I (device_ready S)" "keeps I (device_search_by_name S x)" "keeps I (device_search_by_eth S e)"
  unfolding device_search_by_name_def device_search_by_eth_def device_ready_def device_init_def device_interface_def
    device_note_at_def device_add_def device_update_def by (intro keeps_rules; simp)+

lemma kept_flags [keeps_rules]: "keeps I (i_listener_fcntl_nonblock S fd b)" "keeps I (i_listener_ioctl S fd)"
  unfolding i_listener_fcntl_nonblock_def i_listener_ioctl_def by (intro keeps_rules; simp)+

lemma kept_init_lnet [keeps_rules]: "keeps I (i_listener_link_init_lnet S l x)"
  unfolding i_listener_link_init_lnet_def Let_def by (intro keeps_rules; simp)

lemma kept_init_addr [keeps_rules]: "keeps I (i_listener_link_init_addr S l x)"
  unfolding i_listener_link_init_addr_def Let_def by (intro keeps_rules; simp)

lemma kept_init_pcap [keeps_rules]: "keeps I (i_listener_link_init_pcap S l x)"
  unfolding i_listener_link_init_pcap_def Let_def by (intro keeps_rules; simp)

lemma kept_init_filter [keeps_rules]: "keeps I (i_listener_link_init_filter S l x y)"
  unfolding i_listener_link_init_filter_def Let_def by (intro keeps_rules; simp)

lemma kept_new_link [keeps_rules]: "keeps I (listener_new_link S a b c d)"
  unfolding listener_new_link_def i_listener_link_cleanup_def Let_def by (intro keeps_rules; simp)

lemma kept_new_rpc_udp [keeps_rules]: "keeps I (listener_new_rpc_udp S a b c d)"
  unfolding listener_new_rpc_udp_def Let_def by (intro keeps_rules; simp)

lemma kept_service_table [keeps_rules]:
  "keeps I (service_get s)" "keeps I (service_update s f)" "keeps I (device_list q)" "keeps I (device_get i)"
  unfolding service_get_def service_update_def device_list_def device_get_def by (intro keeps_rules; simp)+

lemma kept_each_ok [keeps_rules]:
  assumes "\<And>x. keeps I (f x)"
  shows "keeps I (each_ok f xs)"
  by (induction xs) (simp_all only: each_ok.simps, (intro keeps_rules assms; assumption)+)

lemma kept_service_link_add [keeps_rules]: "keeps I (service_link_add S s x)"
  unfolding service_link_add_def l_service_link_device_add_def by (intro keeps_rules; simp)

lemma kept_service_udp_add [keeps_rules]: "keeps I (service_udp_add S s x)"
  unfolding service_udp_add_def udp_bind_host_def l_service_udp_device_add_def l_service_udp_ip_add_def
  by (intro keeps_rules; simp)

lemma kept_device_update [keeps_rules]: "keeps I (device_update i f)"
  unfolding device_update_def by (intro keeps_rules; simp)

lemma kept_start_link_devices [keeps_rules]: "keeps I (start_link_devices S sv ds)"
  by (induction S sv ds rule: start_link_devices.induct)
    (simp_all only: start_link_devices.simps link_filter_def, (intro keeps_rules; assumption)+)

lemma kept_start_udp_from [keeps_rules]: "keeps I (start_udp_from S s ks)"
  by (induction ks) (simp_all only: start_udp_from.simps, (intro any_service keeps_rules; assumption)+)

lemma kept_start_rpc_from [keeps_rules]: "keeps I (start_rpc_from S sv as)"
  by (induction S sv as rule: start_rpc_from.induct) (simp_all only: start_rpc_from.simps, (intro keeps_rules; assumption)+)

lemma kept_service_start [keeps_rules]: "keeps I (service_start S)"
  unfolding service_start_def start_service_def start_device_def l_service_start_udp_def l_service_start_rpc_udp_def
    l_service_start_link_def by (intro keeps_rules; simp)

text \<open>Reading the configuration.\<close>

lemma kept_fatal [keeps_rules]: "keeps I m \<Longrightarrow> keeps I (fatal m)"
  unfolding fatal_def by (intro keeps_rules)

lemma kept_log_located [keeps_rules]: "keeps I (log_located lv f line msg)"
  unfolding log_located_def by (intro keeps_rules)

lemma kept_tokenize_error [keeps_rules]: "keeps I (gen_tokenize_error tz msg)"
  unfolding gen_tokenize_error_def by (intro keeps_rules)

lemma kept_tokenize_new [keeps_rules]: "keeps I (gen_tokenize_new S f)" "keeps I (gen_tokenize_close tz)"
  unfolding gen_tokenize_new_def gen_tokenize_close_def by (intro keeps_rules)+

lemma kept_read [keeps_rules]: "keeps I (gen_tokenize_read S tz)"
  unfolding gen_tokenize_read_def by (intro keeps_rules; simp)

lemma kept_scan_token [keeps_rules]: "keeps I (scan_token S st tz)"
proof (rule keepsI)
  show "scan_token S st tz w = Ret (x, w') \<Longrightarrow> I w \<Longrightarrow> I w'" for w x w'
  proof (induction S st tz w arbitrary: x w' rule: scan_token.induct)
    case (1 S st tz w)
    then show ?case
      using keepsD [OF kept_read, of S tz w] unfolding scan_token.simps [of S st tz w]
      by (auto split: if_splits outcome.splits prod.splits bool.splits lexed.splits)
  qed
qed

lemma kept_next [keeps_rules]: "keeps I (gen_tokenize_next S tz l)"
proof -
  have "keeps I (fill_ring n S tz)" for n
  proof (induction n S tz rule: fill_ring.induct)
    case (1 n S tz)
    then show ?case by (subst fill_ring.simps) (cases n, auto simp only: nat.case intro!: keeps_rules split: if_splits)
  qed
  then show ?thesis
    unfolding gen_tokenize_next_def gen_tokenize_ahead_def gen_tokenize_tokenize_def by (intro keeps_rules)
qed

lemma kept_entry_get [keeps_rules]: "keeps I (entry_get a)"
  unfolding entry_get_def keeps_def triple_def by (auto split: option.splits)

lemma kept_entry [keeps_rules]: "keeps I (entry_set a f)" "keeps I (set_tables g)" "keeps I parse_cleanup"
  unfolding entry_set_def entry_put_def set_tables_def parse_cleanup_def by (intro keeps_rules; simp)+

lemma kept_parse_tables [keeps_rules]: "keeps I (parse_string_add tz x)" "keeps I (parse_entry_new tz)"
  unfolding parse_string_add_def parse_entry_new_def next_block_def entry_put_def by (intro keeps_rules; simp)+

lemma kept_parse_values [keeps_rules]: "keeps I (parse_values k S a tz v)"
proof (induction k S a tz v rule: parse_values.induct)
  case (1 k S a tz v)
  then show ?case by (subst parse_values.simps) (unfold word_add_def, intro keeps_rules; rule 1; simp)
qed

lemma kept_parse_block [keeps_rules]: "keeps I (parse_block n S prev first tz)"
proof (induction n arbitrary: prev first tz)
  case 0
  show ?case unfolding parse_block.simps by (intro keeps_rules)
next
  case (Suc n)
  then show ?case
    unfolding parse_block.simps parse_done_def link_entry_def parse_head_def word_add_def by (intro keeps_rules)
qed

lemma kept_parse_file [keeps_rules]: "keeps I (parse_file n S f)"
  unfolding parse_file_def parse_sub_def by (intro keeps_rules; simp)

lemma kept_parse_messages [keeps_rules]: "keeps I (parse_error a msg)" "keeps I (parse_warn a msg)"
  unfolding parse_error_def parse_warn_def by (intro keeps_rules)+

lemma kept_parse_entry_get [keeps_rules]: "keeps I (parse_entry_get root x)"
  unfolding parse_entry_get_def by (intro keeps_rules)

text \<open>Evaluating the configuration, and the rest of the start.\<close>

lemma kept_single_value [keeps_rules]: "keeps I (i_assure_no_entry root x)" "keeps I (single_value root x b)"
  unfolding single_value_def i_get_entry_single_value_def i_assure_no_entry_def mark_def by (intro keeps_rules; simp)+

lemma kept_options [keeps_rules]:
  "keeps I (i_get_string root x c b)"
  "keeps I (i_get_bool root x b)" "keeps I (i_get_int root x b)" "keeps I (i_get_ether S root x b)"
  "keeps I (i_get_ip S root x b)" "keeps I (i_get_loglevel root x b)"
  unfolding i_get_string_def i_get_bool_def i_get_int_def i_get_ether_def i_get_ip_def i_get_loglevel_def
  by (intro keeps_rules; simp)+

lemma kept_entry_loop [keeps_rules]:
  assumes "\<And>a y. keeps I (f a y)"
  shows "keeps I (entry_loop n root x f y)"
  by (induction n arbitrary: y) (simp_all only: entry_loop.simps mark_def, (intro keeps_rules assms; assumption)+)

lemma kept_get_service [keeps_rules]: "keeps I (i_get_service n root x m)"
proof -
  have "keeps I (service_values a vs m)" for a vs m
    by (induction vs arbitrary: m) (simp_all only: service_values.simps, (intro keeps_rules; assumption)+)
  then show ?thesis unfolding i_get_service_def by (intro keeps_rules)
qed

lemma kept_store_option: "(\<And>x w. I (f x w) = I w) \<Longrightarrow> keeps I (store f r)"
  unfolding store_def by (intro keeps_rules; simp)

lemma kept_eval_basic [keeps_rules]: "keeps I (i_eval_basic root)"
  unfolding i_eval_basic_def by (intro keeps_rules kept_store_option; simp)

lemma kept_eval_log [keeps_rules]: "keeps I (i_eval_log_msg S root)"
  unfolding i_eval_log_msg_def mark_def by (intro keeps_rules; simp)

lemma kept_file_add [keeps_rules]: "keeps I (host_file_add a f)"
  unfolding host_file_add_def host_file_insert_def by (intro keeps_rules; simp)

lemma kept_eval_file [keeps_rules]: "keeps I (eval_file n a)"
proof -
  have "keeps I (get_aliases root js f)" for root js f
    by (induction root js f rule: get_aliases.induct) (simp_all only: get_aliases.simps, (intro keeps_rules; assumption)+)
  then show ?thesis unfolding eval_file_def no_more_aliases_def by (intro keeps_rules; simp)
qed

lemma kept_host_set [keeps_rules]: "keeps I (host_set a f)" "keeps I (host_store a g r)"
  unfolding host_store_def host_set_def by (intro keeps_rules; simp)+

lemma kept_eval_hosts [keeps_rules]: "keeps I (i_eval_hosts S n root)"
  unfolding i_eval_hosts_def eval_host_def i_eval_host_files_def by (intro keeps_rules; simp)

lemma kept_bind_entries [keeps_rules]:
  assumes "\<And>x. keeps I (f x)"
  shows "keeps I (bind_entries n root x f msg)"
proof -
  have "keeps I (bind_values f msg a vs)" for a vs
    by (induction vs) (simp_all only: bind_values.simps, (intro keeps_rules assms; assumption)+)
  then show ?thesis unfolding bind_entries_def by (intro keeps_rules)
qed

lemma kept_eval_services [keeps_rules]: "keeps I (i_eval_services S n root)"
  unfolding i_eval_services_def eval_service_def service_log_def by (intro keeps_rules; simp)

lemma kept_conf_file [keeps_rules]: "keeps I (conf_file S n f)"
  unfolding conf_file_def by (intro keeps_rules; simp)

lemma kept_conf_args [keeps_rules]: "keeps I (conf_args S opts)"
proof -
  have "keeps I (conf_options opts l f)" for l f
    by (induction opts l f rule: conf_options.induct)
      (simp_all only: conf_options.simps usage_def, (intro keeps_rules; simp)+)
  then show ?thesis unfolding conf_args_def by (intro keeps_rules; simp)
qed

lemma kept_start [keeps_rules]: "keeps I (bootd_start S n opts)"
  unfolding bootd_start_def enter_directory_def by (intro keeps_rules; simp)

lemma kept_run_loop [keeps_rules]: "keeps I (run_loop k S n)"
  by (induction k) (simp_all only: run_loop.simps, (intro keeps_rules; simp)+)

end

text \<open>The flag of the main loop is not shaken.\<close>

interpretation going: unshaken g_run "\<lambda>_. True"
  by unfold_locales simp_all

lemma run_loop_goes: "g_run w \<Longrightarrow> run_loop k S n w \<noteq> Ret r"
proof (induction k arbitrary: w)
  case (Suc k)
  have "listener_select S n w = Ret (x, w') \<Longrightarrow> g_run w'" for x w'
    using keepsD [OF going.served.kept_select _ Suc.prems] .
  with Suc show ?case by (auto simp: bnd_run andthen_def bnd_def split: outcome.splits)
qed simp

lemma bootd_main_goes: "g_run w \<Longrightarrow> bootd_main S n k opts w \<noteq> Ret r"
  using keepsD [OF going.kept_start] run_loop_goes
  by (auto simp: bootd_main_def andthen_def bnd_def split: outcome.splits)

end
