(* ===== verification/Startup.thy ===== *)
theory Startup
  imports Steady
begin

text \<open>
  The states the daemon goes through: the table of services it starts with, the start without
  a binding, and the states it reaches by turns of its loop, with what holds in all of them.
\<close>

subsection \<open>The table of services\<close>

definition built_in :: "(string \<times> mask) list" where
  "built_in = [(''rarp'', SERVICE_RARP), (''dhcp'', SERVICE_DHCP), (''mop'', SERVICE_MOP), (''rmp'', SERVICE_RMP),
     (''tftp'', SERVICE_TFTP), (''bootparam'', SERVICE_BOOTPARM)]"

text \<open>A service that is bound to nothing.\<close>

definition unbound :: "service_t \<Rightarrow> bool" where
  "unbound s \<longleftrightarrow> sv_device s = replicate SERVICE_BIND_MAX None \<and> sv_bindaddr s = replicate SERVICE_BIND_MAX no_sockaddr"

lemma service_numbers:
  "map (\<lambda>(n, i). signed_drop_bit (lowest_bit i) i) built_in = replicate 6 1"
  by code_simp

lemma service_add_run:
  assumes "signed_drop_bit (lowest_bit (sv_id s)) (sv_id s) = 1" "sv_name s \<notin> sv_name ` set (l_services w)"
  shows "\<exists>g. service_add s w = Ret ((), w\<lparr>l_services := l_services w @ [s], lg := g\<rparr>)"
proof (cases "l_services w = []")
  case True
  then show ?thesis by (intro exI [of _ "lg w"]) (simp add: service_add_def bnd_run)
next
  case False
  then show ?thesis
    using assms by (intro exI [of _ "log_set_mod_name 1 (sv_name s) (lg w)"])
      (auto simp: service_add_def bnd_run andthen_def image_iff Let_def)
qed

text \<open>\<open>service_init\<close> enters a list of services one after the other.\<close>

lemma each_chain:
  "m = each service_add ss \<Longrightarrow> andthen (service_add s) m = each service_add (s # ss)"
  "service_add s = each service_add [s]"
  by (simp_all add: each_simps andthen_def bnd_def fun_eq_iff split: outcome.splits)

lemma service_init_each:
  "\<exists>ss. service_init = each service_add ss \<and> map (\<lambda>s. (sv_name s, sv_id s)) ss = built_in \<and> (\<forall>s \<in> set ss. unbound s)"
  unfolding service_init_def bootparam_service_init_def
  by (rule exI, rule conjI, (rule each_chain)+) (simp add: built_in_def unbound_def service_new_def)

lemma each_service_add:
  assumes "\<forall>s \<in> set ss. signed_drop_bit (lowest_bit (sv_id s)) (sv_id s) = 1" "distinct (map sv_name (us @ ss))"
  shows "\<exists>g. each service_add ss (w\<lparr>l_services := us, lg := g0\<rparr>) = Ret ((), w\<lparr>l_services := us @ ss, lg := g\<rparr>)"
  using assms
proof (induction ss arbitrary: us g0)
  case Nil
  show ?case by (intro exI [of _ g0]) simp
next
  case (Cons s ss)
  obtain g where g: "service_add s (w\<lparr>l_services := us, lg := g0\<rparr>) = Ret ((), w\<lparr>l_services := us @ [s], lg := g\<rparr>)"
    using service_add_run [of s "w\<lparr>l_services := us, lg := g0\<rparr>"] Cons.prems by auto
  obtain g' where "each service_add ss (w\<lparr>l_services := us @ [s], lg := g\<rparr>) = Ret ((), w\<lparr>l_services := (us @ [s]) @ ss, lg := g'\<rparr>)"
    using Cons.IH [of "us @ [s]" g] Cons.prems by auto
  with g show ?case by (auto simp: andthen_def bnd_def)
qed

lemma service_init_run:
  assumes "l_services w = []"
  shows "\<exists>ss g. service_init w = Ret ((), w\<lparr>l_services := ss, lg := g\<rparr>) \<and> map (\<lambda>s. (sv_name s, sv_id s)) ss = built_in
    \<and> (\<forall>s \<in> set ss. unbound s)"
proof -
  obtain ss where ss: "service_init = each service_add ss" "map (\<lambda>s. (sv_name s, sv_id s)) ss = built_in" "\<forall>s \<in> set ss. unbound s"
    using service_init_each by blast
  have "map (\<lambda>s. signed_drop_bit (lowest_bit (sv_id s)) (sv_id s)) ss = replicate 6 1"
    using service_numbers unfolding ss(2) [symmetric] by (simp add: comp_def)
  then have "set (map (\<lambda>s. signed_drop_bit (lowest_bit (sv_id s)) (sv_id s)) ss) = {1}" by simp
  then have "\<forall>s \<in> set ss. signed_drop_bit (lowest_bit (sv_id s)) (sv_id s) = 1" by auto
  moreover have "map sv_name ss = map fst built_in" unfolding ss(2) [symmetric] by simp
  then have "distinct (map sv_name ([] @ ss))" by (simp add: built_in_def)
  ultimately obtain g where "each service_add ss (w\<lparr>l_services := [], lg := lg w\<rparr>) = Ret ((), w\<lparr>l_services := [] @ ss, lg := g\<rparr>)"
    using each_service_add [where us = "[]" and w = w and ?g0.0 = "lg w"] by blast
  moreover have "w\<lparr>l_services := [], lg := lg w\<rparr> = w" using assms by (cases w) simp
  ultimately show ?thesis using ss by auto
qed

subsection \<open>Starting services that are bound to nothing\<close>

lemma no_bindings: "replicate SERVICE_BIND_MAX x = x # replicate 15 x" "[0..<SERVICE_BIND_MAX] = 0 # [1..<SERVICE_BIND_MAX]"
  by (simp_all add: upt_rec numeral_eq_Suc)

lemma start_unbound:
  assumes "i < length (l_services w)" "unbound (l_services w ! i)"
  shows "start_service S i w = Ret ((), w)"
proof -
  have "start_udp_from S i [0..<SERVICE_BIND_MAX] w = Ret ((), w)"
    using assms unfolding no_bindings(2) by (simp add: service_get_def bnd_run unbound_def no_sockaddr_def)
  moreover have "start_link_devices S (l_services w ! i) (sv_device (l_services w ! i)) w = Ret ((), w)"
    "start_rpc_from S (l_services w ! i) (sv_bindaddr (l_services w ! i)) w = Ret ((), w)"
    using assms(2) unfolding unbound_def no_bindings(1) by (simp_all add: no_sockaddr_def)
  ultimately show ?thesis
    using assms(1) unfolding start_service_def l_service_start_udp_def l_service_start_rpc_udp_def
    by (simp add: service_get_def bnd_run)
qed

lemma start_services_unbound:
  assumes "\<forall>s \<in> set (l_services w). unbound s" "set ks \<subseteq> {..<length (l_services w)}"
  shows "each (start_service S) ks w = Ret ((), w)"
  using assms by (induction ks) (auto simp: each_simps andthen_def bnd_def start_unbound)

subsection \<open>Reached states\<close>

text \<open>
  The states of the daemon between the turns of its loop: the start of \<open>main\<close> with the answers
  \<open>opts\<close> of \<open>getopt\<close>, then calls of \<open>listener_select\<close> while \<open>g_run\<close> is set.
\<close>

inductive reached :: "sys \<Rightarrow> (char \<times> string) list \<Rightarrow> world \<Rightarrow> bool" for S opts where
  started: "bootd_start S n opts initial_world = Ret ((), w) \<Longrightarrow> reached S opts w"
| turn: "reached S opts w \<Longrightarrow> g_run w \<Longrightarrow> listener_select S n w = Ret ((), w') \<Longrightarrow> reached S opts w'"

text \<open>What nothing shakes holds in every state the daemon reaches.\<close>

context unshaken
begin

lemma reached_kept: "reached S opts w \<Longrightarrow> I initial_world \<Longrightarrow> I w"
proof (induction rule: reached.induct)
  case (started n w)
  then show ?case using keepsD [OF kept_start] by blast
next
  case (turn w n w')
  then show ?case using keepsD [OF served.kept_select] by blast
qed

end

text \<open>What is sent after \<open>tr\<close> has one of the forms of \<open>Messages\<close>.\<close>

definition sent_since :: "event list \<Rightarrow> world \<Rightarrow> bool" where
  "sent_since tr w \<longleftrightarrow> (\<exists>es. trace w = tr @ es \<and> (\<forall>e \<in> set es. event_typed e))"

lemma sent_since_event:
  assumes "event_typed e" "sent_since tr w"
  shows "sent_since tr (w\<lparr>trace := trace w @ [e]\<rparr>)"
proof -
  from assms(2) obtain es where "trace w = tr @ es" "\<forall>e \<in> set es. event_typed e" by (auto simp: sent_since_def)
  with assms(1) show ?thesis by (auto simp: sent_since_def intro!: exI [of _ "es @ [e]"])
qed

interpretation typed: unshaken "sent_since tr" "\<lambda>_. True" for tr
  by unfold_locales (simp_all add: sent_since_event, simp_all add: sent_since_def)

lemma select_sent_typed: "listener_select S n w = Ret (x, w') \<Longrightarrow> sent_since (trace w) w'"
  by (rule keepsD [OF typed.served.kept_select]) (auto simp: sent_since_def)

lemma reached_sent_typed: "reached S opts w \<Longrightarrow> e \<in> set (trace w) \<Longrightarrow> event_typed e"
  using typed.reached_kept [where tr = "[]"] by (auto simp: sent_since_def initial_world_def)

lemma reached_goes: "reached S opts w \<Longrightarrow> g_run w"
  by (rule going.reached_kept) (simp_all add: initial_world_def)

end
