(* ===== verification/Clients.thy ===== *)
theory Clients
  imports Serving
begin

text \<open>
  The hosts and their sessions while requests are served. As long as the boot requests of RMP
  come from configured hosts, for which no host is copied, and RMP is served on links only, a
  turn of the event loop keeps the invariant of the session table and changes nothing else of
  the hosts.
\<close>

subsection \<open>Listeners\<close>

text \<open>No listener for datagrams has the handler of RMP, which the services never give one.\<close>

definition no_rmp :: "service_fn option \<Rightarrow> bool" where
  "no_rmp f \<longleftrightarrow> f \<noteq> Some Rmp_handler"

definition plain_listeners :: "world \<Rightarrow> bool" where
  "plain_listeners w \<longleftrightarrow> (\<forall>a r. lheap w a = Some r \<longrightarrow> no_rmp (l_service r))"

interpretation plain: undisturbed plain_listeners no_rmp
  by unfold_locales (auto simp: plain_listeners_def no_rmp_def)

subsection \<open>Hosts without their sessions\<close>

definition ids :: "world \<Rightarrow> addr \<Rightarrow> host_t option" where
  "ids w a = map_option (\<lambda>h. h\<lparr>h_session := None\<rparr>) (hheap w a)"

lemma ids_frame: "hheap w' = hheap w \<Longrightarrow> ids w' = ids w"
  by (simp add: ids_def fun_eq_iff)

lemma ids_put: "hheap w a = Some h \<Longrightarrow> hheap w' = (hheap w)(a \<mapsto> h\<lparr>h_session := q\<rparr>) \<Longrightarrow> ids w' = ids w"
  by (simp add: ids_def fun_eq_iff)

text \<open>The sessions are consistent, and the hosts are \<open>f\<close>.\<close>

definition consistent :: "addr list \<Rightarrow> (addr \<Rightarrow> host_t option) \<Rightarrow> world \<Rightarrow> bool" where
  "consistent xs f w \<longleftrightarrow> session_inv w xs \<and> ids w = f"

lemma consistent_hosts: "consistent xs f w \<Longrightarrow> hosts w xs"
  by (simp add: consistent_def session_inv_hosts)

lemma keeps_consistent:
  assumes "keeps (\<lambda>w. session_inv w xs) m"
    and "\<And>w x w'. session_inv w xs \<Longrightarrow> m w = Ret (x, w') \<Longrightarrow> ids w' = ids w"
  shows "keeps (consistent xs f) m"
  by (rule keepsI) (use assms in \<open>auto simp: consistent_def dest: keepsD\<close>)

lemma consistent_delete:
  assumes a: "a \<in> set xs"
  shows "keeps (consistent xs f) (host_session_delete (Some a) msg)"
proof (rule keeps_consistent)
  show "keeps (\<lambda>w. session_inv w xs) (host_session_delete (Some a) msg)"
    using a by (intro keeps_host_session_delete) simp
  fix w x w'
  assume inv: "session_inv w xs" and "host_session_delete (Some a) msg w = Ret (x, w')"
  then consider "w' = w" | p w1 where "same_hosts w w1" "w' = drop_session a p w1"
    using host_session_delete_cases by blast
  then show "ids w' = ids w"
  proof cases
    case 2
    then have "hheap w1 = hheap w" "host_at w1 a = host_at w a" by (simp_all add: same_hosts_def host_at_def)
    with 2(2) show ?thesis
      by (intro ids_put [OF inv_host [OF inv a], of w' None]) (simp add: drop_session_def)
  qed simp
qed

lemma consistent_timeouts: "keeps (consistent xs f) (util_host_session_timeout_all S)"
  by (rule keeps_timeouts [OF consistent_hosts])
    (auto simp: host_session_timeout_def intro!: keeps_rules consistent_delete)

lemma consistent_add:
  assumes a: "a \<in> set xs"
  shows "keeps (consistent xs f) (host_session_add S a m i)"
proof (rule keepsI)
  fix w r w'
  assume w: "consistent xs f w" and r: "host_session_add S a m i w = Ret (r, w')"
  let ?m = "andthen (util_host_session_timeout_all S) (host_session_delete (Some a) ''new request'')"
  from r obtain w1 ls s where d: "?m w = Ret ((), w1)" and w': "w' = (if r then put_session a s w1 else w1)\<lparr>logs := ls\<rparr>"
    by (rule host_session_add_cases) blast
  have "keeps (consistent xs f) ?m" by (intro keeps_rules consistent_timeouts consistent_delete a)
  from keepsD [OF this d w] have w1: "session_inv w1 xs" "ids w1 = f" by (simp_all add: consistent_def)
  have "ids w' = ids w1"
  proof (cases r)
    case True
    with w' show ?thesis
      by (intro ids_put [OF inv_host [OF w1(1) a], of w' "Some (brk w1)"]) (simp add: put_session_def)
  qed (simp add: w' ids_def fun_eq_iff)
  moreover have "session_inv w' xs"
    using keepsD [OF keeps_host_session_add [OF a] r] w by (simp add: consistent_def)
  ultimately show "consistent xs f w'" using w1 by (simp add: consistent_def)
qed

lemma keeps_ids [keeps_rules]: "keeps (\<lambda>w. ids w = f) (session_put p s)" "keeps (\<lambda>w. ids w = f) (log_msg what fmt)"
  by (rule keepsI, auto simp: session_put_def ids_def fun_eq_iff split: option.splits)
    (rule keepsI, auto simp: ids_def fun_eq_iff dest!: log_msg_Ret)

lemma consistent_check: "keeps (consistent xs f) (host_session_check S a m i)"
proof (rule keeps_consistent [OF keeps_host_session_check])
  fix w x w'
  assume r: "host_session_check S a m i w = Ret (x, w')"
  have "keeps (\<lambda>v. ids v = ids w) (host_session_check S a m i)"
    unfolding host_session_check_def by (intro keeps_ids keeps_rules)
  from keepsD [OF this r] show "ids w' = ids w" by simp
qed

lemma session_set_touch:
  assumes "session_set a g w = Ret (x, w')"
  shows "\<exists>p s. sheap w p = Some s \<and> w' = w\<lparr>sheap := (sheap w)(p \<mapsto> g s)\<rparr>"
proof -
  from assms obtain h where "hheap w a = Some h" by (auto simp: session_set_def bnd_Ret_iff store_Ret_iff)
  with assms show ?thesis
    by (cases "h_session h") (auto simp: session_set_def bnd_Ret_iff store_Ret_iff simp del: fun_upd_apply)
qed

lemma consistent_set: "keeps (consistent xs f) (session_set a g)"
  by (rule keepsI) (auto simp: consistent_def ids_def fun_eq_iff dest!: session_set_touch intro: session_inv_touch)

subsection \<open>What serving a request keeps\<close>

definition served_state :: "addr list \<Rightarrow> (addr \<Rightarrow> host_t option) \<Rightarrow> world \<Rightarrow> bool" where
  "served_state xs f w \<longleftrightarrow> consistent xs f w \<and> plain_listeners w"

text \<open>A boot request comes from the Ethernet address of a registered host.\<close>

definition known_station :: "addr list \<Rightarrow> (addr \<Rightarrow> host_t option) \<Rightarrow> u8 list \<Rightarrow> bool" where
  "known_station xs f p \<longleftrightarrow> (\<forall>req. rmp_decode p = Some req \<longrightarrow> rm_type req = RMPOP_BOOT_REQ \<longrightarrow>
     (\<exists>a \<in> set xs. map_option h_eth (f a) = Some (rm_saddr req)))"

lemma keeps_conj: "keeps I m \<Longrightarrow> keeps J m \<Longrightarrow> keeps (\<lambda>w. I w \<and> J w) m"
  by (rule keepsI) (blast dest: keepsD)

lemma served_state_keeps: "keeps (consistent xs f) m \<Longrightarrow> keeps plain_listeners m \<Longrightarrow> keeps (served_state xs f) m"
  using keeps_conj [of "consistent xs f" m plain_listeners] by (simp add: served_state_def [abs_def])

lemma consistent_same: "same_hosts w w' \<Longrightarrow> consistent xs f w' = consistent xs f w"
  by (simp add: consistent_def session_inv_frame) (simp add: ids_def fun_eq_iff same_hosts_def)

lemma consistent_updates [simp]:
  "consistent xs f (w\<lparr>g_listeners := p\<rparr>) = consistent xs f w" "consistent xs f (w\<lparr>rmp_sid := i\<rparr>) = consistent xs f w"
  "consistent xs f (w\<lparr>fdtab := t\<rparr>) = consistent xs f w" "consistent xs f (w\<lparr>logs := ls\<rparr>) = consistent xs f w"
  "consistent xs f (w\<lparr>trace := tr\<rparr>) = consistent xs f w" "consistent xs f (w\<lparr>lheap := lh\<rparr>) = consistent xs f w"
  by (rule consistent_same, simp)+

lemma consistent_brk:
  assumes "consistent xs f w"
  shows "consistent xs f (w\<lparr>brk := Suc (brk w)\<rparr>)"
proof -
  let ?w = "w\<lparr>brk := Suc (brk w)\<rparr>"
  have s: "active ?w xs = active w xs" "session_of ?w = session_of w" "ids ?w = ids w" "hosts ?w xs = hosts w xs"
    by (simp_all add: active_def session_of_def host_at_def ids_def hosts_def fun_eq_iff)
  from assms show ?thesis
    unfolding consistent_def session_inv_def s by (auto intro: less_SucI)
qed

text \<open>The client of a boot request is then a registered host, and nothing is copied.\<close>

lemma known_client:
  assumes p: "known_station xs f p" "rmp_decode p = Some req" and w: "consistent xs f w"
    and r: "rmp_client S p req w = Ret (c, w')"
  shows "\<exists>ls. w' = w\<lparr>logs := ls\<rparr> \<and> (\<forall>a. c = Some a \<longrightarrow> a \<in> set xs)"
proof -
  let ?c = "find (\<lambda>a. h_eth (host_at w a) = rm_saddr req) xs"
  have h: "util_ether2host (rm_saddr req) w = Ret (?c, w)" by (rule util_ether2host_run [OF consistent_hosts [OF w]])
  show ?thesis
  proof (cases ?c)
    case None
    have "h_eth (host_at w a) = e" if "a \<in> set xs" "map_option h_eth (f a) = Some e" for a e
      using that hosts_alloc [OF consistent_hosts [OF w] that(1)] w by (auto simp: consistent_def ids_def)
    with p None have "rm_type req \<noteq> RMPOP_BOOT_REQ" by (auto simp: known_station_def find_None_iff)
    with r h None show ?thesis by (auto simp: rmp_client_def bnd_run andthen_Ret_iff dest!: log_msg_Ret)
  next
    case (Some a)
    then have "a \<in> set xs" by (auto simp: find_Some_iff)
    moreover have "c = Some a \<and> w' = w" using r h Some by (simp add: rmp_client_def bnd_run)
    ultimately show ?thesis by (intro exI [of _ "logs w"]) simp
  qed
qed

lemma served_state_handling:
  assumes "\<And>tr dev p n. s_frame S tr dev = Some (p, n) \<Longrightarrow> rmp_frame p \<Longrightarrow> known_station xs f p"
  shows "handling (served_state xs f) no_rmp S (known_station xs f) (\<lambda>a. a \<in> set xs)"
proof unfold_locales
  fix w c w' p req
  assume "known_station xs f p" "rmp_decode p = Some req" "served_state xs f w" "rmp_client S p req w = Ret (c, w')"
  with known_client [of xs f p req w S c w'] show "served_state xs f w' \<and> (\<forall>a. c = Some a \<longrightarrow> a \<in> set xs)"
    by (auto simp: served_state_def)
next
  fix w x a w'
  assume "served_state xs f w" "util_ip2host x w = Ret (Some a, w')"
  then show "a \<in> set xs"
    using util_ip2host_run [OF consistent_hosts, of xs f w x] by (auto simp: served_state_def find_Some_iff)
next
  show "keeps (served_state xs f) (host_session_add S a m i)" if "a \<in> set xs" for a m i
    by (intro served_state_keeps consistent_add that plain.kept_session)
  show "keeps (served_state xs f) (host_session_delete (Some a) msg)" if "a \<in> set xs" for a msg
    by (intro served_state_keeps consistent_delete that plain.kept_session_delete)
  show "keeps (served_state xs f) (host_session_check S a m i)" for a m i
    by (intro served_state_keeps consistent_check plain.kept_session)
  show "keeps (served_state xs f) (session_set a g)" for a g
    by (intro served_state_keeps consistent_set plain.kept_session)
qed (auto simp: served_state_def consistent_brk plain_listeners_def no_rmp_def intro: assms)

lemma select_served:
  assumes "\<And>tr dev p n. s_frame S tr dev = Some (p, n) \<Longrightarrow> rmp_frame p \<Longrightarrow> known_station xs (ids w) p"
    and "session_inv w xs" "plain_listeners w" "listener_select S n w = Ret (x, w')"
  shows "session_inv w' xs \<and> ids w' = ids w \<and> plain_listeners w'"
proof -
  have "served_state xs (ids w) w" using assms(2,3) by (simp add: served_state_def consistent_def)
  from keepsD [OF handling.kept_select [OF served_state_handling [OF assms(1)]] assms(4) this] show ?thesis
    by (simp add: served_state_def consistent_def)
qed

end
