(* ===== verification/Replace.thy ===== *)
theory Replace
  imports C_String
begin

text \<open>
  \<open>src/replace.c\<close>: the replacements of three string functions for systems that lack them. A
  destination is the array it points to, a source is the memory from the pointer on; an
  access behind the end of either is undefined. The first function replaces \<open>strncpy\<close>
  itself where \<open>strlcpy\<close> is missing; the rest of the development has the \<open>strncpy\<close> of the C
  library.
\<close>

definition mem_get :: "string \<Rightarrow> nat \<Rightarrow> char outcome" where
  "mem_get m i = (if i < length m then Ret (m ! i) else Undef ''read behind the array'')"

definition mem_put :: "nat \<Rightarrow> char \<Rightarrow> string \<Rightarrow> string outcome" where
  "mem_put i c m = (if i < length m then Ret (m[i := c]) else Undef ''write behind the array'')"

definition NUL :: char where
  "NUL = char_of (0 :: nat)"

text \<open>\<open>size - 1\<close> for an unsigned 64-bit \<open>size\<close>.\<close>

definition pred_size :: "nat \<Rightarrow> nat" where
  "pred_size sz = (if sz = 0 then 2 ^ 64 - 1 else sz - 1)"

text \<open>
  The copy loop: at most \<open>n\<close> more characters from \<open>src[j]\<close> to \<open>dst[i + j]\<close>; the result is
  the last index \<open>j\<close>. The scan for the end of a string from an index on.
\<close>

fun copy_loop :: "nat \<Rightarrow> nat \<Rightarrow> string \<Rightarrow> string \<Rightarrow> nat \<Rightarrow> (nat \<times> string) outcome" where
  "copy_loop 0 i dst src j = Ret (j, dst)"
| "copy_loop (Suc n) i dst src j = obind (mem_get src j) (\<lambda>c. obind (mem_put (i + j) c dst) (\<lambda>dst'.
     if c = NUL then Ret (j, dst') else copy_loop n i dst' src (Suc j)))"

function string_end :: "string \<Rightarrow> nat \<Rightarrow> nat outcome" where
  "string_end m i = (if i < length m then (if m ! i = NUL then Ret i else string_end m (Suc i))
     else Undef ''read behind the array'')"
  by pat_completeness auto
termination by (relation "measure (\<lambda>(m, i). length m - i)") auto

declare string_end.simps [simp del]

definition replace_strncpy :: "string \<Rightarrow> string \<Rightarrow> nat \<Rightarrow> (nat \<times> string) outcome" where
  "replace_strncpy dst src sz = obind (copy_loop (pred_size sz) 0 dst src 0) (\<lambda>(i, dst').
     obind (mem_get src i) (\<lambda>c.
     if c = NUL then Ret (i, dst')
     else obind (mem_put sz NUL dst') (\<lambda>dst''. obind (string_end src i) (\<lambda>k. Ret (k, dst'')))))"

definition replace_strncat :: "string \<Rightarrow> string \<Rightarrow> nat \<Rightarrow> string outcome" where
  "replace_strncat dst src count = obind (string_end dst 0) (\<lambda>i.
     obind (copy_loop count i dst src 0) (\<lambda>(j, dst'). mem_put j NUL dst'))"

text \<open>The scan of \<open>strlcat\<close> for the end of the destination stops at \<open>size - 1\<close>.\<close>

fun end_within :: "nat \<Rightarrow> string \<Rightarrow> nat \<Rightarrow> nat outcome" where
  "end_within 0 m i = Ret i"
| "end_within (Suc n) m i = obind (mem_get m i) (\<lambda>c. if c = NUL then Ret i else end_within n m (Suc i))"

definition replace_strlcat :: "string \<Rightarrow> string \<Rightarrow> nat \<Rightarrow> (nat \<times> string) outcome" where
  "replace_strlcat dst src sz = obind (end_within (pred_size sz) dst 0) (\<lambda>i.
     obind (mem_get dst i) (\<lambda>c.
     if c \<noteq> NUL then Ret (sz, dst)
     else obind (copy_loop (pred_size sz - i) i dst src 0) (\<lambda>(j, dst').
       obind (mem_get src (i + j)) (\<lambda>d.
       if d = NUL then Ret (i + j, dst')
       else obind (mem_put sz NUL dst') (\<lambda>dst''. obind (string_end src (i + j)) (\<lambda>k. Ret (k, dst'')))))))"

subsection \<open>Facts\<close>

lemma copy_loop_string:
  assumes "\<forall>c \<in> set s. c \<noteq> NUL" "length s < n" "i + length p + length s < length dst" "length p = j"
    and "src = p @ s @ NUL # rest"
  shows "copy_loop n i dst src j = Ret (j + length s, take (i + j) dst @ s @ NUL # drop (Suc (i + j + length s)) dst)"
  using assms
proof (induction s arbitrary: n j p dst)
  case Nil
  then obtain m where "n = Suc m" by (cases n) auto
  with Nil show ?case by (simp add: mem_get_def mem_put_def upd_conv_take_nth_drop nth_append)
next
  case (Cons c s)
  then obtain m where n: "n = Suc m" by (cases n) auto
  have "copy_loop m i (dst[i + j := c]) src (Suc j)
      = Ret (Suc j + length s, take (i + Suc j) (dst[i + j := c]) @ s @ NUL # drop (Suc (i + Suc j + length s)) (dst[i + j := c]))"
    using Cons.prems n by (intro Cons.IH [of m "p @ [c]" "dst[i + j := c]" "Suc j"]) auto
  with Cons.prems n show ?case
    by (simp add: mem_get_def mem_put_def nth_append take_Suc_conv_app_nth)
qed

lemma copy_loop_cut:
  assumes "\<forall>c \<in> set s. c \<noteq> NUL" "length s = n" "i + j + length s \<le> length dst" "length p = j"
    and "src = p @ s @ rest"
  shows "copy_loop n i dst src j = Ret (j + length s, take (i + j) dst @ s @ drop (i + j + length s) dst)"
  using assms
proof (induction s arbitrary: n j p dst)
  case Nil
  then show ?case by simp
next
  case (Cons c s)
  then obtain m where n: "n = Suc m" by (cases n) auto
  have "copy_loop m i (dst[i + j := c]) src (Suc j)
      = Ret (Suc j + length s, take (i + Suc j) (dst[i + j := c]) @ s @ drop (i + Suc j + length s) (dst[i + j := c]))"
    using Cons.prems n by (intro Cons.IH [of m "Suc j" "dst[i + j := c]" "p @ [c]"]) auto
  with Cons.prems n show ?case
    by (simp add: mem_get_def mem_put_def nth_append take_Suc_conv_app_nth)
qed

lemma string_end_found: "\<forall>c \<in> set s. c \<noteq> NUL \<Longrightarrow> string_end (p @ s @ NUL # rest) (length p) = Ret (length p + length s)"
proof (induction s arbitrary: p)
  case Nil
  show ?case by (subst string_end.simps) simp
next
  case (Cons c s)
  then show ?case using Cons.IH [of "p @ [c]"] by (subst string_end.simps) (simp add: nth_append)
qed

text \<open>A string that fits is copied; one that is as long as the destination is not terminated or written behind it.\<close>

lemma replace_strncpy_fits:
  assumes "\<forall>c \<in> set s. c \<noteq> NUL" "length s + 1 < sz" "sz \<le> length dst"
  shows "replace_strncpy dst (s @ NUL # rest) sz = Ret (length s, s @ NUL # drop (Suc (length s)) dst)"
  using assms copy_loop_string [of s "sz - 1" 0 "[]" dst 0 "s @ NUL # rest" rest]
  by (simp add: replace_strncpy_def pred_size_def mem_get_def)

lemma replace_strncpy_overflow:
  assumes "\<forall>c \<in> set s. c \<noteq> NUL" "0 < sz" "sz \<le> length s" "length dst = sz"
  shows "replace_strncpy dst (s @ NUL # rest) sz = Undef ''write behind the array''"
proof -
  have "copy_loop (sz - 1) 0 dst (s @ NUL # rest) 0 = Ret (sz - 1, take (sz - 1) s @ drop (sz - 1) dst)"
    using assms copy_loop_cut [of "take (sz - 1) s" "sz - 1" 0 0 dst "[]" "s @ NUL # rest" "drop (sz - 1) s @ NUL # rest"]
    by (auto dest: in_set_takeD)
  moreover have "s ! (sz - 1) \<noteq> NUL" using assms by simp
  ultimately show ?thesis
    using assms by (simp add: replace_strncpy_def pred_size_def mem_get_def mem_put_def nth_append)
qed

lemma replace_strncpy_unterminated:
  assumes "\<forall>c \<in> set s. c \<noteq> NUL" "length s + 1 = sz" "length dst = sz"
  shows "replace_strncpy dst (s @ NUL # rest) sz = Ret (length s, s @ [last dst])"
proof -
  have "copy_loop (length s) 0 dst (s @ NUL # rest) 0 = Ret (length s, s @ drop (length s) dst)"
    using assms copy_loop_cut [of s "length s" 0 0 dst "[]" "s @ NUL # rest" "NUL # rest"] by simp
  moreover have "drop (length s) dst = [last dst]"
    using assms by (metis append_butlast_last_id append_eq_conv_conj length_butlast length_0_conv
        add_diff_cancel_right' add_is_0 one_neq_zero)
  ultimately show ?thesis using assms by (auto simp: replace_strncpy_def pred_size_def mem_get_def)
qed

text \<open>\<open>strncat\<close> puts its terminator at the length of the source: what was appended is cut off again.\<close>

lemma replace_strncat_cuts:
  assumes "\<forall>c \<in> set d. c \<noteq> NUL" "\<forall>c \<in> set s. c \<noteq> NUL" "length s < n" "length s < length pad"
  shows "replace_strncat (d @ NUL # pad) (s @ NUL # rest) n
    = Ret (take (length s) (d @ s) @ NUL # drop (Suc (length s)) (d @ s @ NUL # drop (length s) pad))"
proof -
  have "string_end (d @ NUL # pad) 0 = Ret (length d)" using string_end_found [OF assms(1), of "[]" pad] by simp
  moreover have "copy_loop n (length d) (d @ NUL # pad) (s @ NUL # rest) 0
      = Ret (length s, d @ s @ NUL # drop (length s) pad)"
    using assms copy_loop_string [of s n "length d" "[]" "d @ NUL # pad" 0 "s @ NUL # rest" rest] by simp
  ultimately show ?thesis
    using assms(4) by (simp add: replace_strncat_def mem_put_def upd_conv_take_nth_drop)
qed

end
