(* ===== verification/Conf_Trees.thy ===== *)
theory Conf_Trees
  imports Conf
begin

text \<open>
  The evaluation of the configuration on the trees the parser builds: which entries of a
  list have been processed, and what the functions of \<open>conf.c\<close> that take an option out of a
  list give and change.
\<close>

subsection \<open>Lists of entries in the store\<close>

fun conf_name :: "conf \<Rightarrow> string" where
  "conf_name (Conf n vs ss) = n"

fun conf_vals :: "conf \<Rightarrow> string list" where
  "conf_vals (Conf n vs ss) = vs"

fun conf_sub :: "conf \<Rightarrow> conf list" where
  "conf_sub (Conf n vs ss) = ss"

text \<open>The addresses of the entries of a list that is laid out from \<open>lo\<close> on.\<close>

fun place :: "addr \<Rightarrow> conf list \<Rightarrow> (addr \<times> conf) list" where
  "place lo [] = []"
| "place lo (c # cs) = (lo, c) # place (lo + conf_nodes c) cs"

lemma conf_nodes_pos: "0 < conf_nodes c"
  by (cases c) simp

lemma conf_nodes_sub: "conf_nodes c = Suc (forest_size (conf_sub c))"
  by (cases c) simp

lemma place_range: "(a, c) \<in> set (place lo cs) \<Longrightarrow> lo \<le> a \<and> a + conf_nodes c \<le> lo + forest_size cs"
  by (induction lo cs rule: place.induct) fastforce+

lemma place_apart:
  "(a, c) \<in> set (place lo cs) \<Longrightarrow> (b, d) \<in> set (place lo cs) \<Longrightarrow>
   (a, c) = (b, d) \<or> a + conf_nodes c \<le> b \<or> b + conf_nodes d \<le> a"
proof (induction lo cs rule: place.induct)
  case (2 lo c0 cs)
  then show ?case
    using place_range [of a c "lo + conf_nodes c0" cs] place_range [of b d "lo + conf_nodes c0" cs] by auto
qed simp

lemma place_same: "(a, c) \<in> set (place lo cs) \<Longrightarrow> (a, d) \<in> set (place lo cs) \<Longrightarrow> c = d"
  using place_apart [of a c lo cs a d] conf_nodes_pos [of c] conf_nodes_pos [of d] by auto

lemma map_snd_place: "map snd (place lo cs) = cs"
  by (induction lo cs rule: place.induct) auto

lemma place_conf: "(a, c) \<in> set (place lo cs) \<Longrightarrow> c \<in> set cs"
  by (metis map_snd_place in_set_zipE zip_map_fst_snd)

text \<open>
  The list \<open>cs\<close> behind \<open>p\<close>, of which the entries at the addresses \<open>D\<close> have been processed;
  the blocks of the others have not been touched.
\<close>

definition entry_is :: "(addr \<Rightarrow> parse_entry_t option) \<Rightarrow> addr set \<Rightarrow> addr \<Rightarrow> conf \<Rightarrow> bool" where
  "entry_is h D a c \<longleftrightarrow> (case h a of None \<Rightarrow> False | Some e \<Rightarrow> pe_name e = conf_name c \<and> pe_values e = conf_vals c
     \<and> (pe_processed e \<longleftrightarrow> a \<in> D) \<and> (a \<notin> D \<longrightarrow> laid h (Suc a) (pe_sub e) (conf_sub c)))"

definition entries_at :: "addr set \<Rightarrow> (addr \<Rightarrow> parse_entry_t option) \<Rightarrow> addr \<Rightarrow> addr option \<Rightarrow> conf list \<Rightarrow> bool" where
  "entries_at D h lo p cs \<longleftrightarrow> chain h pe_next p (map fst (place lo cs)) \<and> (\<forall>(a, c) \<in> set (place lo cs). entry_is h D a c)"

lemma laid_block: "laid h lo p cs \<Longrightarrow> entries_at {} h lo p cs"
proof (induction h lo p cs rule: laid.induct)
  case (2 h lo p n vs ss cs)
  then obtain e where "h lo = Some e" "p = Some lo" by (auto split: option.splits)
  with 2 show ?case by (auto simp: entries_at_def entry_is_def)
qed (simp add: entries_at_def)

lemma block_entry:
  "entries_at D h lo p cs \<Longrightarrow> (a, c) \<in> set (place lo cs) \<Longrightarrow>
   \<exists>e. h a = Some e \<and> pe_name e = conf_name c \<and> pe_values e = conf_vals c \<and> (pe_processed e \<longleftrightarrow> a \<in> D)
     \<and> (a \<notin> D \<longrightarrow> laid h (Suc a) (pe_sub e) (conf_sub c))"
  by (fastforce simp: entries_at_def entry_is_def split: option.splits)

text \<open>Changes inside the blocks of processed entries do no harm.\<close>

lemma chain_agree: "chain h nxt p xs \<Longrightarrow> (\<And>a. a \<in> set xs \<Longrightarrow> h' a = h a) \<Longrightarrow> chain h' nxt p xs"
  by (induction xs arbitrary: p) (auto split: option.splits)

lemma block_frame:
  assumes "entries_at D h lo p cs"
    and "\<And>a c. (a, c) \<in> set (place lo cs) \<Longrightarrow> h' a = h a"
    and "\<And>a c b. (a, c) \<in> set (place lo cs) \<Longrightarrow> a \<notin> D \<Longrightarrow> a < b \<Longrightarrow> b < a + conf_nodes c \<Longrightarrow> h' b = h b"
  shows "entries_at D h' lo p cs"
  unfolding entries_at_def
proof (intro conjI ballI, goal_cases)
  case 1
  have "chain h pe_next p (map fst (place lo cs))" using assms(1) by (simp add: entries_at_def)
  then show ?case
  proof (rule chain_agree)
    fix a
    assume "a \<in> set (map fst (place lo cs))"
    then obtain c where "(a, c) \<in> set (place lo cs)" by fastforce
    then show "h' a = h a" by (rule assms(2))
  qed
next
  case (2 x)
  obtain a c where x: "x = (a, c)" by (rule prod.exhaust)
  note ac = 2 [unfolded x]
  obtain e where e: "h a = Some e" "pe_name e = conf_name c" "pe_values e = conf_vals c" "pe_processed e \<longleftrightarrow> a \<in> D"
    "a \<notin> D \<longrightarrow> laid h (Suc a) (pe_sub e) (conf_sub c)"
    using block_entry [OF assms(1) ac] by blast
  have "laid h' (Suc a) (pe_sub e) (conf_sub c)" if "a \<notin> D"
  proof -
    have "laid h' (Suc a) (pe_sub e) (conf_sub c) = laid h (Suc a) (pe_sub e) (conf_sub c)"
      using assms(3) [OF ac that] by (intro laid_cong) (simp add: conf_nodes_sub)
    then show ?thesis using e(5) that by blast
  qed
  then show ?case using e assms(2) [OF ac] by (simp add: entry_is_def x)
qed

text \<open>Marking an entry.\<close>

definition set_processed :: "parse_entry_t \<Rightarrow> parse_entry_t" where
  "set_processed e = e\<lparr>pe_processed := True\<rparr>"

lemma mark_run: "pheap w a = Some e \<Longrightarrow> mark a w = Ret ((), w\<lparr>pheap := (pheap w)(a \<mapsto> set_processed e)\<rparr>)"
  by (simp add: mark_def set_processed_def)

lemma chain_mark: "chain h pe_next p xs \<Longrightarrow> h a = Some e \<Longrightarrow> chain (h(a \<mapsto> set_processed e)) pe_next p xs"
  by (induction xs arbitrary: p) (auto simp: set_processed_def split: option.splits)

lemma block_mark:
  assumes b: "entries_at D h lo p cs" and ac: "(a, c) \<in> set (place lo cs)" and e: "h a = Some e"
  shows "entries_at (insert a D) (h(a \<mapsto> set_processed e)) lo p cs"
  unfolding entries_at_def
proof (intro conjI ballI, goal_cases)
  case 1
  show ?case using b e by (intro chain_mark) (auto simp: entries_at_def)
next
  case (2 x)
  obtain a' c' where x: "x = (a', c')" by (rule prod.exhaust)
  note ac' = 2 [unfolded x]
  obtain e' where e': "h a' = Some e'" "pe_name e' = conf_name c'" "pe_values e' = conf_vals c'" "pe_processed e' \<longleftrightarrow> a' \<in> D"
    "a' \<notin> D \<longrightarrow> laid h (Suc a') (pe_sub e') (conf_sub c')"
    using block_entry [OF b ac'] by blast
  show ?case
  proof (cases "a' = a")
    case True
    then show ?thesis using e e' by (simp add: x entry_is_def set_processed_def)
  next
    case False
    then have "a < Suc a' \<or> Suc a' + forest_size (conf_sub c') \<le> a"
      using place_apart [OF ac ac'] by (auto simp: conf_nodes_sub)
    then have "laid (h(a \<mapsto> set_processed e)) (Suc a') (pe_sub e') (conf_sub c') = laid h (Suc a') (pe_sub e') (conf_sub c')"
      by (intro laid_cong) auto
    then show ?thesis using False e' by (simp add: x entry_is_def)
  qed
qed

text \<open>What \<open>parse_entry_get\<close> finds.\<close>

lemma find_place:
  assumes "entries_at D h lo p cs" "length n < 256"
  shows "find (\<lambda>a. wanted (Some n) (the (h a))) (map fst (place lo cs))
    = map_option fst (find (\<lambda>(a, c). a \<notin> D \<and> conf_name c = n) (place lo cs))"
proof -
  have "wanted (Some n) (the (h a)) \<longleftrightarrow> a \<notin> D \<and> conf_name c = n" if "(a, c) \<in> set (place lo cs)" for a c
    using block_entry [OF assms(1) that] by (auto simp: wanted_def)
  then have "find (\<lambda>a. wanted (Some n) (the (h a))) (map fst xs) = map_option fst (find (\<lambda>(a, c). a \<notin> D \<and> conf_name c = n) xs)"
    if "set xs \<subseteq> set (place lo cs)" for xs
    using that by (induction xs) auto
  then show ?thesis by blast
qed

lemma parse_entry_get_find:
  assumes "entries_at D (pheap w) lo p cs" "length n < 256"
  shows "parse_entry_get p (Some n) w
    = Ret (map_option fst (find (\<lambda>(a, c). a \<notin> D \<and> conf_name c = n) (place lo cs)), w)"
proof -
  have ch: "chain (pheap w) pe_next p (map fst (place lo cs))" using assms(1) by (simp add: entries_at_def)
  have "ll_find (pheap w) pe_next (wanted (Some n)) p
      = Ret (map_option fst (find (\<lambda>(a, c). a \<notin> D \<and> conf_name c = n) (place lo cs)))"
    using ll_find_chain [OF ch, of "wanted (Some n)"] find_place [OF assms] by simp
  moreover have "p = None \<Longrightarrow> place lo cs = []" using ch by (cases "place lo cs") auto
  ultimately show ?thesis
    using assms(2) by (cases p) (auto simp: parse_entry_get_def)
qed

lemma assure_none:
  assumes "entries_at D (pheap w) lo p cs" "fst ` set (place lo cs) \<subseteq> D"
  shows "i_assure_no_entry p None w = Ret ((), w)"
proof -
  have ch: "chain (pheap w) pe_next p (map fst (place lo cs))" using assms(1) by (simp add: entries_at_def)
  have "\<not> wanted None (the (pheap w a))" if "(a, c) \<in> set (place lo cs)" for a c
    using block_entry [OF assms(1) that] assms(2) that by (auto simp: wanted_def image_subset_iff)
  then have "find (\<lambda>a. wanted None (the (pheap w a))) (map fst (place lo cs)) = None"
    by (auto simp: find_None_iff)
  with ll_find_chain [OF ch, of "wanted None"] show ?thesis
    by (cases p) (simp_all add: i_assure_no_entry_def parse_entry_get_def bnd_run)
qed

subsection \<open>Single options\<close>

text \<open>
  What a list gives for an option that may stand in it once: \<open>Some None\<close> nothing,
  \<open>Some (Some v)\<close> the value \<open>v\<close>, \<open>None\<close> an error.
\<close>

definition given :: "conf list \<Rightarrow> string \<Rightarrow> string option option" where
  "given cs n = (case filter (\<lambda>c. conf_name c = n) cs of
      [] \<Rightarrow> Some None
    | [c] \<Rightarrow> (case conf_vals c of [v] \<Rightarrow> Some (Some v) | _ \<Rightarrow> None)
    | _ \<Rightarrow> None)"

text \<open>The entries with a name in \<open>N\<close>, and the list after they have been taken.\<close>

definition named :: "addr \<Rightarrow> conf list \<Rightarrow> string set \<Rightarrow> addr set" where
  "named lo cs N = {a. \<exists>c. (a, c) \<in> set (place lo cs) \<and> conf_name c \<in> N}"

definition taken :: "string set \<Rightarrow> (addr \<Rightarrow> parse_entry_t option) \<Rightarrow> addr \<Rightarrow> addr option \<Rightarrow> conf list \<Rightarrow> bool" where
  "taken N h lo p cs \<longleftrightarrow> entries_at (named lo cs N) h lo p cs"

definition outside :: "addr \<Rightarrow> conf list \<Rightarrow> (addr \<Rightarrow> parse_entry_t option) \<Rightarrow> (addr \<Rightarrow> parse_entry_t option) \<Rightarrow> bool" where
  "outside lo cs h h' \<longleftrightarrow> (\<forall>b. b < lo \<or> lo + forest_size cs \<le> b \<longrightarrow> h' b = h b)"

lemma outside_refl [simp]: "outside lo cs h h"
  by (simp add: outside_def)

lemma outside_trans: "outside lo cs h1 h2 \<Longrightarrow> outside lo cs h2 h3 \<Longrightarrow> outside lo cs h1 h3"
  by (simp add: outside_def)

lemma outside_entry: "(a, c) \<in> set (place lo cs) \<Longrightarrow> outside lo cs h (h(a \<mapsto> e))"
  using place_range [of a c lo cs] conf_nodes_pos [of c] by (auto simp: outside_def)

lemma laid_taken: "laid h lo p cs \<Longrightarrow> taken {} h lo p cs"
  using laid_block by (auto simp: taken_def named_def)

lemma find_filter: "find P xs = (case filter P xs of [] \<Rightarrow> None | x # _ \<Rightarrow> Some x)"
  by (induction xs) auto

lemma filter_place: "map snd (filter (\<lambda>(a, c). Q c) (place lo cs)) = filter Q cs"
  by (induction lo cs rule: place.induct) auto

lemma named_fresh: "n \<notin> N \<Longrightarrow> (a, c) \<in> set (place lo cs) \<Longrightarrow> a \<notin> named lo cs N \<and> conf_name c = n \<longleftrightarrow> conf_name c = n"
  unfolding named_def using place_same [of a c lo cs] by blast

lemma find_fresh:
  assumes "n \<notin> N"
  shows "find (\<lambda>(a, c). a \<notin> named lo cs N \<and> conf_name c = n) (place lo cs) = find (\<lambda>(a, c). conf_name c = n) (place lo cs)"
  using named_fresh [OF assms] by (intro find_cong) auto

lemma find_gone: "n \<in> N \<Longrightarrow> find (\<lambda>(a, c). a \<notin> named lo cs N \<and> conf_name c = n) (place lo cs) = None"
  by (auto simp: find_None_iff named_def)

lemma get_fresh:
  assumes "taken N (pheap w) lo p cs" "n \<notin> N" "length n < 256"
  shows "parse_entry_get p (Some n) w = Ret (map_option fst (find (\<lambda>(a, c). conf_name c = n) (place lo cs)), w)"
  using parse_entry_get_find [OF assms(1) [unfolded taken_def] assms(3)] find_fresh [OF assms(2)] by simp

lemma get_gone: "taken N (pheap w) lo p cs \<Longrightarrow> n \<in> N \<Longrightarrow> length n < 256 \<Longrightarrow> parse_entry_get p (Some n) w = Ret (None, w)"
  using parse_entry_get_find [of "named lo cs N" w lo p cs n] find_gone [of n N lo cs] by (simp add: taken_def)

lemma named_insert_None: "find (\<lambda>(a, c). conf_name c = n) (place lo cs) = None \<Longrightarrow> named lo cs (insert n N) = named lo cs N"
  by (auto simp: find_None_iff named_def)

lemma single_absent:
  assumes "taken N (pheap w) lo p cs" "n \<notin> N" "length n < 256" "given cs n = Some None"
  shows "single_value p (Some n) s w = Ret (None, w) \<and> taken (insert n N) (pheap w) lo p cs"
proof -
  have "filter (\<lambda>c. conf_name c = n) cs = []" using assms(4) by (auto simp: given_def split: list.splits)
  then have "filter (\<lambda>(a, c). conf_name c = n) (place lo cs) = []"
    using filter_place [of "\<lambda>c. conf_name c = n" lo cs] by simp
  then have f: "find (\<lambda>(a, c). conf_name c = n) (place lo cs) = None" by (simp add: find_filter)
  show ?thesis
    using get_fresh [OF assms(1-3)] f assms(1) named_insert_None [OF f]
    by (simp add: single_value_def i_get_entry_single_value_def bnd_run taken_def)
qed

lemma single_present:
  assumes "taken N (pheap w) lo p cs" "n \<notin> N" "length n < 256" "given cs n = Some (Some v)"
  shows "\<exists>a h. single_value p (Some n) s w = Ret (Some (a, v), w\<lparr>pheap := h\<rparr>)
    \<and> taken (insert n N) h lo p cs \<and> outside lo cs (pheap w) h"
proof -
  obtain c where c: "filter (\<lambda>c. conf_name c = n) cs = [c]" "conf_vals c = [v]"
    using assms(4) by (auto simp: given_def split: list.splits)
  then obtain a where fl: "filter (\<lambda>(a, c). conf_name c = n) (place lo cs) = [(a, c)]"
    using filter_place [of "\<lambda>c. conf_name c = n" lo cs] by auto
  then have f: "find (\<lambda>(a, c). conf_name c = n) (place lo cs) = Some (a, c)" by (simp add: find_filter)
  have "set (filter (\<lambda>(a, c). conf_name c = n) (place lo cs)) = {(a, c)}" using fl by simp
  then have ac: "(a, c) \<in> set (place lo cs)" "\<And>b d. (b, d) \<in> set (place lo cs) \<Longrightarrow> conf_name d = n \<Longrightarrow> b = a"
    "conf_name c = n" by auto
  have D: "insert a (named lo cs N) = named lo cs (insert n N)"
    unfolding named_def using ac by blast
  obtain e where e: "pheap w a = Some e" "pe_values e = [v]"
    using block_entry [OF assms(1) [unfolded taken_def] ac(1)] c(2) by auto
  let ?h = "(pheap w)(a \<mapsto> set_processed e)"
  have t: "taken (insert n N) ?h lo p cs"
    using block_mark [OF assms(1) [unfolded taken_def] ac(1) e(1)] D by (simp add: taken_def)
  have "i_assure_no_entry p (Some n) (w\<lparr>pheap := ?h\<rparr>) = Ret ((), w\<lparr>pheap := ?h\<rparr>)"
    using get_gone [of "insert n N" "w\<lparr>pheap := ?h\<rparr>" lo p cs n] t assms(3) by (simp add: i_assure_no_entry_def bnd_run)
  then have "single_value p (Some n) s w = Ret (Some (a, v), w\<lparr>pheap := ?h\<rparr>)"
    using get_fresh [OF assms(1-3)] f mark_run [OF e(1)] e(2)
    by (simp add: single_value_def i_get_entry_single_value_def bnd_run andthen_def set_processed_def)
  with t outside_entry [OF ac(1)] show ?thesis by blast
qed

lemma single_given:
  assumes "taken N (pheap w) lo p cs" "n \<notin> N" "length n < 256" "given cs n = Some r"
  shows "\<exists>x h. single_value p (Some n) s w = Ret (x, w\<lparr>pheap := h\<rparr>) \<and> map_option snd x = r
    \<and> taken (insert n N) h lo p cs \<and> outside lo cs (pheap w) h"
proof (cases r)
  case None
  with single_absent [OF assms(1-3)] assms(4) show ?thesis
    by (intro exI [of _ None] exI [of _ "pheap w"]) simp
next
  case (Some v)
  with single_present [OF assms(1-3)] assms(4) show ?thesis by fastforce
qed

text \<open>
  The process ends with a message, or, where a word of the file with a \<open>%\<close> gets into the
  message, runs into the conversion.
\<close>

definition aborts :: "'a outcome \<Rightarrow> bool" where
  "aborts r \<longleftrightarrow> (\<exists>msg. r = Exit msg) \<or> r = Undef ''log_msg: conversion without argument''"

lemma aborts_bnd: "aborts (m w) \<Longrightarrow> aborts (bnd m f w)"
  by (auto simp: aborts_def bnd_def)

lemma aborts_andthen: "aborts (m w) \<Longrightarrow> aborts (andthen m f w)"
  by (simp add: aborts_bnd andthen_def)

lemma parse_error_aborts:
  assumes "pheap w a = Some e" "log_ok (lg w)"
  shows "aborts (parse_error a msg w)"
proof (cases "format_ok (located (pe_filename e) (pe_line e) msg)")
  case True
  show ?thesis unfolding aborts_def by (rule disjI1, rule exI, rule parse_error_exits [OF assms True])
next
  case False
  with assms(1) show ?thesis
    by (simp add: aborts_def parse_error_def bnd_run fatal_def andthen_def log_located_def undef_def lift_def)
qed

text \<open>An option that is given twice, or without exactly one value, ends the evaluation.\<close>

lemma single_bad:
  assumes "taken N (pheap w) lo p cs" "n \<notin> N" "length n < 256" "given cs n = None" "log_ok (lg w)"
  shows "aborts (single_value p (Some n) True w)"
proof -
  obtain c rest where cr: "filter (\<lambda>c. conf_name c = n) cs = c # rest" "rest \<noteq> [] \<or> length (conf_vals c) \<noteq> 1"
    using assms(4) by (auto simp: given_def split: list.splits)
  then obtain a frest where fl: "filter (\<lambda>(a, c). conf_name c = n) (place lo cs) = (a, c) # frest" "map snd frest = rest"
    using filter_place [of "\<lambda>c. conf_name c = n" lo cs] by (cases "filter (\<lambda>(a, c). conf_name c = n) (place lo cs)") auto
  then have f: "find (\<lambda>(a, c). conf_name c = n) (place lo cs) = Some (a, c)" by (simp add: find_filter)
  have "set (filter (\<lambda>(a, c). conf_name c = n) (place lo cs)) = insert (a, c) (set frest)" using fl by simp
  then have ac: "(a, c) \<in> set (place lo cs)" by auto
  obtain e where e: "pheap w a = Some e" "pe_values e = conf_vals c"
    using block_entry [OF assms(1) [unfolded taken_def] ac] by auto
  let ?w = "w\<lparr>pheap := (pheap w)(a \<mapsto> set_processed e)\<rparr>"
  have b: "entries_at (insert a (named lo cs N)) (pheap ?w) lo p cs"
    using block_mark [OF assms(1) [unfolded taken_def] ac e(1)] by simp
  have run: "single_value p (Some n) True w = bnd (i_assure_no_entry p (Some n)) (\<lambda>_.
      bnd (bnd (entry_get a) (\<lambda>e. if length (pe_values e) \<noteq> 1 then parse_error a ''expecting single value'' else ret (Some a)))
        (\<lambda>r. case r of None \<Rightarrow> ret None | Some a \<Rightarrow> bnd (entry_get a) (\<lambda>e. ret (Some (a, hd (pe_values e)))))) ?w"
    using get_fresh [OF assms(1-3)] f mark_run [OF e(1)]
    by (simp add: single_value_def i_get_entry_single_value_def bnd_run andthen_def split: outcome.splits)
  show ?thesis
  proof (cases "find (\<lambda>(b, d). b \<notin> insert a (named lo cs N) \<and> conf_name d = n) (place lo cs)")
    case None
    have "rest = []"
    proof (rule ccontr)
      assume "rest \<noteq> []"
      then obtain b d where bd: "(b, d) \<in> set frest" using fl(2) by (cases frest) auto
      have "distinct (map fst (place lo cs))"
        using chain_distinct [of "pheap w"] assms(1) by (auto simp: taken_def entries_at_def)
      then have "distinct (map fst (filter (\<lambda>(a, c). conf_name c = n) (place lo cs)))" by (rule distinct_map_filter)
      then have "a \<noteq> b" using fl(1) bd by force
      moreover have bd': "(b, d) \<in> set (place lo cs)" "conf_name d = n"
        using bd \<open>set (filter _ _) = _\<close> by auto
      ultimately show False
        using None named_fresh [OF assms(2) bd'(1)] by (auto simp: find_None_iff)
    qed
    then have "i_assure_no_entry p (Some n) ?w = Ret ((), ?w)" "length (pe_values e) \<noteq> 1"
      using parse_entry_get_find [OF b assms(3)] None cr(2) e(2) by (simp_all add: i_assure_no_entry_def bnd_run)
    then have inner: "bnd (entry_get a) (\<lambda>e. if length (pe_values e) \<noteq> 1 then parse_error a ''expecting single value'' else ret (Some a)) ?w
        = parse_error a ''expecting single value'' ?w"
      by (simp add: bnd_run set_processed_def)
    show ?thesis
      unfolding run bnd_Ret [where m = "i_assure_no_entry p (Some n)", OF \<open>i_assure_no_entry p (Some n) ?w = Ret ((), ?w)\<close>]
      by (rule aborts_bnd, unfold inner, rule parse_error_aborts [of _ _ "set_processed e"]) (simp_all add: assms(5))
  next
    case (Some x)
    then have x: "i_assure_no_entry p (Some n) ?w = parse_error (fst x) (n @ '' already set'') ?w"
      using parse_entry_get_find [OF b assms(3)] by (simp add: i_assure_no_entry_def bnd_run)
    have "(fst x, snd x) \<in> set (place lo cs)" using Some by (force simp: find_Some_iff in_set_conv_nth)
    then obtain ex where "pheap ?w (fst x) = Some ex" using block_entry [OF b] by blast
    then show ?thesis unfolding run by (intro aborts_bnd, unfold x, intro parse_error_aborts) (simp_all add: assms(5))
  qed
qed

subsection \<open>Typed options\<close>

text \<open>The value of an option read by \<open>f\<close>; \<open>None\<close> is an error.\<close>

definition option_of :: "(string \<Rightarrow> 'a option) \<Rightarrow> conf list \<Rightarrow> string \<Rightarrow> 'a option option" where
  "option_of f cs n = (case given cs n of
      None \<Rightarrow> None
    | Some None \<Rightarrow> Some None
    | Some (Some v) \<Rightarrow> map_option Some (f v))"

definition int_word :: "string \<Rightarrow> int option" where
  "int_word v = (case str_get_int v of (i, ok) \<Rightarrow> if ok then Some i else None)"

text \<open>\<open>gives m N n r\<close>: from a list of which the names \<open>N\<close> are taken, \<open>m\<close> takes \<open>n\<close> and gives \<open>r\<close>.\<close>

definition gives :: "'a cmd \<Rightarrow> world \<Rightarrow> 'a \<Rightarrow> string set \<Rightarrow> addr \<Rightarrow> addr option \<Rightarrow> conf list \<Rightarrow> bool" where
  "gives m w r N lo p cs \<longleftrightarrow> (\<exists>h. m w = Ret (r, w\<lparr>pheap := h\<rparr>) \<and> taken N h lo p cs \<and> outside lo cs (pheap w) h)"

lemma single_bnd:
  assumes "taken N (pheap w) lo p cs" "n \<notin> N" "length n < 256" "option_of f cs n = Some r"
    and "\<And>h. k None (w\<lparr>pheap := h\<rparr>) = Ret (None, w\<lparr>pheap := h\<rparr>)"
    and "\<And>a v x h. f v = Some x \<Longrightarrow> k (Some (a, v)) (w\<lparr>pheap := h\<rparr>) = Ret (Some x, w\<lparr>pheap := h\<rparr>)"
  shows "gives (bnd (single_value p (Some n) s) k) w r (insert n N) lo p cs"
proof -
  obtain g where g: "given cs n = Some g" using assms(4) by (auto simp: option_of_def split: option.splits)
  obtain x h where x: "single_value p (Some n) s w = Ret (x, w\<lparr>pheap := h\<rparr>)" "map_option snd x = g"
    "taken (insert n N) h lo p cs" "outside lo cs (pheap w) h"
    using single_given [OF assms(1-3) g] by blast
  have "k x (w\<lparr>pheap := h\<rparr>) = Ret (r, w\<lparr>pheap := h\<rparr>)"
  proof (cases x)
    case None
    then show ?thesis using assms(4,5) g x(2) by (auto simp: option_of_def)
  next
    case (Some y)
    then show ?thesis using assms(4,6) g x(2) by (cases y) (auto simp: option_of_def)
  qed
  with x show ?thesis by (auto simp: gives_def bnd_run)
qed

lemma get_string_gives:
  assumes "taken N (pheap w) lo p cs" "n \<notin> N" "length n < 256" "option_of Some cs n = Some r"
  shows "gives (i_get_string p (Some n) None s) w r (insert n N) lo p cs"
  unfolding i_get_string_def by (rule single_bnd [OF assms]) simp_all

lemma get_bool_gives:
  assumes "taken N (pheap w) lo p cs" "n \<notin> N" "length n < 256" "option_of (\<lambda>v. str_get_bool (Some v)) cs n = Some r"
  shows "gives (i_get_bool p (Some n) s) w r (insert n N) lo p cs"
  unfolding i_get_bool_def by (rule single_bnd [OF assms]) simp_all

lemma get_int_gives:
  assumes "taken N (pheap w) lo p cs" "n \<notin> N" "length n < 256" "option_of int_word cs n = Some r"
  shows "gives (i_get_int p (Some n) s) w r (insert n N) lo p cs"
  unfolding i_get_int_def by (rule single_bnd [OF assms]) (auto simp: int_word_def split: prod.splits if_splits bool.splits)

lemma get_ether_gives:
  assumes "taken N (pheap w) lo p cs" "n \<notin> N" "length n < 256" "option_of (s_ether_aton S) cs n = Some r"
  shows "gives (i_get_ether S p (Some n) s) w r (insert n N) lo p cs"
  unfolding i_get_ether_def by (rule single_bnd [OF assms]) (simp_all add: str_get_eth_def)

lemma get_ip_gives:
  assumes "taken N (pheap w) lo p cs" "n \<notin> N" "length n < 256" "option_of (s_inet_aton S) cs n = Some r"
  shows "gives (i_get_ip S p (Some n) s) w r (insert n N) lo p cs"
  unfolding i_get_ip_def by (rule single_bnd [OF assms]) (simp_all add: str_get_ip_def)

subsection \<open>The basic options\<close>

definition basic_names :: "string set" where
  "basic_names = {''chroot'', ''directory'', ''resolve_ether'', ''resolve_ip'', ''session_max'', ''session_timeout''}"

definition upd :: "'a option \<Rightarrow> 'a \<Rightarrow> 'a" where
  "upd r old = (case r of None \<Rightarrow> old | Some x \<Rightarrow> x)"

lemma upd_simps [simp]: "upd None x = x" "upd (Some y) x = y"
  by (simp_all add: upd_def)

text \<open>
  \<open>takes g m Q N N'\<close>: from a state with \<open>Q\<close> in which the entries named \<open>N\<close> are taken, \<open>m\<close> takes
  the entries \<open>N'\<close> and changes the rest of the state by \<open>g\<close>.
\<close>

definition takes :: "(world \<Rightarrow> world) \<Rightarrow> unit cmd \<Rightarrow> (world \<Rightarrow> bool) \<Rightarrow> string set \<Rightarrow> string set \<Rightarrow> addr \<Rightarrow> addr option \<Rightarrow> conf list \<Rightarrow> bool" where
  "takes g m Q N N' lo p cs \<longleftrightarrow> (\<forall>w. taken N (pheap w) lo p cs \<longrightarrow> Q w \<longrightarrow>
     (\<exists>h. m w = Ret ((), (g w)\<lparr>pheap := h\<rparr>) \<and> taken N' h lo p cs \<and> outside lo cs (pheap w) h))"

definition heap_free :: "(world \<Rightarrow> world) \<Rightarrow> bool" where
  "heap_free g \<longleftrightarrow> (\<forall>w h. g (w\<lparr>pheap := h\<rparr>) = (g w)\<lparr>pheap := h\<rparr>)"

lemma takesD: "takes g m Q N N' lo p cs \<Longrightarrow> taken N (pheap w) lo p cs \<Longrightarrow> Q w \<Longrightarrow>
    \<exists>h. m w = Ret ((), (g w)\<lparr>pheap := h\<rparr>) \<and> taken N' h lo p cs \<and> outside lo cs (pheap w) h"
  by (simp add: takes_def)

lemma takes_seq:
  assumes "takes g1 m1 Q1 N N1 lo p cs" "takes g2 m2 Q2 N1 N2 lo p cs" "heap_free g2"
    and "\<And>w. Q w \<Longrightarrow> Q1 w" "\<And>w h. Q w \<Longrightarrow> Q2 ((g1 w)\<lparr>pheap := h\<rparr>)"
  shows "takes (\<lambda>w. g2 (g1 w)) (andthen m1 m2) Q N N2 lo p cs"
  unfolding takes_def
proof (intro allI impI)
  fix w :: world
  assume w: "taken N (pheap w) lo p cs" "Q w"
  obtain h where h: "m1 w = Ret ((), (g1 w)\<lparr>pheap := h\<rparr>)" "taken N1 h lo p cs" "outside lo cs (pheap w) h"
    using assms(1) w(1) assms(4) [OF w(2)] unfolding takes_def by blast
  let ?w = "(g1 w)\<lparr>pheap := h\<rparr>"
  have "\<exists>h'. m2 ?w = Ret ((), (g2 ?w)\<lparr>pheap := h'\<rparr>) \<and> taken N2 h' lo p cs \<and> outside lo cs (pheap ?w) h'"
    using assms(2) [unfolded takes_def, rule_format, of ?w] h(2) assms(5) [OF w(2)] by simp
  then obtain h' where h': "m2 ?w = Ret ((), (g2 ?w)\<lparr>pheap := h'\<rparr>)" "taken N2 h' lo p cs" "outside lo cs h h'" by auto
  have "g2 ?w = (g2 (g1 w))\<lparr>pheap := h\<rparr>" using assms(3) by (simp add: heap_free_def)
  then show "\<exists>h. andthen m1 m2 w = Ret ((), (g2 (g1 w))\<lparr>pheap := h\<rparr>) \<and> taken N2 h lo p cs \<and> outside lo cs (pheap w) h"
    using h h' outside_trans [OF h(3) h'(3)] by (intro exI [of _ h']) (simp add: andthen_def bnd_run)
qed

lemma takesI:
  assumes "\<And>w. taken N (pheap w) lo p cs \<Longrightarrow> Q w \<Longrightarrow> gives m w r N' lo p cs"
    and "\<And>w h. Q w \<Longrightarrow> store f r (w\<lparr>pheap := h\<rparr>) = Ret ((), (g w)\<lparr>pheap := h\<rparr>)"
  shows "takes g (bnd m (store f)) Q N N' lo p cs"
  using assms by (fastforce simp: takes_def gives_def bnd_run)

text \<open>The six options one by one.\<close>

definition set_chroot :: "string option \<Rightarrow> world \<Rightarrow> world" where
  "set_chroot r w = w\<lparr>c_chroot := r\<rparr>"

definition set_directory :: "string option \<Rightarrow> world \<Rightarrow> world" where
  "set_directory r w = w\<lparr>c_directory := r\<rparr>"

definition set_resolve_ether :: "bool option \<Rightarrow> world \<Rightarrow> world" where
  "set_resolve_ether r w = w\<lparr>c_resolve_ether := upd r (c_resolve_ether w)\<rparr>"

definition set_resolve_ip :: "bool option \<Rightarrow> world \<Rightarrow> world" where
  "set_resolve_ip r w = w\<lparr>c_resolve_ip := upd r (c_resolve_ip w)\<rparr>"

definition set_session_max :: "int option \<Rightarrow> world \<Rightarrow> world" where
  "set_session_max r w = w\<lparr>c_session_max := upd r (c_session_max w)\<rparr>"

definition set_session_timeout :: "int option \<Rightarrow> world \<Rightarrow> world" where
  "set_session_timeout r w = w\<lparr>c_session_timeout := upd r (c_session_timeout w)\<rparr>"

lemmas set_option_defs = set_chroot_def set_directory_def set_resolve_ether_def set_resolve_ip_def
  set_session_max_def set_session_timeout_def

lemma heap_free_options:
  "heap_free (set_chroot a)" "heap_free (set_directory a)" "heap_free (set_resolve_ether b)"
  "heap_free (set_resolve_ip b)" "heap_free (set_session_max i)" "heap_free (set_session_timeout i)"
  by (simp_all add: heap_free_def set_option_defs)

lemma heap_free_comp: "heap_free f \<Longrightarrow> heap_free g \<Longrightarrow> heap_free (\<lambda>w. f (g w))"
  by (simp add: heap_free_def)

lemma gives_asks: "gives (k (f w)) w r N lo p cs \<Longrightarrow> gives (bnd (asks f) k) w r N lo p cs"
  by (simp add: gives_def)

definition no_directories :: "world \<Rightarrow> bool" where
  "no_directories w \<longleftrightarrow> c_chroot w = None \<and> c_directory w = None"

lemma take_chroot:
  assumes "option_of Some cs ''chroot'' = Some r" "''chroot'' \<notin> N"
  shows "takes (set_chroot r) (bnd (bnd (asks c_chroot) (\<lambda>c. i_get_string p (Some ''chroot'') c True)) (store (\<lambda>x w. w\<lparr>c_chroot := Some x\<rparr>))) (\<lambda>w. c_chroot w = None) N (insert ''chroot'' N) lo p cs"
proof (rule takesI)
  fix w :: world
  assume "taken N (pheap w) lo p cs" "c_chroot w = None"
  then show "gives (bnd (asks c_chroot) (\<lambda>c. i_get_string p (Some ''chroot'') c True)) w r (insert ''chroot'' N) lo p cs"
    using get_string_gives [OF _ assms(2) _ assms(1)] by (simp add: gives_asks)
qed (cases r; simp add: store_def set_option_defs)

lemma take_directory:
  assumes "option_of Some cs ''directory'' = Some r" "''directory'' \<notin> N"
  shows "takes (set_directory r) (bnd (bnd (asks c_directory) (\<lambda>c. i_get_string p (Some ''directory'') c True)) (store (\<lambda>x w. w\<lparr>c_directory := Some x\<rparr>))) (\<lambda>w. c_directory w = None) N (insert ''directory'' N) lo p cs"
proof (rule takesI)
  fix w :: world
  assume "taken N (pheap w) lo p cs" "c_directory w = None"
  then show "gives (bnd (asks c_directory) (\<lambda>c. i_get_string p (Some ''directory'') c True)) w r (insert ''directory'' N) lo p cs"
    using get_string_gives [OF _ assms(2) _ assms(1)] by (simp add: gives_asks)
qed (cases r; simp add: store_def set_option_defs)

lemma take_resolve_ether:
  assumes "option_of (\<lambda>v. str_get_bool (Some v)) cs ''resolve_ether'' = Some r" "''resolve_ether'' \<notin> N"
  shows "takes (set_resolve_ether r) (bnd (i_get_bool p (Some ''resolve_ether'') True) (store (\<lambda>x w. w\<lparr>c_resolve_ether := x\<rparr>))) (\<lambda>w. True) N (insert ''resolve_ether'' N) lo p cs"
proof (rule takesI)
  fix w :: world
  assume "taken N (pheap w) lo p cs" "True"
  then show "gives (i_get_bool p (Some ''resolve_ether'') True) w r (insert ''resolve_ether'' N) lo p cs"
    using get_bool_gives [OF _ assms(2) _ assms(1)] by (simp)
qed (cases r; simp add: store_def set_option_defs)

lemma take_resolve_ip:
  assumes "option_of (\<lambda>v. str_get_bool (Some v)) cs ''resolve_ip'' = Some r" "''resolve_ip'' \<notin> N"
  shows "takes (set_resolve_ip r) (bnd (i_get_bool p (Some ''resolve_ip'') True) (store (\<lambda>x w. w\<lparr>c_resolve_ip := x\<rparr>))) (\<lambda>w. True) N (insert ''resolve_ip'' N) lo p cs"
proof (rule takesI)
  fix w :: world
  assume "taken N (pheap w) lo p cs" "True"
  then show "gives (i_get_bool p (Some ''resolve_ip'') True) w r (insert ''resolve_ip'' N) lo p cs"
    using get_bool_gives [OF _ assms(2) _ assms(1)] by (simp)
qed (cases r; simp add: store_def set_option_defs)

lemma take_session_max:
  assumes "option_of int_word cs ''session_max'' = Some r" "''session_max'' \<notin> N"
  shows "takes (set_session_max r) (bnd (i_get_int p (Some ''session_max'') True) (store (\<lambda>x w. w\<lparr>c_session_max := x\<rparr>))) (\<lambda>w. True) N (insert ''session_max'' N) lo p cs"
proof (rule takesI)
  fix w :: world
  assume "taken N (pheap w) lo p cs" "True"
  then show "gives (i_get_int p (Some ''session_max'') True) w r (insert ''session_max'' N) lo p cs"
    using get_int_gives [OF _ assms(2) _ assms(1)] by (simp)
qed (cases r; simp add: store_def set_option_defs)

lemma take_session_timeout:
  assumes "option_of int_word cs ''session_timeout'' = Some r" "''session_timeout'' \<notin> N"
  shows "takes (set_session_timeout r) (bnd (i_get_int p (Some ''session_timeout'') True) (store (\<lambda>x w. w\<lparr>c_session_timeout := x\<rparr>))) (\<lambda>w. True) N (insert ''session_timeout'' N) lo p cs"
proof (rule takesI)
  fix w :: world
  assume "taken N (pheap w) lo p cs" "True"
  then show "gives (i_get_int p (Some ''session_timeout'') True) w r (insert ''session_timeout'' N) lo p cs"
    using get_int_gives [OF _ assms(2) _ assms(1)] by (simp)
qed (cases r; simp add: store_def set_option_defs)

lemma eval_basic_takes:
  assumes N: "N \<inter> basic_names = {}"
    and opts: "option_of Some cs ''chroot'' = Some ch" "option_of Some cs ''directory'' = Some dir"
      "option_of (\<lambda>v. str_get_bool (Some v)) cs ''resolve_ether'' = Some re"
      "option_of (\<lambda>v. str_get_bool (Some v)) cs ''resolve_ip'' = Some ri"
      "option_of int_word cs ''session_max'' = Some sm" "option_of int_word cs ''session_timeout'' = Some st"
  shows "takes (\<lambda>w. set_session_timeout st (set_session_max sm (set_resolve_ip ri (set_resolve_ether re
      (set_directory dir (set_chroot ch w)))))) (i_eval_basic p) no_directories N (N \<union> basic_names) lo p cs"
proof -
  have n: "x \<notin> N" if "x \<in> basic_names" for x using N that by auto
  let ?N1 = "insert ''chroot'' N" let ?N2 = "insert ''directory'' ?N1" let ?N3 = "insert ''resolve_ether'' ?N2"
  let ?N4 = "insert ''resolve_ip'' ?N3" let ?N5 = "insert ''session_max'' ?N4" let ?N6 = "insert ''session_timeout'' ?N5"
  have all: "?N6 = N \<union> basic_names" by (auto simp: basic_names_def)
  have fresh: "''chroot'' \<notin> N" "''directory'' \<notin> ?N1" "''resolve_ether'' \<notin> ?N2" "''resolve_ip'' \<notin> ?N3"
    "''session_max'' \<notin> ?N4" "''session_timeout'' \<notin> ?N5"
    using n by (simp_all add: basic_names_def)
  note last = takes_seq [OF take_session_max [OF opts(5) fresh(5)] take_session_timeout [OF opts(6) fresh(6)],
      of "\<lambda>w. True", simplified, OF heap_free_options(6)]
  note last3 = takes_seq [OF take_resolve_ip [OF opts(4) fresh(4)] last,
      of "\<lambda>w. True", simplified, OF heap_free_comp [OF heap_free_options(6,5)]]
  note last4 = takes_seq [OF take_resolve_ether [OF opts(3) fresh(3)] last3,
      of "\<lambda>w. True", simplified, OF heap_free_comp [OF heap_free_options(6) heap_free_comp [OF heap_free_options(5,4)]]]
  note last5 = takes_seq [OF take_directory [OF opts(2) fresh(2)] last4,
      of "\<lambda>w. c_directory w = None", simplified, OF heap_free_comp [OF heap_free_options(6)
        heap_free_comp [OF heap_free_options(5) heap_free_comp [OF heap_free_options(4,3)]]]]
  show ?thesis
    unfolding i_eval_basic_def all [symmetric]
    by (rule takes_seq [OF take_chroot [OF opts(1) fresh(1)] last5])
      (auto simp: heap_free_def no_directories_def set_option_defs)
qed

text \<open>
  The basic options a list gives, each \<open>None\<close> when it does not; the list is in error when
  the whole is \<open>None\<close>.
\<close>

record basics =
  b_chroot :: "string option"
  b_directory :: "string option"
  b_resolve_ether :: "bool option"
  b_resolve_ip :: "bool option"
  b_session_max :: "int option"
  b_session_timeout :: "int option"

definition basics_of :: "conf list \<Rightarrow> basics option" where
  "basics_of cs =
     (case (option_of Some cs ''chroot'', option_of Some cs ''directory'', option_of (\<lambda>v. str_get_bool (Some v)) cs ''resolve_ether'',
        option_of (\<lambda>v. str_get_bool (Some v)) cs ''resolve_ip'', option_of int_word cs ''session_max'', option_of int_word cs ''session_timeout'') of
        (Some ch, Some dir, Some re, Some ri, Some sm, Some st) \<Rightarrow> Some \<lparr>b_chroot = ch, b_directory = dir, b_resolve_ether = re,
          b_resolve_ip = ri, b_session_max = sm, b_session_timeout = st\<rparr>
      | _ \<Rightarrow> None)"

definition set_basics :: "basics \<Rightarrow> world \<Rightarrow> world" where
  "set_basics b w = set_session_timeout (b_session_timeout b) (set_session_max (b_session_max b) (set_resolve_ip (b_resolve_ip b)
     (set_resolve_ether (b_resolve_ether b) (set_directory (b_directory b) (set_chroot (b_chroot b) w)))))"

definition basic_state :: "basics \<Rightarrow> world \<Rightarrow> world \<Rightarrow> bool" where
  "basic_state b w w' \<longleftrightarrow> c_chroot w' = b_chroot b \<and> c_directory w' = b_directory b
     \<and> c_resolve_ether w' = upd (b_resolve_ether b) (c_resolve_ether w) \<and> c_resolve_ip w' = upd (b_resolve_ip b) (c_resolve_ip w)
     \<and> c_session_max w' = upd (b_session_max b) (c_session_max w) \<and> c_session_timeout w' = upd (b_session_timeout b) (c_session_timeout w)"

lemma basics_take: "basics_of cs = Some b \<Longrightarrow> N \<inter> basic_names = {} \<Longrightarrow>
   takes (set_basics b) (i_eval_basic p) no_directories N (N \<union> basic_names) lo p cs"
  unfolding set_basics_def by (rule eval_basic_takes) (auto simp: basics_of_def split: option.splits)

subsection \<open>Loops over entries\<close>

text \<open>
  The entries named \<open>n\<close> that are still to be taken, in their order, and the rule for the loop
  over them: \<open>I\<close> relates the entries taken, the value built up and the state.
\<close>

definition waiting :: "addr set \<Rightarrow> string \<Rightarrow> addr \<Rightarrow> conf list \<Rightarrow> (addr \<times> conf) list" where
  "waiting D n lo cs = filter (\<lambda>(a, c). a \<notin> D \<and> conf_name c = n) (place lo cs)"

lemma waiting_Un: "waiting (D \<union> E) n lo cs = filter (\<lambda>(b, d). b \<notin> E) (waiting D n lo cs)"
  by (auto simp: waiting_def intro!: filter_cong)

lemma filter_own: "filter (\<lambda>(b, d). b \<notin> fst ` set xs) xs = []"
  by (force simp: filter_empty_conv)

lemma filter_apart: "fst ` set xs \<inter> E = {} \<Longrightarrow> filter (\<lambda>(b, d). b \<notin> E) xs = xs"
  by (force simp: filter_id_conv)

lemma waiting_done:
  assumes "distinct (map fst (place lo cs))" "waiting D n lo cs = ds @ (a, c) # todo"
  shows "waiting (D \<union> fst ` set (ds @ [(a, c)])) n lo cs = todo" "waiting (D \<union> fst ` set ds) n lo cs = (a, c) # todo"
proof -
  have "distinct (map fst (waiting D n lo cs))" using assms(1) by (simp add: waiting_def distinct_map_filter)
  then have d: "distinct (map fst (ds @ (a, c) # todo))" using assms(2) by simp
  have w: "waiting (D \<union> E) n lo cs = filter (\<lambda>(b, d). b \<notin> E) (ds @ (a, c) # todo)" for E
    by (simp add: waiting_Un assms(2))
  have "filter (\<lambda>(b, d). b \<notin> fst ` set (ds @ [(a, c)])) ds = []" by (force simp: filter_empty_conv)
  moreover have "filter (\<lambda>(b, d). b \<notin> fst ` set (ds @ [(a, c)])) todo = todo" using d by (intro filter_apart) auto
  moreover have "fst ` set todo \<inter> fst ` set ds = {}" "a \<notin> fst ` set ds" using d by auto
  ultimately show "waiting (D \<union> fst ` set (ds @ [(a, c)])) n lo cs = todo" "waiting (D \<union> fst ` set ds) n lo cs = (a, c) # todo"
    unfolding w by (simp_all add: filter_apart filter_own)
qed

lemma entry_loop_rule:
  assumes "entries_at D (pheap w) lo p cs" "length n < 256" "I [] x w" "length (waiting D n lo cs) < k"
    and step: "\<And>ds a c todo x w e. \<lbrakk>waiting D n lo cs = ds @ (a, c) # todo; I ds x w; pheap w a = Some e;
        pe_values e = conf_vals c; conf_name c = n; (a, c) \<in> set (place lo cs); laid (pheap w) (Suc a) (pe_sub e) (conf_sub c);
        entries_at (D \<union> fst ` set (ds @ [(a, c)])) ((pheap w)(a \<mapsto> set_processed e)) lo p cs\<rbrakk>
      \<Longrightarrow> \<exists>x' w'. f a x (w\<lparr>pheap := (pheap w)(a \<mapsto> set_processed e)\<rparr>) = Ret (x', w') \<and> I (ds @ [(a, c)]) x' w'
        \<and> entries_at (D \<union> fst ` set (ds @ [(a, c)])) (pheap w') lo p cs"
  shows "\<exists>x' w'. entry_loop k p n f x w = Ret (x', w') \<and> I (waiting D n lo cs) x' w'
     \<and> entries_at (D \<union> fst ` set (waiting D n lo cs)) (pheap w') lo p cs"
proof -
  have dist: "distinct (map fst (place lo cs))"
    using chain_distinct [of "pheap w"] assms(1) by (auto simp: entries_at_def)
  have "\<exists>x' w'. entry_loop k p n f x w = Ret (x', w') \<and> I (waiting D n lo cs) x' w'
     \<and> entries_at (D \<union> fst ` set (waiting D n lo cs)) (pheap w') lo p cs"
    if "waiting D n lo cs = ds @ todo" "I ds x w" "entries_at (D \<union> fst ` set ds) (pheap w) lo p cs" "length todo < k" for ds todo k x w
    using that
  proof (induction todo arbitrary: ds k x w)
    case Nil
    then obtain j where k: "k = Suc j" by (cases k) auto
    have "waiting (D \<union> fst ` set ds) n lo cs = []"
      using Nil(1) filter_own [of ds] by (simp add: waiting_Un)
    then have "parse_entry_get p (Some n) w = Ret (None, w)"
      using parse_entry_get_find [OF Nil(3) assms(2)] by (simp add: waiting_def find_filter)
    with Nil k show ?case by (simp add: bnd_run)
  next
    case (Cons ac todo)
    obtain a c where ac: "ac = (a, c)" by (rule prod.exhaust)
    obtain j where k: "k = Suc j" using Cons.prems(4) by (cases k) auto
    note wt = waiting_done [OF dist Cons.prems(1) [unfolded ac]]
    have get: "parse_entry_get p (Some n) w = Ret (Some a, w)"
      using parse_entry_get_find [OF Cons.prems(3) assms(2)] wt(2) by (simp add: waiting_def find_filter)
    have "(a, c) \<in> set (waiting D n lo cs)" using Cons.prems(1) ac by simp
    then have mem: "(a, c) \<in> set (place lo cs)" "conf_name c = n" by (auto simp: waiting_def)
    have "(a, c) \<in> set (waiting (D \<union> fst ` set ds) n lo cs)" using wt(2) by simp
    then have new: "a \<notin> D \<union> fst ` set ds" by (auto simp: waiting_def)
    obtain e where e: "pheap w a = Some e" "pe_values e = conf_vals c" "laid (pheap w) (Suc a) (pe_sub e) (conf_sub c)"
      using block_entry [OF Cons.prems(3) mem(1)] new by auto
    have b: "entries_at (D \<union> fst ` set (ds @ [(a, c)])) ((pheap w)(a \<mapsto> set_processed e)) lo p cs"
      using block_mark [OF Cons.prems(3) mem(1) e(1)] by simp
    obtain x1 w1 where s: "f a x (w\<lparr>pheap := (pheap w)(a \<mapsto> set_processed e)\<rparr>) = Ret (x1, w1)" "I (ds @ [(a, c)]) x1 w1"
      "entries_at (D \<union> fst ` set (ds @ [(a, c)])) (pheap w1) lo p cs"
      using step [OF Cons.prems(1) [unfolded ac] Cons.prems(2) e(1,2) mem(2,1) e(3) b] by blast
    have "\<exists>x' w'. entry_loop j p n f x1 w1 = Ret (x', w') \<and> I (waiting D n lo cs) x' w'
       \<and> entries_at (D \<union> fst ` set (waiting D n lo cs)) (pheap w') lo p cs"
      using Cons.IH [of "ds @ [(a, c)]" x1 w1 j] Cons.prems(1,4) s(2,3) ac k by simp
    then show ?case using get mark_run [OF e(1)] s(1) k by (simp add: bnd_run andthen_def)
  qed
  from this [of "[]"] assms(1-4) show ?thesis by simp
qed

text \<open>The same for a list of which whole names have been taken.\<close>

lemma waiting_named:
  assumes "n \<notin> N"
  shows "waiting (named lo cs N) n lo cs = filter (\<lambda>(a, c). conf_name c = n) (place lo cs)"
    and "named lo cs N \<union> fst ` set (waiting (named lo cs N) n lo cs) = named lo cs (insert n N)"
proof -
  show w: "waiting (named lo cs N) n lo cs = filter (\<lambda>(a, c). conf_name c = n) (place lo cs)"
    using named_fresh [OF assms] by (auto simp: waiting_def intro!: filter_cong)
  show "named lo cs N \<union> fst ` set (waiting (named lo cs N) n lo cs) = named lo cs (insert n N)"
    unfolding w by (auto simp: named_def image_iff)
qed

end
