(* ===== verification/Conf_Hosts.thy ===== *)
theory Conf_Hosts
  imports Conf_Trees
begin

text \<open>
  The \<open>host\<close> sections of the configuration: the host record a section describes, as a
  function of its tree, and the evaluation that builds exactly these hosts.
\<close>

subsection \<open>Services and aliases\<close>

fun mask_of :: "service_t list \<Rightarrow> string list \<Rightarrow> mask \<Rightarrow> mask option" where
  "mask_of ss [] m = Some m"
| "mask_of ss (v # vs) m = Option.bind (str_get_service ss (Some v) m) (mask_of ss vs)"

definition values_of :: "conf list \<Rightarrow> string \<Rightarrow> string list" where
  "values_of cs n = concat (map conf_vals (filter (\<lambda>c. conf_name c = n) cs))"

lemma service_values_run: "mask_of (l_services w) vs m = Some m' \<Longrightarrow> service_values a vs m w = Ret (m', w)"
  by (induction vs arbitrary: m) (auto simp: bnd_run split: option.splits bind_splits)

lemma mask_of_append: "mask_of ss (us @ vs) m = Option.bind (mask_of ss us m) (mask_of ss vs)"
  by (induction us arbitrary: m) (auto split: bind_splits)

lemma values_of_place: "values_of cs n = concat (map (\<lambda>(a, c). conf_vals c) (filter (\<lambda>(a, c). conf_name c = n) (place lo cs)))"
proof -
  have "map conf_vals (filter (\<lambda>c. conf_name c = n) cs) = map (\<lambda>(a, c). conf_vals c) (filter (\<lambda>(a, c). conf_name c = n) (place lo cs))"
    by (simp add: filter_place [of "\<lambda>c. conf_name c = n" lo cs, symmetric] case_prod_beta comp_def)
  then show ?thesis by (simp add: values_of_def)
qed

lemma waiting_length: "n \<notin> N \<Longrightarrow> length (waiting (named lo cs N) n lo cs) \<le> length cs"
  using length_filter_le [of _ "place lo cs"] map_snd_place [of lo cs] length_map [of snd "place lo cs"]
  by (simp add: waiting_named)

lemma get_service_gives:
  assumes t: "taken N (pheap w) lo p cs" and n: "n \<notin> N" "length n < 256"
    and m: "mask_of (l_services w) (values_of cs n) m = Some m'" and k: "length cs < k"
  shows "gives (i_get_service k p n m) w m' (insert n N) lo p cs"
proof -
  let ?D = "named lo cs N"
  let ?v = "\<lambda>ds. concat (map (\<lambda>(a, c). conf_vals c) ds)"
  let ?I = "\<lambda>ds x w'. \<exists>h. w' = w\<lparr>pheap := h\<rparr> \<and> outside lo cs (pheap w) h \<and> mask_of (l_services w) (?v ds) m = Some x"
  have all: "mask_of (l_services w) (?v (waiting ?D n lo cs)) m = Some m'"
    using m values_of_place [of cs n lo] waiting_named(1) [OF n(1)] by simp
  have "\<exists>x' w'. entry_loop k p n (\<lambda>a m. bnd (entry_get a) (\<lambda>e. service_values a (pe_values e) m)) m w = Ret (x', w')
     \<and> ?I (waiting ?D n lo cs) x' w' \<and> entries_at (?D \<union> fst ` set (waiting ?D n lo cs)) (pheap w') lo p cs"
  proof (rule entry_loop_rule [OF t [unfolded taken_def] n(2)])
    show "?I [] m w" by (intro exI [of _ "pheap w"]) simp
    show "length (waiting ?D n lo cs) < k" using waiting_length [OF n(1), of lo cs] k by simp
  next
    fix ds a c todo x w1 e
    assume eq: "waiting ?D n lo cs = ds @ (a, c) # todo" and I: "?I ds x w1" and e: "pheap w1 a = Some e" "pe_values e = conf_vals c"
      and ac: "(a, c) \<in> set (place lo cs)" and b: "entries_at (?D \<union> fst ` set (ds @ [(a, c)])) ((pheap w1)(a \<mapsto> set_processed e)) lo p cs"
    obtain h where h: "w1 = w\<lparr>pheap := h\<rparr>" "outside lo cs (pheap w) h" "mask_of (l_services w) (?v ds) m = Some x"
      using I by blast
    obtain x' where x': "mask_of (l_services w) (conf_vals c) x = Some x'"
      using all h(3) unfolding eq by (auto simp: mask_of_append split: bind_splits)
    let ?w = "w1\<lparr>pheap := (pheap w1)(a \<mapsto> set_processed e)\<rparr>"
    have "bnd (entry_get a) (\<lambda>e. service_values a (pe_values e) x) ?w = Ret (x', ?w)"
      using service_values_run [of ?w "conf_vals c" x x' a] x' e(2) h(1) by (simp add: bnd_run set_processed_def)
    moreover have "outside lo cs (pheap w) (pheap ?w)"
      using outside_trans [OF h(2) outside_entry [OF ac]] h(1) by simp
    ultimately show "\<exists>x' w'. bnd (entry_get a) (\<lambda>e. service_values a (pe_values e) x) ?w = Ret (x', w')
       \<and> ?I (ds @ [(a, c)]) x' w' \<and> entries_at (?D \<union> fst ` set (ds @ [(a, c)])) (pheap w') lo p cs"
      using b h x' by (intro exI [of _ x'] exI [of _ ?w]) (auto simp: mask_of_append)
  qed
  then show ?thesis
    using all waiting_named(2) [OF n(1), of lo cs] by (auto simp: i_get_service_def gives_def taken_def)
qed

text \<open>The next entry of a name that may be repeated.\<close>

lemma next_value:
  assumes "entries_at D (pheap w) lo p cs" "length n < 256" "waiting D n lo cs = (a, c) # todo" "conf_vals c = [v]"
  shows "\<exists>h. single_value p (Some n) False w = Ret (Some (a, v), w\<lparr>pheap := h\<rparr>) \<and> entries_at (insert a D) h lo p cs
    \<and> waiting (insert a D) n lo cs = todo \<and> outside lo cs (pheap w) h"
proof -
  have dist: "distinct (map fst (place lo cs))"
    using chain_distinct [of "pheap w"] assms(1) by (auto simp: entries_at_def)
  have "(a, c) \<in> set (waiting D n lo cs)" using assms(3) by simp
  then have ac: "(a, c) \<in> set (place lo cs)" by (simp add: waiting_def)
  obtain e where e: "pheap w a = Some e" "pe_values e = [v]"
    using block_entry [OF assms(1) ac] assms(4) by auto
  have get: "parse_entry_get p (Some n) w = Ret (Some a, w)"
    using parse_entry_get_find [OF assms(1,2)] assms(3) by (simp add: waiting_def find_filter)
  let ?h = "(pheap w)(a \<mapsto> set_processed e)"
  have "single_value p (Some n) False w = Ret (Some (a, v), w\<lparr>pheap := ?h\<rparr>)"
    using get mark_run [OF e(1)] e(2)
    by (simp add: single_value_def i_get_entry_single_value_def bnd_run andthen_def set_processed_def)
  moreover have "waiting (insert a D) n lo cs = todo"
    using waiting_done(1) [OF dist, of D n "[]" a c todo] assms(3) by simp
  ultimately show ?thesis
    using block_mark [OF assms(1) ac e(1)] outside_entry [OF ac] by blast
qed

lemma no_value:
  assumes "entries_at D (pheap w) lo p cs" "length n < 256" "waiting D n lo cs = []"
  shows "single_value p (Some n) s w = Ret (None, w)"
  using parse_entry_get_find [OF assms(1,2)] assms(3)
  by (simp add: single_value_def i_get_entry_single_value_def bnd_run waiting_def find_filter)

definition with_aliases :: "file_t \<Rightarrow> string list \<Rightarrow> file_t" where
  "with_aliases f vs = f\<lparr>f_aliases := map Some vs @ replicate (10 - length vs) None\<rparr>"

lemma get_aliases_run:
  assumes "entries_at D (pheap w) lo p cs" "\<forall>(a, c) \<in> set (waiting D ''alias'' lo cs). length (conf_vals c) = 1"
    and "length us + length (waiting D ''alias'' lo cs) \<le> 10" "k = length us"
  shows "\<exists>h. get_aliases p [k..<10] (with_aliases f us) w
      = Ret (with_aliases f (us @ concat (map (\<lambda>(a, c). conf_vals c) (waiting D ''alias'' lo cs))), w\<lparr>pheap := h\<rparr>)
    \<and> entries_at (D \<union> fst ` set (waiting D ''alias'' lo cs)) h lo p cs \<and> outside lo cs (pheap w) h"
  using assms
proof (induction "10 - k" arbitrary: k us D w)
  case 0
  then have "length (waiting D ''alias'' lo cs) = 0" by linarith
  then have "waiting D ''alias'' lo cs = []" by simp
  with 0 show ?case by (intro exI [of _ "pheap w"]) simp
next
  case (Suc m)
  then have k: "[k..<10] = k # [Suc k..<10]" "k < 10" by (auto simp: upt_conv_Cons)
  have fa: "f_aliases (with_aliases f us) ! k = None"
    using Suc.prems(4) k(2) by (simp add: with_aliases_def nth_append)
  show ?case
  proof (cases "waiting D ''alias'' lo cs")
    case Nil
    have "single_value p (Some ''alias'') False w = Ret (None, w)"
      using no_value [OF Suc.prems(1) _ Nil] by simp
    then have g: "i_get_string p (Some ''alias'') None False w = Ret (None, w)" by (simp add: i_get_string_def bnd_run)
    have "get_aliases p is (with_aliases f us) w = Ret (with_aliases f us, w)" if "\<forall>i \<in> set is. i \<ge> length us \<and> i < 10" for "is"
      using that g by (induction "is") (auto simp: bnd_run with_aliases_def nth_append)
    with Nil Suc.prems show ?thesis by (intro exI [of _ "pheap w"]) auto
  next
    case (Cons ac todo)
    obtain a c where ac: "ac = (a, c)" by (rule prod.exhaust)
    obtain v where v: "conf_vals c = [v]" using Suc.prems(2) Cons ac by (auto simp: length_Suc_conv)
    obtain h where h: "single_value p (Some ''alias'') False w = Ret (Some (a, v), w\<lparr>pheap := h\<rparr>)" "entries_at (insert a D) h lo p cs"
      "waiting (insert a D) ''alias'' lo cs = todo" "outside lo cs (pheap w) h"
      using next_value [OF Suc.prems(1) _ Cons [unfolded ac] v] by auto
    have g: "i_get_string p (Some ''alias'') None False w = Ret (Some v, w\<lparr>pheap := h\<rparr>)"
      using h(1) by (simp add: i_get_string_def bnd_run)
    have up: "(with_aliases f us)\<lparr>f_aliases := (f_aliases (with_aliases f us))[k := Some v]\<rparr> = with_aliases f (us @ [v])"
      using Suc.prems(4) k(2) by (cases "10 - length us") (simp_all add: with_aliases_def list_update_append)
    have "\<exists>h'. get_aliases p [Suc k..<10] (with_aliases f (us @ [v])) (w\<lparr>pheap := h\<rparr>)
      = Ret (with_aliases f ((us @ [v]) @ concat (map (\<lambda>(a, c). conf_vals c) (waiting (insert a D) ''alias'' lo cs))), w\<lparr>pheap := h\<rparr>\<lparr>pheap := h'\<rparr>)
      \<and> entries_at (insert a D \<union> fst ` set (waiting (insert a D) ''alias'' lo cs)) h' lo p cs \<and> outside lo cs (pheap (w\<lparr>pheap := h\<rparr>)) h'"
      using Suc.hyps(2) Suc.prems Cons ac h(2,3) by (intro Suc.hyps(1)) auto
    then obtain h' where h': "get_aliases p [Suc k..<10] (with_aliases f (us @ [v])) (w\<lparr>pheap := h\<rparr>)
      = Ret (with_aliases f (us @ v # concat (map (\<lambda>(a, c). conf_vals c) todo)), w\<lparr>pheap := h'\<rparr>)"
      "entries_at (insert a (D \<union> fst ` set todo)) h' lo p cs" "outside lo cs h h'"
      using h(3) by auto
    then show ?thesis
      using g up fa k(1) Cons ac v outside_trans [OF h(4) h'(3)] by (intro exI [of _ h']) (simp add: bnd_run)
  qed
qed

subsection \<open>Files\<close>

definition file_names :: "string set" where
  "file_names = {''path'', ''name'', ''service'', ''alias'', ''server''}"

text \<open>The value an entry has itself, when it has exactly one.\<close>

definition own_value :: "conf \<Rightarrow> string option" where
  "own_value c = (case conf_vals c of [v] \<Rightarrow> Some v | _ \<Rightarrow> None)"

definition both :: "'a option \<Rightarrow> 'a option \<Rightarrow> bool" where
  "both a b \<longleftrightarrow> a \<noteq> None \<and> b \<noteq> None"

definition first_of :: "'a option \<Rightarrow> 'a option \<Rightarrow> 'a option" where
  "first_of a b = (case a of None \<Rightarrow> b | Some x \<Rightarrow> Some x)"

definition alias_ok :: "conf list \<Rightarrow> bool" where
  "alias_ok cs \<longleftrightarrow> (\<forall>c \<in> set cs. conf_name c = ''alias'' \<longrightarrow> length (conf_vals c) = 1)
     \<and> length (filter (\<lambda>c. conf_name c = ''alias'') cs) \<le> 10"

text \<open>The file a \<open>file\<close> section describes; \<open>None\<close> when the section has an error.\<close>

definition file_of :: "service_t list \<Rightarrow> conf \<Rightarrow> file_t option" where
  "file_of ss c = (let cs = conf_sub c in
     case (option_of Some cs ''path'', option_of Some cs ''name'', mask_of ss (values_of cs ''service'') 0, option_of Some cs ''server'') of
       (Some path, Some name, Some m, Some server) \<Rightarrow>
         if conf_name ` set cs \<subseteq> file_names \<and> alias_ok cs \<and> \<not> both (own_value c) path
         then Some (with_aliases \<lparr>f_path = first_of (own_value c) path, f_name = name, f_server = server,
            f_aliases = [], f_service = m\<rparr> (values_of cs ''alias''))
         else None
     | _ \<Rightarrow> None)"

lemma own_run:
  "pheap w a = Some e \<Longrightarrow> pe_values e = conf_vals c \<Longrightarrow>
   i_get_string (Some a) None None s w = Ret (own_value c, w)"
  by (cases "conf_vals c"; cases "tl (conf_vals c)")
    (auto simp: i_get_string_def single_value_def i_get_entry_single_value_def bnd_run own_value_def)

text \<open>A string option whose destination may have a value already.\<close>

lemma get_string_gives':
  assumes "taken N (pheap w) lo p cs" "n \<notin> N" "length n < 256" "option_of Some cs n = Some r" "\<not> both cur r"
  shows "gives (i_get_string p (Some n) cur s) w r (insert n N) lo p cs"
proof (cases "cur = None")
  case True
  then show ?thesis using get_string_gives [OF assms(1-4)] by simp
next
  case False
  then have "r = None" using assms(5) by (auto simp: both_def)
  then have "given cs n = Some None" using assms(4) by (auto simp: option_of_def split: option.splits)
  from single_absent [OF assms(1-3) this] show ?thesis
    using \<open>r = None\<close> by (auto simp: gives_def i_get_string_def bnd_run intro!: exI [of _ "pheap w"])
qed

lemma get_aliases_gives:
  assumes "taken N (pheap w) lo p cs" "''alias'' \<notin> N" "alias_ok cs"
  shows "gives (get_aliases p [0..<10] (with_aliases f [])) w (with_aliases f (values_of cs ''alias'')) (insert ''alias'' N) lo p cs"
proof -
  let ?D = "named lo cs N"
  note wn = waiting_named [OF assms(2), of lo cs]
  have one: "\<forall>(a, c) \<in> set (waiting ?D ''alias'' lo cs). length (conf_vals c) = 1"
    using assms(3) place_conf [of _ _ lo cs] by (auto simp: wn(1) alias_ok_def)
  have "length (waiting ?D ''alias'' lo cs) = length (filter (\<lambda>c. conf_name c = ''alias'') cs)"
    using arg_cong [OF filter_place [of "\<lambda>c. conf_name c = ''alias''" lo cs], of length] by (simp add: wn(1))
  then have "length [] + length (waiting ?D ''alias'' lo cs) \<le> 10" using assms(3) by (simp add: alias_ok_def)
  from get_aliases_run [OF assms(1) [unfolded taken_def] one this, of 0 f] show ?thesis
    unfolding gives_def taken_def by (simp add: wn(2)) (simp add: wn(1) values_of_place [of cs "''alias''" lo, symmetric])
qed

lemma no_more_aliases_run: "taken N (pheap w) lo p cs \<Longrightarrow> ''alias'' \<in> N \<Longrightarrow> no_more_aliases p w = Ret ((), w)"
  using get_gone [of N w lo p cs "''alias''"] by (simp add: no_more_aliases_def bnd_run)

lemma assure_all_taken:
  assumes "taken N (pheap w) lo p cs" "conf_name ` set cs \<subseteq> N"
  shows "i_assure_no_entry p None w = Ret ((), w)"
proof (rule assure_none [OF assms(1) [unfolded taken_def]])
  show "fst ` set (place lo cs) \<subseteq> named lo cs N"
    using assms(2) place_conf [of _ _ lo cs] by (fastforce simp: named_def)
qed

lemma eval_file_run:
  assumes e: "pheap w a = Some e" "pe_values e = conf_vals c" "laid (pheap w) (Suc a) (pe_sub e) (conf_sub c)"
    and f: "file_of (l_services w) c = Some f" and k: "length (conf_sub c) < k"
  shows "\<exists>h. eval_file k a w = Ret (f, w\<lparr>pheap := h\<rparr>) \<and> outside (Suc a) (conf_sub c) (pheap w) h"
proof -
  let ?cs = "conf_sub c" let ?p = "pe_sub e" let ?lo = "Suc a" let ?own = "own_value c"
  obtain path name m server where o: "option_of Some ?cs ''path'' = Some path" "option_of Some ?cs ''name'' = Some name"
    "mask_of (l_services w) (values_of ?cs ''service'') 0 = Some m" "option_of Some ?cs ''server'' = Some server"
    and ok: "conf_name ` set ?cs \<subseteq> file_names" "alias_ok ?cs" "\<not> both ?own path"
    and f': "f = with_aliases \<lparr>f_path = first_of ?own path, f_name = name, f_server = server, f_aliases = [], f_service = m\<rparr>
        (values_of ?cs ''alias'')"
    using f by (auto simp: file_of_def Let_def split: option.splits if_splits)
  define g where "g = \<lparr>f_path = first_of ?own path, f_name = name, f_server = None, f_aliases = [], f_service = m\<rparr>"
  obtain h1 where h1: "i_get_string ?p (Some ''path'') ?own True w = Ret (path, w\<lparr>pheap := h1\<rparr>)"
    "taken {''path''} h1 ?lo ?p ?cs" "outside ?lo ?cs (pheap w) h1"
    using get_string_gives' [OF laid_taken [OF e(3)] _ _ o(1) ok(3)] by (auto simp: gives_def)
  obtain h2 where h2: "i_get_string ?p (Some ''name'') None True (w\<lparr>pheap := h1\<rparr>) = Ret (name, w\<lparr>pheap := h2\<rparr>)"
    "taken {''name'', ''path''} h2 ?lo ?p ?cs" "outside ?lo ?cs h1 h2"
    using get_string_gives [of _ "w\<lparr>pheap := h1\<rparr>", OF _ _ _ o(2)] h1(2) by (fastforce simp: gives_def)
  obtain h3 where h3: "i_get_service k ?p ''service'' 0 (w\<lparr>pheap := h2\<rparr>) = Ret (m, w\<lparr>pheap := h3\<rparr>)"
    "taken {''service'', ''name'', ''path''} h3 ?lo ?p ?cs" "outside ?lo ?cs h2 h3"
    using get_service_gives [of _ "w\<lparr>pheap := h2\<rparr>" ?lo ?p ?cs "''service''" 0 m] h2(2) o(3) k by (fastforce simp: gives_def)
  obtain h4 where h4: "get_aliases ?p [0..<10] (with_aliases g []) (w\<lparr>pheap := h3\<rparr>)
      = Ret (with_aliases g (values_of ?cs ''alias''), w\<lparr>pheap := h4\<rparr>)"
    "taken {''alias'', ''service'', ''name'', ''path''} h4 ?lo ?p ?cs" "outside ?lo ?cs h3 h4"
    using get_aliases_gives [of _ "w\<lparr>pheap := h3\<rparr>" ?lo ?p ?cs g] h3(2) ok(2) by (fastforce simp: gives_def)
  obtain h5 where h5: "i_get_string ?p (Some ''server'') None True (w\<lparr>pheap := h4\<rparr>) = Ret (server, w\<lparr>pheap := h5\<rparr>)"
    "taken {''server'', ''alias'', ''service'', ''name'', ''path''} h5 ?lo ?p ?cs" "outside ?lo ?cs h4 h5"
    using get_string_gives [of _ "w\<lparr>pheap := h4\<rparr>", OF _ _ _ o(4)] h4(2) by (fastforce simp: gives_def)
  have none: "i_assure_no_entry ?p None (w\<lparr>pheap := h5\<rparr>) = Ret ((), w\<lparr>pheap := h5\<rparr>)"
    using assure_all_taken [of _ "w\<lparr>pheap := h5\<rparr>" ?lo ?p ?cs] h5(2) ok(1) by (auto simp: file_names_def)
  have more: "no_more_aliases ?p (w\<lparr>pheap := h4\<rparr>) = Ret ((), w\<lparr>pheap := h4\<rparr>)"
    using no_more_aliases_run [of _ "w\<lparr>pheap := h4\<rparr>" ?lo ?p ?cs] h4(2) by simp
  have new: "host_file_new\<lparr>f_path := (if ?own = None then path else ?own), f_name := name, f_service := m\<rparr> = with_aliases g []"
    by (auto simp: host_file_new_def with_aliases_def g_def first_of_def)
  have done': "(with_aliases g (values_of ?cs ''alias''))\<lparr>f_server := server\<rparr> = f" "f_server (with_aliases g vs) = None" for vs
    by (simp_all add: f' g_def with_aliases_def)
  have "eval_file k a w = Ret (f, w\<lparr>pheap := h5\<rparr>)"
    using own_run [OF e(1,2), of True] e(1) h1(1) h2(1) h3(1) h4(1) h5(1) none more new done'
    by (simp add: eval_file_def bnd_run andthen_def Let_def host_file_new_def)
  moreover have "outside ?lo ?cs (pheap w) h5"
    using h1(3) h2(3) h3(3) h4(3) h5(3) by (meson outside_trans)
  ultimately show ?thesis by blast
qed

subsection \<open>The files of a host\<close>

text \<open>Work inside the block of a processed entry.\<close>

lemma block_sub:
  assumes "entries_at D h lo p cs" "(a, c) \<in> set (place lo cs)" "a \<in> D" "outside (Suc a) (conf_sub c) h h'"
  shows "entries_at D h' lo p cs"
proof (rule block_frame [OF assms(1)])
  fix b d
  assume bd: "(b, d) \<in> set (place lo cs)"
  then have "b \<le> a \<or> a + conf_nodes c \<le> b" using place_apart [OF assms(2) bd] conf_nodes_pos [of d] by auto
  then show "h' b = h b" using assms(4) by (auto simp: outside_def conf_nodes_sub)
next
  fix b d i
  assume bd: "(b, d) \<in> set (place lo cs)" and b: "b \<notin> D" "b < i" "i < b + conf_nodes d"
  then have "b \<noteq> a" using assms(3) by auto
  then have "b + conf_nodes d \<le> a \<or> a + conf_nodes c \<le> b" using place_apart [OF assms(2) bd] by auto
  then show "h' i = h i" using assms(4) b by (auto simp: outside_def conf_nodes_sub)
qed

lemma outside_sub: "(a, c) \<in> set (place lo cs) \<Longrightarrow> outside (Suc a) (conf_sub c) h h' \<Longrightarrow> outside lo cs h h'"
  using place_range [of a c lo cs] by (auto simp: outside_def conf_nodes_sub)

lemma laid_mark: "laid h (Suc a) p cs \<Longrightarrow> laid (h(a \<mapsto> e)) (Suc a) p cs"
  using laid_cong [of "Suc a" cs "h(a \<mapsto> e)" h p] by simp

lemma host_file_add_run:
  assumes "file_defaults f = Ret (Some f')" "hheap w a = Some t"
    and "\<forall>n \<in> set (h_files t). f_name n \<noteq> None \<and> \<not> same_name (f_name n) (f_name f')"
  shows "host_file_add a (Some f) w = Ret ((), w\<lparr>hheap := (hheap w)(a \<mapsto> t\<lparr>h_files := h_files t @ [f']\<rparr>)\<rparr>)"
proof -
  have "find (\<lambda>n. f_name n = None \<or> same_name (f_name n) (f_name f')) (h_files t) = None"
    using assms(3) by (auto simp: find_None_iff)
  then show ?thesis using assms(1,2) by (simp add: host_file_add_def host_file_insert_def bnd_run)
qed

text \<open>The files of a list of sections, added to the files \<open>fs\<close>.\<close>

fun files_of :: "service_t list \<Rightarrow> file_t list \<Rightarrow> conf list \<Rightarrow> file_t list option" where
  "files_of ss fs [] = Some fs"
| "files_of ss fs (c # cs) = Option.bind (file_of ss c) (\<lambda>f. case file_defaults f of
      Ret (Some f') \<Rightarrow> if \<forall>n \<in> set fs. f_name n \<noteq> None \<and> \<not> same_name (f_name n) (f_name f')
        then files_of ss (fs @ [f']) cs else None
    | _ \<Rightarrow> None)"

lemma files_of_append: "files_of ss fs (xs @ ys) = Option.bind (files_of ss fs xs) (\<lambda>fs. files_of ss fs ys)"
  by (induction xs arbitrary: fs) (auto split: bind_splits outcome.splits option.splits)

lemma files_of_one:
  "files_of ss fs [c] = Some fs' \<Longrightarrow> \<exists>f f'. file_of ss c = Some f \<and> file_defaults f = Ret (Some f')
     \<and> (\<forall>n \<in> set fs. f_name n \<noteq> None \<and> \<not> same_name (f_name n) (f_name f')) \<and> fs' = fs @ [f']"
  by (auto split: bind_splits outcome.splits option.splits if_splits)

lemma eval_files_run:
  assumes t: "taken N (pheap w) lo p cs" and n: "''file'' \<notin> N" and hp: "hheap w hp = Some t"
    and fs: "files_of (l_services w) (h_files t) (filter (\<lambda>c. conf_name c = ''file'') cs) = Some fs"
    and k: "length cs < k" "\<forall>c \<in> set cs. length (conf_sub c) < k"
  shows "\<exists>h. i_eval_host_files k p hp w = Ret ((), w\<lparr>hheap := (hheap w)(hp \<mapsto> t\<lparr>h_files := fs\<rparr>), pheap := h\<rparr>)
    \<and> taken (insert ''file'' N) h lo p cs \<and> outside lo cs (pheap w) h"
proof -
  let ?D = "named lo cs N"
  let ?F = "\<lambda>a x. bnd (eval_file k a) (\<lambda>f. host_file_add hp (Some f))"
  let ?I = "\<lambda>ds (x :: unit) w'. \<exists>h gs. w' = w\<lparr>hheap := (hheap w)(hp \<mapsto> t\<lparr>h_files := gs\<rparr>), pheap := h\<rparr>
    \<and> outside lo cs (pheap w) h \<and> files_of (l_services w) (h_files t) (map snd ds) = Some gs"
  have all: "files_of (l_services w) (h_files t) (map snd (waiting ?D ''file'' lo cs)) = Some fs"
    using fs by (simp add: waiting_named(1) [OF n] filter_place)
  have "\<exists>x' w'. entry_loop k p ''file'' ?F () w = Ret (x', w')
     \<and> ?I (waiting ?D ''file'' lo cs) x' w' \<and> entries_at (?D \<union> fst ` set (waiting ?D ''file'' lo cs)) (pheap w') lo p cs"
  proof (rule entry_loop_rule [OF t [unfolded taken_def]])
    show "?I [] () w" using hp by (intro exI [of _ "pheap w"] exI [of _ "h_files t"]) (simp add: fun_upd_idem)
    show "length (waiting ?D ''file'' lo cs) < k" using waiting_length [OF n, of lo cs] k by simp
  next
    fix ds a c todo x w1 e
    assume eq: "waiting ?D ''file'' lo cs = ds @ (a, c) # todo" and I: "?I ds x w1" and e: "pheap w1 a = Some e" "pe_values e = conf_vals c"
      and ac: "(a, c) \<in> set (place lo cs)" and l: "laid (pheap w1) (Suc a) (pe_sub e) (conf_sub c)"
      and b: "entries_at (?D \<union> fst ` set (ds @ [(a, c)])) ((pheap w1)(a \<mapsto> set_processed e)) lo p cs"
    obtain h gs where h: "w1 = w\<lparr>hheap := (hheap w)(hp \<mapsto> t\<lparr>h_files := gs\<rparr>), pheap := h\<rparr>" "outside lo cs (pheap w) h"
      "files_of (l_services w) (h_files t) (map snd ds) = Some gs" using I by blast
    have "\<exists>gs'. files_of (l_services w) gs [c] = Some gs'"
      using all h(3) unfolding eq by (auto simp: files_of_append split: bind_splits outcome.splits option.splits if_splits)
    then obtain f f' where f: "file_of (l_services w) c = Some f" "file_defaults f = Ret (Some f')"
      "\<forall>n \<in> set gs. f_name n \<noteq> None \<and> \<not> same_name (f_name n) (f_name f')" "files_of (l_services w) gs [c] = Some (gs @ [f'])"
      using files_of_one by (metis (no_types, lifting))
    let ?w = "w1\<lparr>pheap := (pheap w1)(a \<mapsto> set_processed e)\<rparr>"
    have "\<exists>h'. eval_file k a ?w = Ret (f, ?w\<lparr>pheap := h'\<rparr>) \<and> outside (Suc a) (conf_sub c) (pheap ?w) h'"
      using e l f(1) h(1) k(2) place_conf [OF ac] laid_mark [OF l]
      by (intro eval_file_run [of ?w a "set_processed e"]) (auto simp: set_processed_def)
    then obtain h' where h': "eval_file k a ?w = Ret (f, ?w\<lparr>pheap := h'\<rparr>)" "outside (Suc a) (conf_sub c) (pheap ?w) h'" by blast
    have "host_file_add hp (Some f) (?w\<lparr>pheap := h'\<rparr>) = Ret ((), w\<lparr>hheap := (hheap w)(hp \<mapsto> t\<lparr>h_files := gs @ [f']\<rparr>), pheap := h'\<rparr>)"
      using host_file_add_run [OF f(2), of "?w\<lparr>pheap := h'\<rparr>" hp "t\<lparr>h_files := gs\<rparr>"] f(3) h(1) by simp
    moreover have sub: "outside (Suc a) (conf_sub c) ((pheap w1)(a \<mapsto> set_processed e)) h'" using h'(2) by simp
    have "outside lo cs (pheap w) h'"
      using outside_trans [OF h(2)] outside_trans [OF outside_entry [OF ac] outside_sub [OF ac sub]] h(1) by simp
    moreover have "entries_at (?D \<union> fst ` set (ds @ [(a, c)])) h' lo p cs"
      using block_sub [OF b ac _ sub] by simp
    ultimately show "\<exists>x' w'. ?F a x ?w = Ret (x', w') \<and> ?I (ds @ [(a, c)]) x' w'
       \<and> entries_at (?D \<union> fst ` set (ds @ [(a, c)])) (pheap w') lo p cs"
      using h'(1) h(3) f(4)
      by (intro exI [of _ "()"] exI [of _ "w\<lparr>hheap := (hheap w)(hp \<mapsto> t\<lparr>h_files := gs @ [f']\<rparr>), pheap := h'\<rparr>"])
        (auto simp: bnd_run files_of_append)
  qed simp
  then show ?thesis
    using all waiting_named(2) [OF n, of lo cs] by (auto simp: i_eval_host_files_def taken_def)
qed

subsection \<open>Hosts\<close>

definition host_names :: "string set" where
  "host_names = {''name'', ''ether'', ''ip'', ''service'', ''file''}"

text \<open>The host a \<open>host\<close> section describes, before \<open>host_add\<close>.\<close>

definition host_of :: "sys \<Rightarrow> service_t list \<Rightarrow> conf \<Rightarrow> host_t option" where
  "host_of S ss c = (let cs = conf_sub c in
     case (option_of Some cs ''name'', option_of (s_ether_aton S) cs ''ether'', option_of (s_inet_aton S) cs ''ip'',
       mask_of ss (values_of cs ''service'') 0, files_of ss [] (filter (\<lambda>c. conf_name c = ''file'') cs)) of
       (Some name, Some eth, Some ip, Some m, Some fs) \<Rightarrow>
         if conf_name ` set cs \<subseteq> host_names \<and> \<not> both (own_value c) name
         then Some (host_new\<lparr>h_name := first_of (own_value c) name, h_service := m, h_eth := upd eth (replicate 6 0),
           h_ip := upd ip (replicate 4 0), h_files := fs\<rparr>)
         else None
     | _ \<Rightarrow> None)"

text \<open>Stores into the new host \<open>a\<close>, whose record goes from \<open>t\<close> to \<open>t'\<close>.\<close>

definition host_is :: "world \<Rightarrow> addr \<Rightarrow> host_t \<Rightarrow> (addr \<Rightarrow> parse_entry_t option) \<Rightarrow> world" where
  "host_is w a t h = w\<lparr>brk := Suc (brk w), hheap := (hheap w)(a \<mapsto> t), pheap := h\<rparr>"

lemma host_is_simps [simp]:
  "hheap (host_is w a t h) = (hheap w)(a \<mapsto> t)" "pheap (host_is w a t h) = h" "l_services (host_is w a t h) = l_services w"
  "(host_is w a t h)\<lparr>pheap := h'\<rparr> = host_is w a t h'"
  by (simp_all add: host_is_def)

lemma host_is_files: "(host_is w a t h)\<lparr>hheap := (hheap w)(a \<mapsto> t'), pheap := h'\<rparr> = host_is w a t' h'"
  by (simp add: host_is_def)

lemma host_set_is: "host_set a f (host_is w a t h) = Ret ((), host_is w a (f t) h)"
  by (simp add: host_set_def bnd_run) (simp add: host_is_def)

lemma host_store_is: "host_store a f r (host_is w a t h) = Ret ((), host_is w a (case r of None \<Rightarrow> t | Some x \<Rightarrow> f x t) h)"
  by (simp add: host_store_def host_set_is split: option.split)

lemma gives_host_store:
  assumes "gives m (host_is w a t h) r N lo p cs"
  shows "\<exists>h'. bnd m (host_store a f) (host_is w a t h) = Ret ((), host_is w a (case r of None \<Rightarrow> t | Some x \<Rightarrow> f x t) h')
    \<and> taken N h' lo p cs \<and> outside lo cs h h'"
  using assms by (auto simp: gives_def bnd_run host_store_is)

lemma eval_host_builds:
  assumes e: "pheap w a = Some e" "pe_values e = conf_vals c" "laid (pheap w) (Suc a) (pe_sub e) (conf_sub c)"
    and t: "host_of S (l_services w) c = Some t"
    and k: "length (conf_sub c) < k" "\<forall>d \<in> set (conf_sub c). length (conf_sub d) < k"
  shows "\<exists>h. eval_host S k a w = host_add S (Some (brk w)) (host_is w (brk w) t h) \<and> outside (Suc a) (conf_sub c) (pheap w) h"
proof -
  let ?cs = "conf_sub c" let ?p = "pe_sub e" let ?lo = "Suc a" let ?own = "own_value c" let ?b = "brk w"
  obtain name eth ip m fs where o: "option_of Some ?cs ''name'' = Some name" "option_of (s_ether_aton S) ?cs ''ether'' = Some eth"
    "option_of (s_inet_aton S) ?cs ''ip'' = Some ip" "mask_of (l_services w) (values_of ?cs ''service'') 0 = Some m"
    "files_of (l_services w) [] (filter (\<lambda>c. conf_name c = ''file'') ?cs) = Some fs"
    and ok: "conf_name ` set ?cs \<subseteq> host_names" "\<not> both ?own name"
    and t': "t = host_new\<lparr>h_name := first_of ?own name, h_service := m, h_eth := upd eth (replicate 6 0),
      h_ip := upd ip (replicate 4 0), h_files := fs\<rparr>"
    using t by (auto simp: host_of_def Let_def split: option.splits if_splits)
  define t0 where "t0 = host_new\<lparr>h_name := ?own\<rparr>"
  define t1 where "t1 = host_new\<lparr>h_name := first_of ?own name\<rparr>"
  define t2 where "t2 = t1\<lparr>h_eth := upd eth (replicate 6 0)\<rparr>"
  define t3 where "t3 = t2\<lparr>h_ip := upd ip (replicate 4 0)\<rparr>"
  define t4 where "t4 = t3\<lparr>h_service := m\<rparr>"
  have own: "bnd (i_get_string (Some a) None None True) (host_store ?b (\<lambda>x t. t\<lparr>h_name := Some x\<rparr>)) (host_is w ?b host_new (pheap w))
      = Ret ((), host_is w ?b t0 (pheap w))"
    using own_run [of "host_is w ?b host_new (pheap w)" a e c True] e(1,2)
    by (cases ?own) (simp_all add: bnd_run host_store_is t0_def host_new_def)
  have t0n: "h_name t0 = ?own" by (simp add: t0_def)
  obtain h1 where h1: "bnd (i_get_string ?p (Some ''name'') ?own True) (host_store ?b (\<lambda>x t. t\<lparr>h_name := Some x\<rparr>)) (host_is w ?b t0 (pheap w))
      = Ret ((), host_is w ?b t1 h1)" "taken {''name''} h1 ?lo ?p ?cs" "outside ?lo ?cs (pheap w) h1"
    using gives_host_store [OF get_string_gives' [of "{}" "host_is w ?b t0 (pheap w)" ?lo ?p ?cs, OF _ _ _ o(1) ok(2)],
        of True "\<lambda>x t. t\<lparr>h_name := Some x\<rparr>"] laid_taken [OF e(3)] ok(2)
    by (cases name; cases ?own) (auto simp: t0_def t1_def first_of_def both_def)
  obtain h2 where h2: "bnd (i_get_ether S ?p (Some ''ether'') True) (host_store ?b (\<lambda>x t. t\<lparr>h_eth := x\<rparr>)) (host_is w ?b t1 h1)
      = Ret ((), host_is w ?b t2 h2)" "taken {''ether'', ''name''} h2 ?lo ?p ?cs" "outside ?lo ?cs h1 h2"
    using gives_host_store [OF get_ether_gives [of "{''name''}" "host_is w ?b t1 h1" ?lo ?p ?cs, OF _ _ _ o(2)],
        of True "\<lambda>x t. t\<lparr>h_eth := x\<rparr>"] h1(2)
    by (cases eth) (auto simp: t2_def t1_def host_new_def)
  obtain h3 where h3: "bnd (i_get_ip S ?p (Some ''ip'') True) (host_store ?b (\<lambda>x t. t\<lparr>h_ip := x\<rparr>)) (host_is w ?b t2 h2)
      = Ret ((), host_is w ?b t3 h3)" "taken {''ip'', ''ether'', ''name''} h3 ?lo ?p ?cs" "outside ?lo ?cs h2 h3"
    using gives_host_store [OF get_ip_gives [of "{''ether'', ''name''}" "host_is w ?b t2 h2" ?lo ?p ?cs, OF _ _ _ o(3)],
        of True "\<lambda>x t. t\<lparr>h_ip := x\<rparr>"] h2(2)
    by (cases ip) (auto simp: t3_def t2_def t1_def host_new_def)
  have s0: "h_service t3 = 0" "h_files t4 = []" by (simp_all add: t4_def t3_def t2_def t1_def host_new_def)
  have t5: "t4\<lparr>h_files := fs\<rparr> = t" by (simp add: t' t4_def t3_def t2_def t1_def)
  obtain h4 where h4: "i_get_service k ?p ''service'' 0 (host_is w ?b t3 h3) = Ret (m, host_is w ?b t3 h4)"
    "taken {''service'', ''ip'', ''ether'', ''name''} h4 ?lo ?p ?cs" "outside ?lo ?cs h3 h4"
    using get_service_gives [of _ "host_is w ?b t3 h3" ?lo ?p ?cs "''service''" 0 m k] h3(2) o(4) k(1) by (fastforce simp: gives_def)
  obtain h5 where h5: "i_eval_host_files k ?p ?b (host_is w ?b t4 h4) = Ret ((), host_is w ?b t h5)"
    "taken {''file'', ''service'', ''ip'', ''ether'', ''name''} h5 ?lo ?p ?cs" "outside ?lo ?cs h4 h5"
    using eval_files_run [of "{''service'', ''ip'', ''ether'', ''name''}" "host_is w ?b t4 h4" ?lo ?p ?cs ?b t4 fs k] h4(2) o(5) k s0(2)
    by (auto simp: host_is_files t5)
  have none: "i_assure_no_entry ?p None (host_is w ?b t h5) = Ret ((), host_is w ?b t h5)"
    using assure_all_taken [of _ "host_is w ?b t h5" ?lo ?p ?cs] h5(2) ok(1) by (auto simp: host_names_def)
  have alloc: "malloc w = Ret (?b, w\<lparr>brk := Suc (brk w)\<rparr>)" by simp
  have start: "host_put ?b host_new (w\<lparr>brk := Suc (brk w)\<rparr>) = Ret ((), host_is w ?b host_new (pheap w))"
    by (simp add: host_is_def)
  have get: "entry_get a (host_is w ?b t0 (pheap w)) = Ret (e, host_is w ?b t0 (pheap w))" using e(1) by simp
  have name': "bnd (bnd (host_get ?b) (\<lambda>t. i_get_string ?p (Some ''name'') (h_name t) True)) k' (host_is w ?b t0 (pheap w))
      = bnd (i_get_string ?p (Some ''name'') ?own True) k' (host_is w ?b t0 (pheap w))" for k' :: "string option \<Rightarrow> unit cmd"
    using t0n by (simp add: bnd_run)
  have serv: "bnd (bnd (host_get ?b) (\<lambda>t. i_get_service k ?p ''service'' (h_service t))) (\<lambda>m. host_set ?b (\<lambda>t. t\<lparr>h_service := m\<rparr>))
      (host_is w ?b t3 h3) = Ret ((), host_is w ?b t4 h4)"
    using h4(1) s0(1) by (simp add: bnd_run host_set_is t4_def)
  have "eval_host S k a w = host_add S (Some ?b) (host_is w ?b t h5)"
    unfolding eval_host_def Let_def
    by (simp only: bnd_Ret alloc start own get name' h1(1) h2(1) h3(1) serv h5(1) none andthen_run)
  moreover have "outside ?lo ?cs (pheap w) h5"
    using h1(3) h2(3) h3(3) h4(3) h5(3) by (meson outside_trans)
  ultimately show ?thesis by blast
qed

subsection \<open>Adding the hosts\<close>

text \<open>
  A host record that \<open>host_add\<close> takes as it is: it has a name, an address of each kind, and
  the description of its files fits in \<open>files[2048]\<close>. What is added has its services filled in.
\<close>

definition filled :: "host_t \<Rightarrow> host_t" where
  "filled t = (let m = (if h_service t = 0 then SERVICE_ALL else h_service t)
     in t\<lparr>h_service := m, h_files := map (default_service m) (h_files t)\<rparr>)"

definition complete :: "service_t list \<Rightarrow> host_t \<Rightarrow> bool" where
  "complete ss t \<longleftrightarrow> h_name t \<noteq> None \<and> util_ip_valid (h_ip t) \<and> util_ether_valid (h_eth t) \<and> h_next t = None
     \<and> (case files_log_text ss (h_files (filled t)) of Ret text \<Rightarrow> length text < 2048 | _ \<Rightarrow> False)"

lemma filled_simps [simp]: "h_name (filled t) = h_name t" "h_next (filled t) = h_next t"
  by (simp_all add: filled_def Let_def)

text \<open>The same hosts in the same order, up to their \<open>next\<close> fields.\<close>

definition same_but_next :: "(addr \<Rightarrow> host_t option) \<Rightarrow> (addr \<Rightarrow> host_t option) \<Rightarrow> bool" where
  "same_but_next h h' \<longleftrightarrow> (\<forall>b. map_option (set_h_next None) (h' b) = map_option (set_h_next None) (h b))"

lemma host_link_append:
  assumes "named_hosts w xs" "hheap w a = Some t" "a \<notin> set xs" "h_next t = None" "h_name t \<noteq> None"
    and "\<And>b. b \<in> set xs \<Longrightarrow> \<not> same_name (h_name t) (h_name (host_at w b))"
  shows "\<exists>h g. host_link a w = Ret ((), w\<lparr>hheap := h, g_hosts := g\<rparr>) \<and> hosts (w\<lparr>hheap := h, g_hosts := g\<rparr>) (xs @ [a])
    \<and> same_but_next (hheap w) h"
proof (cases "xs = []")
  case True
  then have "g_hosts w = None" using assms(1) by (simp add: named_hosts_def hosts_def)
  with True assms show ?thesis
    by (intro exI [of _ "hheap w"] exI [of _ "Some a"]) (simp add: host_link_def bnd_run hosts_def same_but_next_def)
next
  case False
  have l: "hheap w (last xs) = Some (host_at w (last xs))"
    using hosts_alloc [of w xs "last xs"] assms(1) False by (simp add: named_hosts_def)
  show ?thesis
    using host_link_new [OF assms(1) False assms(2,6)] host_link_chain [OF assms(1) False assms(2-4)] l
    by (intro exI [of _ "(hheap w)(last xs \<mapsto> set_h_next (Some a) (host_at w (last xs)))"] exI [of _ "g_hosts w"])
      (auto simp: set_h_next_def same_but_next_def)
qed

lemma named_but_next:
  assumes "hosts w (xs @ [a])" "same_but_next h (hheap w)" "\<forall>b \<in> set (xs @ [a]). \<exists>t. h b = Some t \<and> h_name t \<noteq> None"
  shows "named_hosts w (xs @ [a])"
  unfolding named_hosts_def
proof (intro conjI ballI assms(1))
  fix b assume b: "b \<in> set (xs @ [a])"
  then obtain t where t: "h b = Some t" "h_name t \<noteq> None" using assms(3) by blast
  obtain t' where t': "hheap w b = Some t'" using hosts_alloc [OF assms(1) b] by blast
  have "set_h_next None t' = set_h_next None t" using assms(2) t(1) t' by (simp add: same_but_next_def) (metis option.map(2) option.inject)
  then have "h_name t' = h_name t" by (metis set_h_next_def host_t.select_convs(3) host_t.surjective host_t.update_convs(1))
  then show "h_name (host_at w b) \<noteq> None" using t(2) t' by (simp add: host_at_def)
qed

lemma host_add_run:
  assumes nh: "named_hosts w xs" and a: "hheap w a = Some t" "a \<notin> set xs" and c: "complete (l_services w) t"
    and new: "\<And>b. b \<in> set xs \<Longrightarrow> \<not> same_name (h_name t) (h_name (host_at w b))"
  shows "\<exists>h g. runs (host_add S (Some a)) w () (w\<lparr>hheap := h, g_hosts := g\<rparr>) \<and> named_hosts (w\<lparr>hheap := h, g_hosts := g\<rparr>) (xs @ [a])
    \<and> same_but_next ((hheap w)(a \<mapsto> filled t)) h"
proof -
  obtain s where s: "files_log_text (l_services w) (h_files (filled t)) = Ret s" "length s < 2048"
    using c by (auto simp: complete_def split: outcome.splits)
  let ?w1 = "w\<lparr>hheap := (hheap w)(a \<mapsto> filled t)\<rparr>"
  obtain ls where d: "host_defaults a w = Ret ((), ?w1\<lparr>logs := ls\<rparr>)"
    using a(1) s log_msg_run [of "LOG_DEBUG OR LOG_CONF" "''host %s  ether: %s  ip: %s  service: %s%s''" ?w1]
    by (simp add: host_defaults_def bnd_run andthen_def Let_def filled_def)
  let ?w2 = "?w1\<lparr>logs := ls\<rparr>"
  have at: "host_at ?w2 b = host_at w b" if "b \<in> set xs" for b using that a(2) by (auto simp: host_at_def)
  have "chain (hheap w) h_next (g_hosts w) xs" using nh by (simp add: named_hosts_def hosts_def)
  then have "chain (hheap ?w2) h_next (g_hosts w) xs"
    by (rule chain_agree) (use a(2) in auto)
  then have "hosts ?w2 xs" by (simp add: hosts_def)
  then have nh2: "named_hosts ?w2 xs" using nh at by (auto simp: named_hosts_def)
  obtain h g where l: "host_link a ?w2 = Ret ((), ?w2\<lparr>hheap := h, g_hosts := g\<rparr>)" "hosts (?w2\<lparr>hheap := h, g_hosts := g\<rparr>) (xs @ [a])"
    "same_but_next (hheap ?w2) h"
    using host_link_append [OF nh2, of a "filled t"] a new at c by (auto simp: complete_def)
  have "host_add S (Some a) w = Ret ((), ?w2\<lparr>hheap := h, g_hosts := g\<rparr>)"
    using c a(1) d l(1)
    by (simp add: host_add_def host_fill_name_def host_fill_ip_def host_fill_ether_def complete_def bnd_run andthen_def)
  then have "runs (host_add S (Some a)) w () (w\<lparr>hheap := h, g_hosts := g\<rparr>)" by (simp add: runs_def)
  moreover have "named_hosts (w\<lparr>hheap := h, g_hosts := g\<rparr>) (xs @ [a])"
  proof (rule named_but_next)
    show "hosts (w\<lparr>hheap := h, g_hosts := g\<rparr>) (xs @ [a])" using l(2) by (simp add: hosts_def)
    show "same_but_next (hheap ?w2) (hheap (w\<lparr>hheap := h, g_hosts := g\<rparr>))" using l(3) by simp
    show "\<forall>b \<in> set (xs @ [a]). \<exists>t. hheap ?w2 b = Some t \<and> h_name t \<noteq> None"
      using nh2 hosts_alloc [of ?w2 xs] c by (auto simp: named_hosts_def complete_def)
  qed
  ultimately show ?thesis using l(3) by auto
qed

text \<open>
  All \<open>host\<close> sections of a list. Each of them is complete, and no two of them and no known
  host have the same name.
\<close>

fun hosts_of :: "sys \<Rightarrow> service_t list \<Rightarrow> conf list \<Rightarrow> host_t list option" where
  "hosts_of S ss [] = Some []"
| "hosts_of S ss (c # cs) = Option.bind (host_of S ss c) (\<lambda>t. if complete ss t
      then map_option (Cons (filled t)) (hosts_of S ss cs) else None)"

definition host_sections :: "conf list \<Rightarrow> conf list" where
  "host_sections cs = filter (\<lambda>c. conf_name c = ''host'') cs"

definition new_names :: "host_t list \<Rightarrow> bool" where
  "new_names ts \<longleftrightarrow> (\<forall>i < length ts. \<forall>j < i. \<not> same_name (h_name (ts ! i)) (h_name (ts ! j)))"

text \<open>The hosts at the addresses \<open>xs\<close> are the records \<open>ts\<close>.\<close>

definition hosts_are :: "world \<Rightarrow> addr list \<Rightarrow> host_t list \<Rightarrow> bool" where
  "hosts_are w xs ts \<longleftrightarrow> named_hosts w xs \<and> map (\<lambda>a. (host_at w a)\<lparr>h_next := None\<rparr>) xs = ts"

lemma hosts_of_append: "hosts_of S ss (xs @ ys) = Option.bind (hosts_of S ss xs) (\<lambda>ts. map_option ((@) ts) (hosts_of S ss ys))"
  by (cases "hosts_of S ss ys"; induction xs) (auto split: bind_splits)

lemma hosts_of_one: "hosts_of S ss [c] = Some ts \<Longrightarrow> \<exists>t. host_of S ss c = Some t \<and> complete ss t \<and> ts = [filled t]"
  by (auto split: bind_splits if_splits)

lemma new_names_last: "new_names (ts @ [t]) \<Longrightarrow> u \<in> set ts \<Longrightarrow> \<not> same_name (h_name t) (h_name u)"
proof -
  assume n: "new_names (ts @ [t])" and "u \<in> set ts"
  then obtain j where j: "j < length ts" "ts ! j = u" by (auto simp: in_set_conv_nth)
  have "\<not> same_name (h_name ((ts @ [t]) ! length ts)) (h_name ((ts @ [t]) ! j))"
    using n [unfolded new_names_def, rule_format, of "length ts" j] j(1) by simp
  then show ?thesis using j by (simp add: nth_append)
qed

lemma new_names_prefix: "new_names (ts @ us) \<Longrightarrow> new_names ts"
proof (unfold new_names_def, intro allI impI)
  fix i j
  assume n: "\<forall>i < length (ts @ us). \<forall>j < i. \<not> same_name (h_name ((ts @ us) ! i)) (h_name ((ts @ us) ! j))"
    and i: "i < length ts" "j < i"
  then have "\<not> same_name (h_name ((ts @ us) ! i)) (h_name ((ts @ us) ! j))" by simp
  with i show "\<not> same_name (h_name (ts ! i)) (h_name (ts ! j))" by (simp add: nth_append)
qed

lemma hosts_are_append:
  assumes a: "hosts_are w xs ts" and h: "same_but_next ((hheap w)(a \<mapsto> t)) h" "a \<notin> set xs" "h_next t = None"
    and n: "named_hosts (w\<lparr>hheap := h, g_hosts := g\<rparr>) (xs @ [a])"
  shows "hosts_are (w\<lparr>hheap := h, g_hosts := g\<rparr>) (xs @ [a]) (ts @ [t])"
proof -
  have same: "(the (h b))\<lparr>h_next := None\<rparr> = (the (((hheap w)(a \<mapsto> t)) b))\<lparr>h_next := None\<rparr>"
    if ne: "((hheap w)(a \<mapsto> t)) b \<noteq> None" for b
  proof -
    obtain u where u: "((hheap w)(a \<mapsto> t)) b = Some u" using ne by blast
    then have "map_option (set_h_next None) (h b) = Some (set_h_next None u)" using h(1) by (auto simp: same_but_next_def)
    then show ?thesis using u by (auto simp: set_h_next_def)
  qed
  have "(the (h b))\<lparr>h_next := None\<rparr> = (host_at w b)\<lparr>h_next := None\<rparr>" if b: "b \<in> set xs" for b
  proof -
    have "b \<noteq> a" "hheap w b = Some (host_at w b)"
      using b h(2) hosts_alloc [of w xs b] a by (auto simp: hosts_are_def named_hosts_def)
    with same [of b] show ?thesis by simp
  qed
  moreover have "(the (h a))\<lparr>h_next := None\<rparr> = t" using same [of a] h(3) by simp
  ultimately show ?thesis using a n by (auto simp: hosts_are_def host_at_def)
qed

lemma hosts_are_alloc:
  assumes "hosts_are w xs ts" "a \<notin> set xs"
  shows "hosts_are (host_is w a t h) xs ts"
proof -
  have at: "host_at (host_is w a t h) b = host_at w b" if "b \<in> set xs" for b using that assms(2) by (auto simp: host_at_def)
  have "chain (hheap w) h_next (g_hosts w) xs" using assms(1) by (simp add: hosts_are_def named_hosts_def hosts_def)
  then have "chain ((hheap w)(a \<mapsto> t)) h_next (g_hosts w) xs"
    by (rule chain_agree) (use assms(2) in auto)
  then have "hosts (host_is w a t h) xs" by (simp add: hosts_def host_is_def)
  then show ?thesis using assms(1) at by (auto simp: hosts_are_def named_hosts_def)
qed

definition only_hosts :: "world \<Rightarrow> world \<Rightarrow> bool" where
  "only_hosts w w' \<longleftrightarrow> w'\<lparr>brk := brk w, hheap := hheap w, g_hosts := g_hosts w, pheap := pheap w, logs := logs w\<rparr> = w"

lemma only_hosts_refl [simp]: "only_hosts w w"
  by (simp add: only_hosts_def)

lemma only_hosts_trans: "only_hosts a b \<Longrightarrow> only_hosts b c \<Longrightarrow> only_hosts a c"
  by (cases a; cases b; cases c) (simp add: only_hosts_def)

lemma only_hosts_steps:
  "only_hosts w (w\<lparr>pheap := h\<rparr>)" "only_hosts w (host_is w a t h)" "only_hosts w (w\<lparr>hheap := hh, g_hosts := g, logs := ls\<rparr>)"
  by (simp_all add: only_hosts_def host_is_def)

lemma only_hosts_services: "only_hosts w w' \<Longrightarrow> l_services w' = l_services w"
  by (cases w; cases w') (simp add: only_hosts_def)

lemma only_hosts_devices: "only_hosts w w' \<Longrightarrow> l_devices w' = l_devices w"
  by (cases w; cases w') (simp add: only_hosts_def)

text \<open>One section, from the state in which its entry has been marked.\<close>

lemma eval_host_run:
  assumes e: "pheap w a = Some e" "pe_values e = conf_vals c" "laid (pheap w) (Suc a) (pe_sub e) (conf_sub c)"
    and t: "host_of S (l_services w) c = Some t" "complete (l_services w) t"
    and k: "length (conf_sub c) < k" "\<forall>d \<in> set (conf_sub c). length (conf_sub d) < k"
    and xs: "hosts_are w xs ts" "\<forall>b \<in> set xs. b < brk w" and new: "new_names (ts @ [filled t])"
  shows "\<exists>w'. eval_host S k a w = Ret ((), w') \<and> only_hosts w w' \<and> outside (Suc a) (conf_sub c) (pheap w) (pheap w')
    \<and> hosts_are w' (xs @ [brk w]) (ts @ [filled t]) \<and> brk w' = Suc (brk w)"
proof -
  let ?b = "brk w"
  obtain h where h: "eval_host S k a w = host_add S (Some ?b) (host_is w ?b t h)" "outside (Suc a) (conf_sub c) (pheap w) h"
    using eval_host_builds [OF e t(1) k] by blast
  let ?v = "host_is w ?b t h"
  have fresh: "?b \<notin> set xs" using xs(2) by auto
  have v: "hosts_are ?v xs ts" using hosts_are_alloc [OF xs(1) fresh] .
  have "\<not> same_name (h_name t) (h_name (host_at ?v b))" if "b \<in> set xs" for b
  proof -
    have "(host_at ?v b)\<lparr>h_next := None\<rparr> \<in> set ts" using v that by (auto simp: hosts_are_def)
    from new_names_last [OF new this] show ?thesis by simp
  qed
  then obtain hh g where r: "runs (host_add S (Some ?b)) ?v () (?v\<lparr>hheap := hh, g_hosts := g\<rparr>)"
    "named_hosts (?v\<lparr>hheap := hh, g_hosts := g\<rparr>) (xs @ [?b])" "same_but_next ((hheap ?v)(?b \<mapsto> filled t)) hh"
    using host_add_run [of ?v xs ?b t S] v fresh t(2) by (auto simp: hosts_are_def)
  have "hosts_are (?v\<lparr>hheap := hh, g_hosts := g\<rparr>) (xs @ [?b]) (ts @ [filled t])"
    using hosts_are_append [OF v r(3) fresh _ r(2)] t(2) by (simp add: complete_def)
  then have "hosts_are (?v\<lparr>hheap := hh, g_hosts := g, logs := ls\<rparr>) (xs @ [?b]) (ts @ [filled t])" for ls
    by (simp add: hosts_are_def named_hosts_def hosts_def host_at_def)
  moreover obtain ls where "host_add S (Some ?b) ?v = Ret ((), ?v\<lparr>hheap := hh, g_hosts := g, logs := ls\<rparr>)"
    using r(1) by (auto simp: runs_iff)
  moreover have "only_hosts w (?v\<lparr>hheap := hh, g_hosts := g, logs := ls\<rparr>)" for ls
    using only_hosts_trans [OF only_hosts_steps(2) only_hosts_steps(3)] .
  ultimately show ?thesis using h by (auto simp: host_is_def)
qed

text \<open>The invariant of the loop: the sections \<open>ds\<close> have become hosts behind the hosts \<open>xs\<close>.\<close>

definition hosts_inv :: "sys \<Rightarrow> world \<Rightarrow> addr \<Rightarrow> conf list \<Rightarrow> addr list \<Rightarrow> host_t list \<Rightarrow> (addr \<times> conf) list \<Rightarrow> world \<Rightarrow> bool" where
  "hosts_inv S w lo cs xs us ds w' \<longleftrightarrow> only_hosts w w' \<and> outside lo cs (pheap w) (pheap w') \<and>
    (\<exists>ys vs. hosts_of S (l_services w) (map snd ds) = Some vs \<and> hosts_are w' (xs @ ys) (us @ vs) \<and> (\<forall>b \<in> set (xs @ ys). b < brk w'))"

lemma hosts_of_split:
  assumes "hosts_of S ss (xs @ c # ys) = Some ts" "hosts_of S ss xs = Some vs"
  shows "\<exists>u more. host_of S ss c = Some u \<and> complete ss u \<and> hosts_of S ss (xs @ [c]) = Some (vs @ [filled u]) \<and> ts = vs @ filled u # more"
  using assms by (auto simp: hosts_of_append split: bind_splits if_splits)

lemma eval_hosts_step:
  assumes I: "hosts_inv S w lo cs xs us ds w1" and e: "pheap w1 a = Some e" "pe_values e = conf_vals c"
    and ac: "(a, c) \<in> set (place lo cs)" and l: "laid (pheap w1) (Suc a) (pe_sub e) (conf_sub c)"
    and b: "entries_at D ((pheap w1)(a \<mapsto> set_processed e)) lo p cs" "a \<in> D"
    and all: "hosts_of S (l_services w) (map snd (ds @ (a, c) # todo)) = Some ts" and new: "new_names (us @ ts)"
    and k: "length (conf_sub c) < k" "\<forall>d \<in> set (conf_sub c). length (conf_sub d) < k"
  shows "\<exists>w'. eval_host S k a (w1\<lparr>pheap := (pheap w1)(a \<mapsto> set_processed e)\<rparr>) = Ret ((), w')
     \<and> hosts_inv S w lo cs xs us (ds @ [(a, c)]) w' \<and> entries_at D (pheap w') lo p cs"
proof -
  obtain ys vs where h: "only_hosts w w1" "outside lo cs (pheap w) (pheap w1)" "hosts_of S (l_services w) (map snd ds) = Some vs"
    "hosts_are w1 (xs @ ys) (us @ vs)" "\<forall>b \<in> set (xs @ ys). b < brk w1" using I by (auto simp: hosts_inv_def)
  obtain u more where u: "host_of S (l_services w) c = Some u" "complete (l_services w) u"
    "hosts_of S (l_services w) (map snd ds @ [c]) = Some (vs @ [filled u])" "ts = vs @ filled u # more"
    using hosts_of_split [OF _ h(3), of c "map snd todo" ts] all by auto
  let ?w = "w1\<lparr>pheap := (pheap w1)(a \<mapsto> set_processed e)\<rparr>"
  have nn: "new_names ((us @ vs) @ [filled u])" using new new_names_prefix [of "(us @ vs) @ [filled u]" more] u(4) by simp
  have hw: "hosts_are ?w (xs @ ys) (us @ vs)" using h(4) by (simp add: hosts_are_def named_hosts_def hosts_def host_at_def)
  have "\<exists>w'. eval_host S k a ?w = Ret ((), w') \<and> only_hosts ?w w' \<and> outside (Suc a) (conf_sub c) (pheap ?w) (pheap w')
    \<and> hosts_are w' ((xs @ ys) @ [brk ?w]) ((us @ vs) @ [filled u]) \<and> brk w' = Suc (brk ?w)"
    using e l u k laid_mark [OF l] only_hosts_services [OF h(1)] hw h(5) nn
    by (intro eval_host_run [of ?w a "set_processed e"]) (auto simp: set_processed_def)
  then obtain w' where w': "eval_host S k a ?w = Ret ((), w')" "only_hosts ?w w'"
    "outside (Suc a) (conf_sub c) ((pheap w1)(a \<mapsto> set_processed e)) (pheap w')"
    "hosts_are w' ((xs @ ys) @ [brk w1]) ((us @ vs) @ [filled u])" "brk w' = Suc (brk w1)" by auto
  have "outside lo cs (pheap w) (pheap w')"
    using outside_trans [OF h(2)] outside_trans [OF outside_entry [OF ac] outside_sub [OF ac w'(3)]] by simp
  moreover have "only_hosts w w'"
    using only_hosts_trans [OF h(1) only_hosts_trans [OF only_hosts_steps(1) w'(2)]] .
  moreover have "\<forall>b \<in> set (xs @ ys @ [brk w1]). b < brk w'" using h(5) w'(5) by (auto intro: less_SucI)
  ultimately have "hosts_inv S w lo cs xs us (ds @ [(a, c)]) w'"
    using w'(4) u(3) unfolding hosts_inv_def
    by (intro conjI exI [of _ "ys @ [brk w1]"] exI [of _ "vs @ [filled u]"]) simp_all
  then show ?thesis using w'(1) block_sub [OF b(1) ac b(2) w'(3)] by blast
qed

theorem eval_hosts_run:
  assumes t: "taken N (pheap w) lo p cs" and n: "''host'' \<notin> N"
    and ts: "hosts_of S (l_services w) (host_sections cs) = Some ts"
    and xs: "hosts_are w xs us" "\<forall>b \<in> set xs. b < brk w" and new: "new_names (us @ ts)"
    and k: "length cs < k" "\<forall>c \<in> set cs. length (conf_sub c) < k \<and> (\<forall>d \<in> set (conf_sub c). length (conf_sub d) < k)"
  shows "\<exists>w' ys. i_eval_hosts S k p w = Ret ((), w') \<and> only_hosts w w' \<and> taken (insert ''host'' N) (pheap w') lo p cs
    \<and> outside lo cs (pheap w) (pheap w') \<and> hosts_are w' (xs @ ys) (us @ ts)"
proof -
  let ?D = "named lo cs N" and ?I = "\<lambda>ds (x :: unit). hosts_inv S w lo cs xs us ds"
  have all: "hosts_of S (l_services w) (map snd (waiting ?D ''host'' lo cs)) = Some ts"
    using ts by (simp add: waiting_named(1) [OF n] filter_place host_sections_def)
  have "\<exists>x' w'. entry_loop k p ''host'' (\<lambda>a _. eval_host S k a) () w = Ret (x', w')
     \<and> ?I (waiting ?D ''host'' lo cs) x' w' \<and> entries_at (?D \<union> fst ` set (waiting ?D ''host'' lo cs)) (pheap w') lo p cs"
  proof (rule entry_loop_rule [OF t [unfolded taken_def]])
    show "?I [] () w" unfolding hosts_inv_def using xs by (intro conjI exI [of _ "[]"]) simp_all
    show "length (waiting ?D ''host'' lo cs) < k" using waiting_length [OF n, of lo cs] k by simp
  next
    fix ds a c todo x w1 e
    assume eq: "waiting ?D ''host'' lo cs = ds @ (a, c) # todo" and ac: "(a, c) \<in> set (place lo cs)"
      and st: "?I ds x w1" "pheap w1 a = Some e" "pe_values e = conf_vals c" "laid (pheap w1) (Suc a) (pe_sub e) (conf_sub c)"
        "entries_at (?D \<union> fst ` set (ds @ [(a, c)])) ((pheap w1)(a \<mapsto> set_processed e)) lo p cs"
    show "\<exists>x' w'. eval_host S k a (w1\<lparr>pheap := (pheap w1)(a \<mapsto> set_processed e)\<rparr>) = Ret (x', w')
       \<and> ?I (ds @ [(a, c)]) x' w' \<and> entries_at (?D \<union> fst ` set (ds @ [(a, c)])) (pheap w') lo p cs"
      using eval_hosts_step [OF st(1-3) ac st(4,5) _ all [unfolded eq] new] k(2) place_conf [OF ac] by auto
  qed simp
  then show ?thesis
    using all waiting_named(2) [OF n, of lo cs] by (auto simp: i_eval_hosts_def taken_def hosts_inv_def)
qed

end
