(* ===== verification/Conf_Services.thy ===== *)
theory Conf_Services
  imports Conf_Hosts
begin

text \<open>
  The \<open>service\<close> sections of the configuration: the bindings a section asks for, as a function
  of its tree, and the evaluation that performs exactly these bindings, in their order. The
  functions that bind read the tables of services, devices and hosts, but nothing of the file
  that is being evaluated; this is stated with two runs, from two states with the same tables.
\<close>

subsection \<open>Commands on the tables\<close>

definition tables_of :: "world \<Rightarrow> (addr \<Rightarrow> host_t option) \<times> addr option \<times> service_t list \<times> device_t list \<times> bool \<times> bool" where
  "tables_of w = (hheap w, g_hosts w, l_services w, l_devices w, c_resolve_ether w, c_resolve_ip w)"

text \<open>Two states with the same tables.\<close>

definition alike :: "world \<Rightarrow> world \<Rightarrow> bool" where
  "alike u v \<longleftrightarrow> tables_of u = tables_of v \<and> log_ok (lg u) \<and> log_ok (lg v)"

text \<open>What configured services are known by.\<close>

definition service_keys :: "service_t list \<Rightarrow> (string \<times> mask) list" where
  "service_keys ss = map (\<lambda>s. (sv_name s, sv_id s)) ss"

definition only_bound :: "world \<Rightarrow> world \<Rightarrow> bool" where
  "only_bound w w' \<longleftrightarrow> w'\<lparr>l_services := l_services w, l_devices := l_devices w, pheap := pheap w, logs := logs w\<rparr> = w
     \<and> service_keys (l_services w') = service_keys (l_services w)"

lemma only_bound_refl [simp]: "only_bound w w"
  by (simp add: only_bound_def)

lemma only_bound_trans: "only_bound a b \<Longrightarrow> only_bound b c \<Longrightarrow> only_bound a c"
  by (cases a; cases b; cases c) (simp add: only_bound_def)

lemma only_bound_pheap [simp]: "only_bound w (w'\<lparr>pheap := h\<rparr>) = only_bound w w'" "only_bound w (w'\<lparr>logs := ls\<rparr>) = only_bound w w'"
  by (simp_all add: only_bound_def)

lemma only_bound_same:
  assumes "only_bound w w'"
  shows "hheap w' = hheap w" "g_hosts w' = g_hosts w" "brk w' = brk w" "lg w' = lg w"
    "service_keys (l_services w') = service_keys (l_services w)" "basic_state b v w' = basic_state b v w"
  using assms by (cases w; cases w'; simp add: only_bound_def basic_state_def)+

lemma alike_simps [simp]:
  "alike u (v\<lparr>pheap := h\<rparr>) = alike u v" "alike u (v\<lparr>logs := ls\<rparr>) = alike u v" "alike (u\<lparr>logs := ls\<rparr>) v = alike u v"
  by (simp_all add: alike_def tables_of_def)

text \<open>
  A command on the tables does in every state with the same tables the same, and changes
  nothing but the bindings, the devices and the log.
\<close>

definition on_tables :: "'a cmd \<Rightarrow> bool" where
  "on_tables m \<longleftrightarrow> (\<forall>u v x u'. alike u v \<longrightarrow> m u = Ret (x, u') \<longrightarrow>
     (\<exists>v'. m v = Ret (x, v') \<and> alike u' v' \<and> only_bound v v' \<and> pheap v' = pheap v))"

named_theorems table_rules \<open>rules that show a command to be one on the tables\<close>

lemma on_tablesI:
  "(\<And>u v x u'. alike u v \<Longrightarrow> m u = Ret (x, u') \<Longrightarrow> \<exists>v'. m v = Ret (x, v') \<and> alike u' v' \<and> only_bound v v' \<and> pheap v' = pheap v)
   \<Longrightarrow> on_tables m"
  by (simp add: on_tables_def)

lemma on_tablesD:
  "on_tables m \<Longrightarrow> m u = Ret (x, u') \<Longrightarrow> alike u v \<Longrightarrow>
   \<exists>v'. m v = Ret (x, v') \<and> alike u' v' \<and> only_bound v v' \<and> pheap v' = pheap v"
  by (simp add: on_tables_def)

lemma on_tables_ret [table_rules]: "on_tables (ret x)"
  by (simp add: on_tables_def)

lemma on_tables_undef [table_rules]: "on_tables (undef e)"
  by (simp add: on_tables_def)

lemma on_tables_lift [table_rules]: "on_tables (lift r)"
  by (cases r) (simp_all add: on_tables_def)

lemma on_tables_deref [table_rules]: "on_tables (deref e p)"
  by (cases p) (auto intro: table_rules)

lemma on_tables_bnd [table_rules]:
  assumes m: "on_tables m" and k: "\<And>x. on_tables (k x)"
  shows "on_tables (bnd m k)"
proof (rule on_tablesI)
  fix u v y u2
  assume "alike u v" "bnd m k u = Ret (y, u2)"
  then obtain x u1 where u1: "m u = Ret (x, u1)" "k x u1 = Ret (y, u2)" by (auto simp: bnd_Ret_iff)
  obtain v1 where v1: "m v = Ret (x, v1)" "alike u1 v1" "only_bound v v1" "pheap v1 = pheap v"
    using on_tablesD [OF m u1(1) \<open>alike u v\<close>] by blast
  from on_tablesD [OF k u1(2) v1(2)]
  show "\<exists>v'. bnd m k v = Ret (y, v') \<and> alike u2 v' \<and> only_bound v v' \<and> pheap v' = pheap v"
    using v1 only_bound_trans [OF v1(3)] by (auto simp: bnd_Ret)
qed

lemma on_tables_asks [table_rules]: "(\<And>u v. tables_of u = tables_of v \<Longrightarrow> f u = f v) \<Longrightarrow> on_tables (asks f)"
proof (rule on_tablesI)
  fix u v x u'
  assume f: "\<And>u v. tables_of u = tables_of v \<Longrightarrow> f u = f v" and a: "alike u v" and r: "asks f u = Ret (x, u')"
  have "f u = f v" using a by (intro f) (simp add: alike_def)
  then show "\<exists>v'. asks f v = Ret (x, v') \<and> alike u' v' \<and> only_bound v v' \<and> pheap v' = pheap v" using a r by simp
qed

lemma on_tables_andthen [table_rules]: "on_tables m \<Longrightarrow> on_tables k \<Longrightarrow> on_tables (andthen m k)"
  unfolding andthen_def by (intro table_rules)

lemma on_tables_if [table_rules]: "(b \<Longrightarrow> on_tables m) \<Longrightarrow> (\<not> b \<Longrightarrow> on_tables k) \<Longrightarrow> on_tables (if b then m else k)"
  by simp

lemma on_tables_option [table_rules]:
  "(p = None \<Longrightarrow> on_tables m) \<Longrightarrow> (\<And>x. p = Some x \<Longrightarrow> on_tables (k x)) \<Longrightarrow> on_tables (case p of None \<Rightarrow> m | Some x \<Rightarrow> k x)"
  by (cases p) simp_all

lemma on_tables_prod [table_rules]: "(\<And>x y. p = (x, y) \<Longrightarrow> on_tables (k x y)) \<Longrightarrow> on_tables (case p of (x, y) \<Rightarrow> k x y)"
  by (cases p) simp

lemma on_tables_each [table_rules]: "(\<And>x. on_tables (f x)) \<Longrightarrow> on_tables (each f xs)"
  by (induction xs) (auto intro!: table_rules)

lemma on_tables_each_ok [table_rules]: "(\<And>x. on_tables (f x)) \<Longrightarrow> on_tables (each_ok f xs)"
  by (induction xs) (auto intro!: table_rules)

lemma on_tables_log_msg [table_rules]: "on_tables (log_msg what fmt)"
  by (rule on_tablesI) (auto simp: log_msg_def log_ok_enabled alike_def tables_of_def split: if_splits)

lemma on_tables_host_get [table_rules]: "on_tables (host_get a)"
  by (rule on_tablesI) (auto simp: host_get_def alike_def tables_of_def split: option.splits)

lemma on_tables_devices [table_rules]: "on_tables (modify (\<lambda>w. w\<lparr>l_devices := f (l_devices w)\<rparr>))"
  by (rule on_tablesI) (auto simp: alike_def tables_of_def only_bound_def)

lemma keys_update:
  "(\<And>s. sv_name (f s) = sv_name s) \<Longrightarrow> (\<And>s. sv_id (f s) = sv_id s) \<Longrightarrow> service_keys (ss[i := f (ss ! i)]) = service_keys ss"
  by (cases "i < length ss") (simp_all add: service_keys_def map_update list_update_beyond list_update_same_conv)

lemma on_tables_service_update:
  "(\<And>s. sv_name (f s) = sv_name s) \<Longrightarrow> (\<And>s. sv_id (f s) = sv_id s) \<Longrightarrow> on_tables (service_update i f)"
  by (rule on_tablesI) (auto simp: alike_def tables_of_def only_bound_def service_update_def keys_update)

subsection \<open>The functions that bind\<close>

lemma asks_tables [table_rules]:
  "on_tables (asks l_devices)" "on_tables (asks l_services)" "on_tables (asks (device_index P))"
  "on_tables (asks c_resolve_ether)" "on_tables (asks c_resolve_ip)" "on_tables (asks (\<lambda>w. ll_find (hheap w) h_next Q (g_hosts w)))"
  by (intro on_tables_asks, simp add: tables_of_def device_index_def)+

lemma on_tables_device_search [table_rules]:
  "on_tables (device_search_by_name S n)" "on_tables (device_search_by_eth S e)" "on_tables (device_list q)"
proof -
  have add: "on_tables (device_add d)" for d
    unfolding device_add_def by (intro table_rules on_tables_devices [of "\<lambda>_. _"])
  have upd: "on_tables (device_update i f)" for i f
    unfolding device_update_def by (intro on_tables_devices)
  have "on_tables (device_interface n)" for n
    unfolding device_interface_def device_note_at_def by (intro table_rules add upd)
  then have ready: "on_tables (device_ready S)"
    unfolding device_ready_def device_init_def by (intro table_rules add)
  show "on_tables (device_search_by_name S n)" "on_tables (device_search_by_eth S e)"
    unfolding device_search_by_name_def device_search_by_eth_def by (intro table_rules ready)+
  show "on_tables (device_list q)"
    unfolding device_list_def by (intro on_tables_asks) (simp add: tables_of_def split: option.split)
qed

lemma on_tables_service_get [table_rules]: "on_tables (service_get k)" "on_tables (device_get d)"
  unfolding service_get_def device_get_def by (intro table_rules)+

lemma on_tables_resolve [table_rules]: "on_tables (util_name2ether S n)" "on_tables (util_name2ip S n)"
  unfolding util_name2ether_def util_name2ip_def util_name2host_def host_scan_def by (intro table_rules)+

lemma on_tables_link_add [table_rules]: "on_tables (service_link_add S k v)"
  unfolding service_link_add_def l_service_link_device_add_def
  by (intro table_rules on_tables_service_update) simp_all

lemma on_tables_udp_ip_add: "on_tables (l_service_udp_ip_add k ip port)"
  unfolding l_service_udp_ip_add_def by (intro table_rules on_tables_service_update) simp_all

lemma on_tables_udp_add [table_rules]: "on_tables (service_udp_add S k v)"
  unfolding service_udp_add_def udp_bind_host_def l_service_udp_device_add_def
  by (intro table_rules on_tables_udp_ip_add)

subsection \<open>The bindings of a section\<close>

text \<open>A service, by its position in the table, and the word it is bound to.\<close>

datatype binding = Link_binding nat string | Udp_binding nat string

fun make_binding :: "sys \<Rightarrow> binding \<Rightarrow> bool cmd" where
  "make_binding S (Link_binding k v) = service_link_add S k v"
| "make_binding S (Udp_binding k v) = service_udp_add S k (Some v)"

definition section_bindings :: "service_t list \<Rightarrow> conf \<Rightarrow> binding list option" where
  "section_bindings ss c = (case conf_vals c of
      [v] \<Rightarrow> Option.bind (str_get_service ss (Some v) 0) (\<lambda>m. map_option (\<lambda>k.
         if sv_id (ss ! k) AND LISTEN_LINK \<noteq> 0 then map (Link_binding k) (values_of (conf_sub c) ''device'')
         else if sv_id (ss ! k) AND LISTEN_UDP \<noteq> 0 \<or> sv_id (ss ! k) AND LISTEN_RPC_UDP \<noteq> 0
           then map (Udp_binding k) (values_of (conf_sub c) ''bind'') else []) (service_index ss m))
    | _ \<Rightarrow> None)"

fun bindings_of :: "service_t list \<Rightarrow> conf list \<Rightarrow> binding list option" where
  "bindings_of ss [] = Some []"
| "bindings_of ss (c # cs) = Option.bind (section_bindings ss c) (\<lambda>bs. map_option ((@) bs) (bindings_of ss cs))"

lemma bindings_of_append: "bindings_of ss (xs @ ys) = Option.bind (bindings_of ss xs) (\<lambda>bs. map_option ((@) bs) (bindings_of ss ys))"
  by (cases "bindings_of ss ys"; induction xs) (auto split: bind_splits)

text \<open>They depend on the names and identifiers of the services only.\<close>

lemma keys_length: "service_keys ss = service_keys ss' \<Longrightarrow> length ss = length ss'"
  by (drule arg_cong [of _ _ length]) (simp add: service_keys_def)

lemma keys_nth:
  assumes "service_keys ss = service_keys ss'" "k < length ss"
  shows "sv_id (ss ! k) = sv_id (ss' ! k)"
proof -
  have "service_keys ss ! k = service_keys ss' ! k" using assms(1) by simp
  then show ?thesis using assms(2) keys_length [OF assms(1)] by (simp add: service_keys_def)
qed

lemma keys_by_name: "map_option sv_id (service_search_by_name ss n) = map_option snd (find (\<lambda>x. fst x = n) (service_keys ss))"
  unfolding service_search_by_name_def service_keys_def by (induction ss) simp_all

lemma keys_by_id: "map_option sv_name (service_search_by_id ss i) = map_option fst (find (\<lambda>x. snd x = i) (service_keys ss))"
  unfolding service_search_by_id_def service_keys_def by (induction ss) simp_all

lemma keys_get_service:
  assumes "service_keys ss = service_keys ss'"
  shows "str_get_service ss v m = str_get_service ss' v m"
proof -
  have "map_option (\<lambda>s. m OR sv_id s) (service_search_by_name ss n) = map_option ((OR) m) (map_option sv_id (service_search_by_name ss n))" for ss n
    by (simp add: option.map_comp comp_def)
  then have "map_option (\<lambda>s. m OR sv_id s) (service_search_by_name ss n) = map_option (\<lambda>s. m OR sv_id s) (service_search_by_name ss' n)" for n
    by (simp only: keys_by_name assms)
  then show ?thesis by (simp add: str_get_service_def split: option.split)
qed

lemma keys_index:
  assumes "service_keys ss = service_keys ss'"
  shows "service_index ss m = service_index ss' m"
  unfolding service_index_def keys_length [OF assms]
  by (rule find_cong_on) (simp add: keys_nth [OF assms] keys_length [OF assms])

lemma service_index_less: "service_index ss m = Some k \<Longrightarrow> k < length ss"
  by (auto simp: service_index_def find_Some_iff)

lemma keys_section:
  assumes k: "service_keys ss = service_keys ss'"
  shows "section_bindings ss c = section_bindings ss' c"
proof -
  have "map_option (\<lambda>k. F (sv_id (ss ! k)) k) (service_index ss m) = map_option (\<lambda>k. F (sv_id (ss' ! k)) k) (service_index ss' m)"
    for F :: "mask \<Rightarrow> nat \<Rightarrow> binding list" and m
    using keys_nth [OF k] service_index_less [of ss m] by (cases "service_index ss m") (simp_all add: keys_index [OF k, symmetric])
  from this [of "\<lambda>i k. if i AND LISTEN_LINK \<noteq> 0 then map (Link_binding k) (values_of (conf_sub c) ''device'')
         else if i AND LISTEN_UDP \<noteq> 0 \<or> i AND LISTEN_RPC_UDP \<noteq> 0
           then map (Udp_binding k) (values_of (conf_sub c) ''bind'') else []"]
  show ?thesis unfolding section_bindings_def by (simp only: keys_get_service [OF k])
qed

lemma keys_bindings: "service_keys ss = service_keys ss' \<Longrightarrow> bindings_of ss cs = bindings_of ss' cs"
  by (induction cs) (simp_all add: keys_section [of ss ss'])

subsection \<open>The evaluation of the sections\<close>

lemma each_ok_Cons: "each_ok f (x # xs) w = Ret (True, w') \<longleftrightarrow> (\<exists>w1. f x w = Ret (True, w1) \<and> each_ok f xs w1 = Ret (True, w'))"
proof (cases "f x w")
  case (Ret r)
  obtain b v where r: "r = (b, v)" by (rule prod.exhaust)
  show ?thesis by (cases b; cases "each_ok f xs v") (auto simp: Ret r bnd_run)
qed (simp_all add: bnd_run)

lemma each_ok_append: "each_ok f (xs @ ys) w = Ret (True, w') \<longleftrightarrow> (\<exists>w1. each_ok f xs w = Ret (True, w1) \<and> each_ok f ys w1 = Ret (True, w'))"
proof (induction xs arbitrary: w)
  case (Cons x xs)
  show ?case unfolding append_Cons each_ok_Cons Cons.IH by blast
qed simp

lemma on_tables_make [table_rules]: "on_tables (make_binding S b)"
  by (cases b) (auto intro: table_rules)

lemma bind_values_run: "each_ok f vs w = Ret (True, w') \<Longrightarrow> bind_values f msg a vs w = Ret ((), w')"
proof (induction vs arbitrary: w)
  case (Cons v vs)
  then obtain w1 where "f v w = Ret (True, w1)" "each_ok f vs w1 = Ret (True, w')" unfolding each_ok_Cons by blast
  then show ?case using Cons.IH by (simp add: bnd_run andthen_def)
qed simp

lemma bind_entries_run:
  assumes t: "taken N (pheap w) lo p cs" and n: "n \<notin> N" "length n < 256" and k: "length cs < k"
    and u: "alike u w" "each_ok f (values_of cs n) u = Ret (True, u')" and f: "\<And>v. on_tables (f v)"
  shows "\<exists>w'. bind_entries k p n f msg w = Ret ((), w') \<and> alike u' w' \<and> only_bound w w'
    \<and> taken (insert n N) (pheap w') lo p cs \<and> outside lo cs (pheap w) (pheap w')"
proof -
  let ?D = "named lo cs N"
  let ?v = "\<lambda>ds. concat (map (\<lambda>(a, c). conf_vals c) ds)"
  let ?F = "\<lambda>a (x :: unit). bnd (entry_get a) (\<lambda>e. bind_values f msg a (pe_values e))"
  let ?I = "\<lambda>ds (x :: unit) w'. \<exists>u1. each_ok f (?v ds) u = Ret (True, u1) \<and> alike u1 w' \<and> only_bound w w'
    \<and> outside lo cs (pheap w) (pheap w')"
  have all: "each_ok f (?v (waiting ?D n lo cs)) u = Ret (True, u')"
    using u(2) values_of_place [of cs n lo] waiting_named(1) [OF n(1)] by simp
  have "\<exists>x' w'. entry_loop k p n ?F () w = Ret (x', w')
     \<and> ?I (waiting ?D n lo cs) x' w' \<and> entries_at (?D \<union> fst ` set (waiting ?D n lo cs)) (pheap w') lo p cs"
  proof (rule entry_loop_rule [OF t [unfolded taken_def] n(2)])
    show "?I [] () w" using u(1) by simp
    show "length (waiting ?D n lo cs) < k" using waiting_length [OF n(1), of lo cs] k by simp
  next
    fix ds a c todo x w1 e
    assume eq: "waiting ?D n lo cs = ds @ (a, c) # todo" and I: "?I ds x w1" and e: "pheap w1 a = Some e" "pe_values e = conf_vals c"
      and ac: "(a, c) \<in> set (place lo cs)" and b: "entries_at (?D \<union> fst ` set (ds @ [(a, c)])) ((pheap w1)(a \<mapsto> set_processed e)) lo p cs"
    let ?w = "w1\<lparr>pheap := (pheap w1)(a \<mapsto> set_processed e)\<rparr>"
    obtain u1 where u1: "each_ok f (?v ds) u = Ret (True, u1)" "alike u1 w1" "only_bound w w1" "outside lo cs (pheap w) (pheap w1)"
      using I by blast
    obtain u2 where u2: "each_ok f (conf_vals c) u1 = Ret (True, u2)"
      using all u1(1) unfolding eq by (auto simp: each_ok_append)
    obtain w2 where w2: "each_ok f (conf_vals c) ?w = Ret (True, w2)" "alike u2 w2" "only_bound ?w w2" "pheap w2 = pheap ?w"
      using on_tablesD [OF on_tables_each_ok [OF f] u2, of ?w] u1(2) by auto
    have "?F a x ?w = Ret ((), w2)"
      using bind_values_run [OF w2(1)] e(2) by (simp add: bnd_run set_processed_def)
    moreover have "each_ok f (?v (ds @ [(a, c)])) u = Ret (True, u2)" using u1(1) u2 by (auto simp: each_ok_append)
    moreover have "only_bound w ?w" using u1(3) by simp
    moreover have "outside lo cs (pheap w) (pheap w2)"
      using outside_trans [OF u1(4) outside_entry [OF ac]] w2(4) by simp
    ultimately show "\<exists>x' w'. ?F a x ?w = Ret (x', w') \<and> ?I (ds @ [(a, c)]) x' w'
       \<and> entries_at (?D \<union> fst ` set (ds @ [(a, c)])) (pheap w') lo p cs"
      using w2 b only_bound_trans [of w ?w w2] by auto
  qed
  then show ?thesis
    using all waiting_named(2) [OF n(1), of lo cs] by (auto simp: bind_entries_def taken_def)
qed

lemma each_ok_map: "each_ok f (map g xs) = each_ok (\<lambda>x. f (g x)) xs"
  by (induction xs) simp_all

lemma section_log_run:
  assumes "k < length (l_services w)"
  shows "\<exists>ls. andthen (if b then log_msg (LOG_WARN OR LOG_CONF) msg else ret ()) (bnd (service_get k) (service_log S)) w
    = Ret ((), w\<lparr>logs := ls\<rparr>)"
proof -
  have l: "\<exists>ls. service_log S s v = Ret ((), v\<lparr>logs := ls\<rparr>)" for s v
    unfolding service_log_def by (auto simp: log_msg_run intro: exI [of _ "logs v"])
  have "\<exists>ls. (if b then log_msg (LOG_WARN OR LOG_CONF) msg else ret ()) w = Ret ((), w\<lparr>logs := ls\<rparr>)"
    by (auto simp: log_msg_run intro: exI [of _ "logs w"])
  then obtain ls where ls: "(if b then log_msg (LOG_WARN OR LOG_CONF) msg else ret ()) w = Ret ((), w\<lparr>logs := ls\<rparr>)" by blast
  obtain ls' where "service_log S (l_services w ! k) (w\<lparr>logs := ls\<rparr>) = Ret ((), w\<lparr>logs := ls\<rparr>\<lparr>logs := ls'\<rparr>)" using l by blast
  then show ?thesis using ls assms by (intro exI [of _ ls']) (simp add: andthen_run bnd_run)
qed

lemma eval_service_run:
  assumes e: "pheap w a = Some e" "pe_values e = conf_vals c" "laid (pheap w) (Suc a) (pe_sub e) (conf_sub c)"
    and bs: "section_bindings (l_services w) c = Some bs" "each_ok (make_binding S) bs u = Ret (True, u')"
    and u: "alike u w" and n: "length (conf_sub c) < n"
  shows "\<exists>w'. eval_service S n a w = Ret ((), w') \<and> alike u' w' \<and> only_bound w w'
    \<and> outside (Suc a) (conf_sub c) (pheap w) (pheap w')"
proof -
  obtain v m k where v: "conf_vals c = [v]" "str_get_service (l_services w) (Some v) 0 = Some m"
    "service_index (l_services w) m = Some k"
    using bs(1) by (auto simp: section_bindings_def split: list.splits bind_splits)
  have k: "k < length (l_services w)" using service_index_less [OF v(3)] .
  let ?s = "l_services w ! k"
  let ?B = "if sv_id ?s AND LISTEN_LINK \<noteq> 0
      then bind_entries n (pe_sub e) ''device'' (service_link_add S k) ''invalid device: ''
    else if sv_id ?s AND LISTEN_UDP \<noteq> 0 \<or> sv_id ?s AND LISTEN_RPC_UDP \<noteq> 0
      then bind_entries n (pe_sub e) ''bind'' (\<lambda>v. service_udp_add S k (Some v)) ''invalid bind specification: ''
    else ret ()"
  have t: "taken {} (pheap w) (Suc a) (pe_sub e) (conf_sub c)" using laid_taken [OF e(3)] .
  have "\<exists>w1. ?B w = Ret ((), w1) \<and> alike u' w1 \<and> only_bound w w1 \<and> outside (Suc a) (conf_sub c) (pheap w) (pheap w1)"
  proof (cases "sv_id ?s AND LISTEN_LINK \<noteq> 0")
    case True
    then have "each_ok (service_link_add S k) (values_of (conf_sub c) ''device'') u = Ret (True, u')"
      using bs v by (auto simp: section_bindings_def each_ok_map)
    from bind_entries_run [OF t _ _ n u this on_tables_link_add] True show ?thesis by auto
  next
    case False
    show ?thesis
    proof (cases "sv_id ?s AND LISTEN_UDP \<noteq> 0 \<or> sv_id ?s AND LISTEN_RPC_UDP \<noteq> 0")
      case True
      then have "each_ok (\<lambda>v. service_udp_add S k (Some v)) (values_of (conf_sub c) ''bind'') u = Ret (True, u')"
        using bs v False by (auto simp: section_bindings_def each_ok_map)
      from bind_entries_run [OF t _ _ n u this on_tables_udp_add] True False show ?thesis by auto
    next
      case False': False
      then show ?thesis using bs v u False by (simp add: section_bindings_def)
    qed
  qed
  then obtain w1 where w1: "?B w = Ret ((), w1)" "alike u' w1" "only_bound w w1" "outside (Suc a) (conf_sub c) (pheap w) (pheap w1)"
    by blast
  have "k < length (l_services w1)" using k keys_length [OF only_bound_same(5) [OF w1(3)]] by simp
  from section_log_run [OF this] obtain ls where ls: "andthen (if m = SERVICE_MOP then log_msg (LOG_WARN OR LOG_CONF) ''mop protocol not supported'' else ret ())
      (bnd (service_get k) (service_log S)) w1 = Ret ((), w1\<lparr>logs := ls\<rparr>)" (is "?T w1 = _") by blast
  have "eval_service S n a w = andthen ?B ?T w"
    using e(1,2) v k by (simp add: eval_service_def bnd_Ret del: SERVICE_MOP_def)
  also have "\<dots> = ?T w1" using w1(1) by (simp only: andthen_run bnd_Ret)
  finally have "eval_service S n a w = Ret ((), w1\<lparr>logs := ls\<rparr>)" by (simp only: ls)
  then show ?thesis using w1 by auto
qed

theorem eval_services_run:
  assumes t: "taken N (pheap w) lo p cs" and n: "''service'' \<notin> N"
    and bs: "bindings_of (l_services w) (filter (\<lambda>c. conf_name c = ''service'') cs) = Some bs"
      "each_ok (make_binding S) bs u = Ret (True, u')" "alike u w"
    and k: "length cs < k" "\<forall>c \<in> set cs. length (conf_sub c) < k"
  shows "\<exists>w'. i_eval_services S k p w = Ret ((), w') \<and> alike u' w' \<and> only_bound w w'
    \<and> taken (insert ''service'' N) (pheap w') lo p cs \<and> outside lo cs (pheap w) (pheap w')"
proof -
  let ?D = "named lo cs N"
  let ?I = "\<lambda>ds (x :: unit) w'. \<exists>b1 u1. bindings_of (l_services w) (map snd ds) = Some b1 \<and> each_ok (make_binding S) b1 u = Ret (True, u1)
    \<and> alike u1 w' \<and> only_bound w w' \<and> outside lo cs (pheap w) (pheap w')"
  have all: "bindings_of (l_services w) (map snd (waiting ?D ''service'' lo cs)) = Some bs"
    using bs(1) by (simp add: waiting_named(1) [OF n] filter_place)
  have "\<exists>x' w'. entry_loop k p ''service'' (\<lambda>a _. eval_service S k a) () w = Ret (x', w')
     \<and> ?I (waiting ?D ''service'' lo cs) x' w' \<and> entries_at (?D \<union> fst ` set (waiting ?D ''service'' lo cs)) (pheap w') lo p cs"
  proof (rule entry_loop_rule [OF t [unfolded taken_def]])
    show "?I [] () w" using bs(3) by simp
    show "length (waiting ?D ''service'' lo cs) < k" using waiting_length [OF n, of lo cs] k by simp
  next
    fix ds a c todo x w1 e
    assume eq: "waiting ?D ''service'' lo cs = ds @ (a, c) # todo" and I: "?I ds x w1" and e: "pheap w1 a = Some e" "pe_values e = conf_vals c"
      and ac: "(a, c) \<in> set (place lo cs)" and l: "laid (pheap w1) (Suc a) (pe_sub e) (conf_sub c)"
      and b: "entries_at (?D \<union> fst ` set (ds @ [(a, c)])) ((pheap w1)(a \<mapsto> set_processed e)) lo p cs"
    let ?w = "w1\<lparr>pheap := (pheap w1)(a \<mapsto> set_processed e)\<rparr>"
    obtain b1 u1 where u1: "bindings_of (l_services w) (map snd ds) = Some b1" "each_ok (make_binding S) b1 u = Ret (True, u1)"
      "alike u1 w1" "only_bound w w1" "outside lo cs (pheap w) (pheap w1)" using I by blast
    obtain b2 b3 where b2: "section_bindings (l_services w) c = Some b2" "bs = b1 @ b2 @ b3"
      "bindings_of (l_services w) (map snd (ds @ [(a, c)])) = Some (b1 @ b2)"
      using all u1(1) unfolding eq by (auto simp: bindings_of_append split: bind_splits)
    obtain u2 where u2: "each_ok (make_binding S) b2 u1 = Ret (True, u2)"
      using bs(2) u1(2) unfolding b2(2) by (auto simp: each_ok_append)
    have "section_bindings (l_services ?w) c = Some b2" using b2(1) keys_section [OF only_bound_same(5) [OF u1(4)]] by simp
    then have "\<exists>w'. eval_service S k a ?w = Ret ((), w') \<and> alike u2 w' \<and> only_bound ?w w' \<and> outside (Suc a) (conf_sub c) (pheap ?w) (pheap w')"
      using u2 u1(3) e l k(2) place_conf [OF ac] laid_mark [OF l]
      by (intro eval_service_run [of ?w a "set_processed e"]) (auto simp: set_processed_def)
    then obtain w2 where w2: "eval_service S k a ?w = Ret ((), w2)" "alike u2 w2" "only_bound ?w w2"
      "outside (Suc a) (conf_sub c) ((pheap w1)(a \<mapsto> set_processed e)) (pheap w2)" by auto
    have "outside lo cs (pheap w) (pheap w2)"
      using outside_trans [OF u1(5)] outside_trans [OF outside_entry [OF ac] outside_sub [OF ac w2(4)]] by simp
    moreover have "only_bound w w2" using only_bound_trans [OF _ w2(3)] u1(4) by simp
    moreover have "each_ok (make_binding S) (b1 @ b2) u = Ret (True, u2)" using u1(2) u2 by (auto simp: each_ok_append)
    ultimately show "\<exists>x' w'. eval_service S k a ?w = Ret (x', w') \<and> ?I (ds @ [(a, c)]) x' w'
       \<and> entries_at (?D \<union> fst ` set (ds @ [(a, c)])) (pheap w') lo p cs"
      using w2(1,2) b2(3) block_sub [OF b ac _ w2(4)] by auto
  qed simp
  then show ?thesis
    using all bs(2) waiting_named(2) [OF n, of lo cs] by (auto simp: i_eval_services_def taken_def)
qed

end
