(* ===== verification/Conf_File.thy ===== *)
theory Conf_File
  imports Conf_Services
begin

text \<open>
  The configuration file as a whole: from the text of a file of options, \<open>service\<close> and \<open>host\<close>
  sections to the tables of the daemon, and the files that end in an error.
\<close>

lemma length_forest: "length cs \<le> forest_size cs"
proof (induction cs)
  case (Cons c cs)
  then show ?case using conf_nodes_pos [of c] by simp
qed simp

lemma forest_member: "c \<in> set cs \<Longrightarrow> conf_nodes c \<le> forest_size cs"
  by (induction cs) auto

lemma forest_bounds:
  assumes "forest_size cs < k"
  shows "length cs < k" "\<forall>c \<in> set cs. length (conf_sub c) < k \<and> (\<forall>d \<in> set (conf_sub c). length (conf_sub d) < k)"
proof -
  show "length cs < k" using length_forest [of cs] assms by simp
  have sub: "length (conf_sub c) < conf_nodes c" for c using length_forest [of "conf_sub c"] by (simp add: conf_nodes_sub)
  show "\<forall>c \<in> set cs. length (conf_sub c) < k \<and> (\<forall>d \<in> set (conf_sub c). length (conf_sub d) < k)"
  proof (intro ballI conjI)
    fix c assume c: "c \<in> set cs"
    show "length (conf_sub c) < k" using sub [of c] forest_member [OF c] assms by linarith
    fix d assume d: "d \<in> set (conf_sub c)"
    show "length (conf_sub d) < k"
      using sub [of d] forest_member [OF d] conf_nodes_sub [of c] forest_member [OF c] assms by linarith
  qed
qed

lemma log_init_run: "log_ok (lg w) \<Longrightarrow> \<exists>g. log_init S 0 None w = Ret ((), w\<lparr>lg := g\<rparr>) \<and> log_ok g"
  by (cases "l_minlevel (lg w) = -1")
    (auto simp: log_init_def log_set_file_def andthen_def bnd_run log_ok_def log_set_level_def intro: exI [of _ "lg w"])

lemma no_entry: "n \<notin> conf_name ` set cs \<Longrightarrow> find (\<lambda>(a, c). conf_name c = n) (place lo cs) = None"
  using place_conf [of _ _ lo cs] by (auto simp: find_None_iff image_iff)

lemma hosts_are_same: "hheap w' = hheap w \<Longrightarrow> g_hosts w' = g_hosts w \<Longrightarrow> hosts_are w' xs ts = hosts_are w xs ts"
  by (simp add: hosts_are_def named_hosts_def hosts_def host_at_def)

lemma hosts_are_found:
  assumes "hosts_are w xs ts" "t \<in> set ts" "\<forall>u \<in> set ts. h_ip u = h_ip t \<longrightarrow> u = t"
  shows "\<exists>a. util_ip2host (h_ip t) w = Ret (Some a, w) \<and> (host_at w a)\<lparr>h_next := None\<rparr> = t"
proof -
  have xs: "named_hosts w xs" "map (\<lambda>a. (host_at w a)\<lparr>h_next := None\<rparr>) xs = ts" using assms(1) by (simp_all add: hosts_are_def)
  obtain b where b: "b \<in> set xs" "h_ip (host_at w b) = h_ip t" using xs(2) assms(2) by auto
  then obtain a where a: "find (\<lambda>a. h_ip t = h_ip (host_at w a)) xs = Some a"
    by (cases "find (\<lambda>a. h_ip t = h_ip (host_at w a)) xs") (auto simp: find_None_iff)
  then have "a \<in> set xs" "h_ip (host_at w a) = h_ip t" by (auto simp: find_Some_iff)
  moreover from this have "(host_at w a)\<lparr>h_next := None\<rparr> \<in> set ts" using xs(2) by auto
  ultimately have "(host_at w a)\<lparr>h_next := None\<rparr> = t" using assms(3) by fastforce
  moreover have "util_ip2host (h_ip t) w = Ret (Some a, w)"
    using util_ip2host_run [of w xs] xs(1) a by (simp add: named_hosts_def)
  ultimately show ?thesis by blast
qed

lemma only_hosts_basic: "only_hosts v v' \<Longrightarrow> basic_state b w v' = basic_state b w v \<and> lg v' = lg v"
  by (cases v; cases v') (simp add: only_hosts_def basic_state_def)

text \<open>What a host section describes depends on the names and identifiers of the services only.\<close>

lemma keys_hosts:
  assumes k: "service_keys ss = service_keys ss'"
  shows "hosts_of S ss cs = hosts_of S ss' cs"
proof -
  have mask: "mask_of ss vs m = mask_of ss' vs m" for vs m
    by (induction vs arbitrary: m) (simp_all add: keys_get_service [OF k] cong: bind_option_cong)
  have one: "file_of ss c = file_of ss' c" for c by (simp add: file_of_def mask)
  have files: "files_of ss fs cs = files_of ss' fs cs" for fs cs
  proof (induction cs arbitrary: fs)
    case (Cons c cs)
    then show ?case by (cases "file_of ss' c") (auto simp: one split: outcome.split option.split)
  qed simp
  have host: "host_of S ss c = host_of S ss' c" for c by (simp add: host_of_def mask files)
  have word: "service_word ss j = service_word ss' j" for j
  proof -
    have "service_word ss j = (case map_option sv_name (service_search_by_id ss j) of None \<Rightarrow> show_nat (unat j) | Some n \<Rightarrow> n)" for ss
      by (simp add: service_word_def split: option.split)
    then show ?thesis by (simp only: keys_by_id k)
  qed
  have list: "service_text ss = service_text ss'"
    unfolding service_text_def word ..
  have log: "files_log_text ss fs = files_log_text ss' fs" for fs
    by (induction fs) (simp_all only: files_log_text.simps file_log_text_def list)
  have complete: "complete ss t = complete ss' t" for t by (simp add: complete_def log)
  show ?thesis by (induction cs) (simp_all only: hosts_of.simps host complete)
qed

definition service_sections :: "conf list \<Rightarrow> conf list" where
  "service_sections cs = filter (\<lambda>c. conf_name c = ''service'') cs"

text \<open>
  A file without \<open>log\<close> sections, up to the check that no entry is left over. \<open>u\<close> is the state
  after the bindings of the \<open>service\<close> sections.
\<close>

definition table_names :: "string set" where
  "table_names = insert ''host'' (insert ''service'' basic_names)"

lemma conf_file_reaches:
  assumes cf: "config_file S w f fd content (concat (map conf_words cs))" "cs \<noteq> []" "\<forall>c \<in> set cs. conf_ok c"
      "forest_size cs < n" "256 + sum_list (map conf_need cs) \<le> 65536"
    and none: "''log'' \<notin> conf_name ` set cs"
    and b: "basics_of cs = Some b" "no_directories w" "log_ok (lg w)"
    and bs: "bindings_of (l_services w) (service_sections cs) = Some bs" "each_ok (make_binding S) bs (set_basics b w) = Ret (True, u)"
    and ts: "hosts_of S (l_services w) (host_sections cs) = Some ts" "hosts_are w xs us" "\<forall>a \<in> set xs. a < brk w" "new_names (us @ ts)"
  shows "\<exists>p w' ys. conf_file S n (Some f) w = andthen (i_assure_no_entry p None) parse_cleanup w'
    \<and> taken table_names (pheap w') (brk w) p cs \<and> basic_state b w w' \<and> log_ok (lg w')
    \<and> hosts_are w' (xs @ ys) (us @ ts) \<and> l_services w' = l_services u \<and> l_devices w' = l_devices u"
proof -
  let ?p = "Some (brk w)" let ?lo = "brk w"
  obtain w1 where p: "parse_file n S (Some f) w = Ret (?lo, w1)" "laid (pheap w1) ?lo ?p cs" "brk w1 = ?lo + forest_size cs"
    "only_parse (with_file w fd content) w1"
    using parse_file_builds [OF cf] by blast
  have w1: "l_services w1 = l_services w" "hheap w1 = hheap w" "g_hosts w1 = g_hosts w" "no_directories w1"
    "c_resolve_ether w1 = c_resolve_ether w" "c_resolve_ip w1 = c_resolve_ip w"
    "c_session_max w1 = c_session_max w" "c_session_timeout w1 = c_session_timeout w" "log_ok (lg w1)" "l_devices w1 = l_devices w"
    using p(4) b(2,3) by (cases w; cases w1; simp add: only_parse_def with_file_def no_directories_def)+
  obtain g where g: "log_init S 0 None w1 = Ret ((), w1\<lparr>lg := g\<rparr>)" "log_ok g" using log_init_run [OF w1(9)] by blast
  let ?w2 = "w1\<lparr>lg := g\<rparr>"
  have lg: "i_eval_log_msg S ?p w1 = Ret ((), ?w2)"
    using get_fresh [OF laid_taken [OF p(2)], of "''log''"] no_entry [OF none] g(1) by (simp add: i_eval_log_msg_def bnd_run)
  have "taken {} (pheap ?w2) ?lo ?p cs" "no_directories ?w2"
    using laid_taken [OF p(2)] w1(4) by (simp_all add: no_directories_def)
  from takesD [OF basics_take [OF b(1), of "{}"] this]
  obtain h where h: "i_eval_basic ?p ?w2 = Ret ((), (set_basics b ?w2)\<lparr>pheap := h\<rparr>)" "taken basic_names h ?lo ?p cs"
    by auto
  let ?w3 = "(set_basics b ?w2)\<lparr>pheap := h\<rparr>"
  have w3: "hheap ?w3 = hheap w" "g_hosts ?w3 = g_hosts w" "l_services ?w3 = l_services w" "brk ?w3 = brk w1" "basic_state b w ?w3"
    "lg ?w3 = g"
    using w1 by (simp_all add: set_basics_def set_option_defs basic_state_def)
  have al: "alike (set_basics b w) ?w3"
    using w1 g(2) b(3) by (simp add: alike_def tables_of_def set_basics_def set_option_defs)
  have "\<exists>w'. i_eval_services S n ?p ?w3 = Ret ((), w') \<and> alike u w' \<and> only_bound ?w3 w'
    \<and> taken (insert ''service'' basic_names) (pheap w') ?lo ?p cs \<and> outside ?lo cs (pheap ?w3) (pheap w')"
    using h(2) w3(3) bs al forest_bounds [OF cf(4)]
    by (intro eval_services_run) (auto simp: basic_names_def service_sections_def)
  then obtain w4 where w4: "i_eval_services S n ?p ?w3 = Ret ((), w4)" "alike u w4" "only_bound ?w3 w4"
    "taken (insert ''service'' basic_names) (pheap w4) ?lo ?p cs" by blast
  note same = only_bound_same [OF w4(3)]
  have "\<exists>w' ys. i_eval_hosts S n ?p w4 = Ret ((), w') \<and> only_hosts w4 w' \<and> taken (insert ''host'' (insert ''service'' basic_names)) (pheap w') ?lo ?p cs
    \<and> outside ?lo cs (pheap w4) (pheap w') \<and> hosts_are w' (xs @ ys) (us @ ts)"
    using w4(4) ts w3(1-4) p(3) forest_bounds [OF cf(4)] hosts_are_same [of w4 w] same keys_hosts [OF same(5), of S "host_sections cs"]
    by (intro eval_hosts_run) (auto simp: basic_names_def)
  then obtain w5 ys where w5: "i_eval_hosts S n ?p w4 = Ret ((), w5)" "only_hosts w4 w5"
    "taken table_names (pheap w5) ?lo ?p cs" "hosts_are w5 (xs @ ys) (us @ ts)" unfolding table_names_def by blast
  have "basic_state b w w5" "log_ok (lg w5)" using w3(5,6) g(2) only_hosts_basic [OF w5(2)] same(4,6) by simp_all
  moreover have "l_services w5 = l_services u" "l_devices w5 = l_devices u"
    using only_hosts_services [OF w5(2)] only_hosts_devices [OF w5(2)] w4(2) by (simp_all add: alike_def tables_of_def)
  moreover have "conf_file S n (Some f) w = andthen (i_assure_no_entry ?p None) parse_cleanup w5"
    using p(1) lg h(1) w4(1) w5(1) by (simp only: conf_file_def option.case bnd_Ret andthen_run)
  ultimately show ?thesis using w5(3,4) by blast
qed

theorem conf_file_run:
  assumes cf: "config_file S w f fd content (concat (map conf_words cs))" "cs \<noteq> []" "\<forall>c \<in> set cs. conf_ok c"
      "forest_size cs < n" "256 + sum_list (map conf_need cs) \<le> 65536"
    and names: "conf_name ` set cs \<subseteq> table_names"
    and b: "basics_of cs = Some b" "no_directories w" "log_ok (lg w)"
    and bs: "bindings_of (l_services w) (service_sections cs) = Some bs" "each_ok (make_binding S) bs (set_basics b w) = Ret (True, u)"
    and ts: "hosts_of S (l_services w) (host_sections cs) = Some ts" "hosts_are w xs us" "\<forall>a \<in> set xs. a < brk w" "new_names (us @ ts)"
  shows "\<exists>w' ys. conf_file S n (Some f) w = Ret ((), w') \<and> basic_state b w w' \<and> hosts_are w' (xs @ ys) (us @ ts)
    \<and> l_services w' = l_services u \<and> l_devices w' = l_devices u"
proof -
  have none: "''log'' \<notin> conf_name ` set cs" using names by (auto simp: table_names_def basic_names_def)
  obtain p w4 ys where w4: "conf_file S n (Some f) w = andthen (i_assure_no_entry p None) parse_cleanup w4"
    "taken table_names (pheap w4) (brk w) p cs" "basic_state b w w4" "hosts_are w4 (xs @ ys) (us @ ts)"
    "l_services w4 = l_services u" "l_devices w4 = l_devices u"
    using conf_file_reaches [OF cf none b bs ts] by blast
  obtain w5 where w5: "parse_cleanup w4 = Ret ((), w5)" "hheap w5 = hheap w4" "g_hosts w5 = g_hosts w4" "basic_state b w w5 = basic_state b w w4"
    "l_services w5 = l_services w4" "l_devices w5 = l_devices w4"
    by (simp add: parse_cleanup_def basic_state_def)
  have "conf_file S n (Some f) w = Ret ((), w5)"
    using w4(1) assure_all_taken [OF w4(2) names] w5(1) by (simp only: bnd_Ret andthen_run)
  then show ?thesis using w5 w4(3-6) hosts_are_same [OF w5(2,3)] by auto
qed

text \<open>One entry with another name, and the evaluation ends in an error.\<close>

lemma assure_left_over:
  assumes "taken N (pheap w) lo p cs" "c \<in> set cs" "conf_name c \<notin> N"
    and "log_ok (lg w)"
  shows "aborts (i_assure_no_entry p None w)"
proof -
  have b: "entries_at (named lo cs N) (pheap w) lo p cs" using assms(1) by (simp add: taken_def)
  then have ch: "chain (pheap w) pe_next p (map fst (place lo cs))" by (simp add: entries_at_def)
  have "c \<in> set (map snd (place lo cs))" using assms(2) by (simp add: map_snd_place)
  then obtain a where ac: "(a, c) \<in> set (place lo cs)" by auto
  have "a \<notin> named lo cs N" using assms(3) place_same [OF ac] by (auto simp: named_def)
  then have "wanted None (the (pheap w a))" using block_entry [OF b ac] by (auto simp: wanted_def)
  then obtain x where x: "find (\<lambda>a. wanted None (the (pheap w a))) (map fst (place lo cs)) = Some x"
    using ac by (cases "find (\<lambda>a. wanted None (the (pheap w a))) (map fst (place lo cs))") (auto simp: find_None_iff image_iff)
  then have "x \<in> set (map fst (place lo cs))" by (auto simp: find_Some_iff)
  then obtain e where "pheap w x = Some e" using chain_alloc [OF ch] by blast
  moreover have "p \<noteq> None" using ch ac by (cases "place lo cs") auto
  ultimately show ?thesis using x ll_find_chain [OF ch, of "wanted None"] parse_error_aborts [of w x e] assms(4)
    by (cases p) (auto simp: i_assure_no_entry_def parse_entry_get_def bnd_run)
qed

theorem conf_file_unknown:
  assumes cf: "config_file S w f fd content (concat (map conf_words cs))" "cs \<noteq> []" "\<forall>c \<in> set cs. conf_ok c"
      "forest_size cs < n" "256 + sum_list (map conf_need cs) \<le> 65536"
    and none: "''log'' \<notin> conf_name ` set cs"
    and b: "basics_of cs = Some b" "no_directories w" "log_ok (lg w)"
    and bs: "bindings_of (l_services w) (service_sections cs) = Some bs" "each_ok (make_binding S) bs (set_basics b w) = Ret (True, u)"
    and ts: "hosts_of S (l_services w) (host_sections cs) = Some ts" "hosts_are w xs us" "\<forall>a \<in> set xs. a < brk w" "new_names (us @ ts)"
    and c: "c \<in> set cs" "conf_name c \<notin> table_names"
  shows "aborts (conf_file S n (Some f) w)"
proof -
  obtain p w4 where w4: "conf_file S n (Some f) w = andthen (i_assure_no_entry p None) parse_cleanup w4"
    "taken table_names (pheap w4) (brk w) p cs" "log_ok (lg w4)"
    using conf_file_reaches [OF cf none b bs ts] by blast
  show ?thesis using assure_left_over [OF w4(2) c w4(3)] by (simp add: w4(1) aborts_andthen)
qed

end
