(* ===== verification/Rarp_Route.thy ===== *)
theory Rarp_Route
  imports Rarp
begin

text \<open>
  The two variants of \<open>rarp_updatetable\<close> in \<open>src/rarp.c\<close> for systems without \<open>SIOCSARP\<close>: one
  writes to a routing socket, the other only logs. A message on the routing socket is the
  record of the fields the code sets or reads; the answers of the socket are a parameter.
\<close>

definition AF_INET_NO :: nat where [simp]: "AF_INET_NO = 2"
definition AF_LINK_NO :: nat where [simp]: "AF_LINK_NO = 18"
definition ARPSECS :: int where [simp]: "ARPSECS = 20 * 60"

text \<open>
  A message that is read: sequence number and process of the request it answers, and family,
  type and index of the link address behind the destination.
\<close>

record rt_msg =
  m_seq :: int
  m_pid :: int
  m_family :: nat
  m_type :: nat
  m_index :: nat

datatype rt_write = Written | No_such_process | Exists | Write_failed
datatype rt_read = Read_failed | Read_end | Message rt_msg

record route =
  rt_socket :: "event list \<Rightarrow> int option"
  rt_pid :: int
  rt_write :: "event list \<Rightarrow> rt_write"
  rt_read :: "event list \<Rightarrow> rt_read"

text \<open>The buffer after \<open>memset\<close>, of which the link address is read.\<close>

definition rt_blank :: rt_msg where
  "rt_blank = \<lparr>m_seq = 0, m_pid = 0, m_family = 0, m_type = 0, m_index = 0\<rparr>"

text \<open>
  The loop that waits for the answer, at most \<open>n\<close> turns: \<open>None\<close> when a read fails, otherwise
  what is in the buffer at its end. At the end of the file that is an earlier message.
\<close>

fun rt_answer :: "nat \<Rightarrow> route \<Rightarrow> int \<Rightarrow> int \<Rightarrow> rt_msg \<Rightarrow> rt_msg option cmd" where
  "rt_answer 0 R fd seq buf = lift Loop"
| "rt_answer (Suc n) R fd seq buf = bnd (asks (\<lambda>w. rt_read R (trace w))) (\<lambda>r. andthen (emit (RouteRead fd)) (case r of
      Read_failed \<Rightarrow> ret None
    | Read_end \<Rightarrow> ret (Some buf)
    | Message m \<Rightarrow> if m_seq m \<noteq> seq \<or> m_pid m \<noteq> rt_pid R then rt_answer n R fd seq m else ret (Some m)))"

text \<open>The second half: the entry for the client, on the link that the answer names.\<close>

definition rt_add :: "sys \<Rightarrow> nat \<Rightarrow> route \<Rightarrow> int \<Rightarrow> ipaddr \<Rightarrow> etheraddr \<Rightarrow> int \<Rightarrow> rt_msg \<Rightarrow> unit cmd" where
  "rt_add S n R fd ip eth seq link = bnd (asks (\<lambda>w. s_time S (trace w))) (\<lambda>now. bnd (asks (\<lambda>w. rt_write R (trace w))) (\<lambda>r.
     andthen (emit (RouteAdd ip eth (m_type link) (m_index link) (now + ARPSECS) seq))
     (if r = No_such_process \<or> r = Write_failed
      then andthen (log_msg (LOG_WARN OR LOG_DEV) ''rtmsg add write: %s'') (close_fd fd)
      else bnd (rt_answer n R fd seq rt_blank) (\<lambda>a. andthen (close_fd fd)
        (if a = None then log_msg (LOG_WARN OR LOG_DEV) ''rtmsg add read: %s'' else ret ())))))"

text \<open>
  The function; \<open>seq\<close> is its static counter, and the result is the counter's new value. The
  buffer still holds the request, with the fields of the link address zero, when the first
  read meets the end of the file.
\<close>

definition rarp_updatetable_route :: "sys \<Rightarrow> nat \<Rightarrow> route \<Rightarrow> ipaddr \<Rightarrow> etheraddr \<Rightarrow> int \<Rightarrow> int cmd" where
  "rarp_updatetable_route S n R ip eth seq = bnd (asks (\<lambda>w. rt_socket R (trace w))) (\<lambda>r. andthen (emit OpenSocket) (case r of
      None \<Rightarrow> andthen (log_msg (LOG_WARN OR LOG_DEV) ''socket(PF_ROUTE, SOCK_RAW): %s'') (ret seq)
    | Some fd \<Rightarrow> let seq1 = to_int32 (seq + 1); seq2 = to_int32 (seq + 2) in
        bnd (asks (\<lambda>w. rt_write R (trace w))) (\<lambda>r. andthen (emit (RouteGet ip seq1))
        (if r = Exists \<or> r = Write_failed
         then andthen (log_msg (LOG_WARN OR LOG_DEV) ''rtmsg get write: %s'') (andthen (close_fd fd) (ret seq1))
         else bnd (rt_answer n R fd seq1 rt_blank) (\<lambda>a. case a of
            None \<Rightarrow> andthen (log_msg (LOG_WARN OR LOG_DEV) ''rtmsg get read: %s'') (andthen (close_fd fd) (ret seq1))
          | Some link \<Rightarrow>
              if m_family link = AF_INET_NO
              then andthen (log_msg (LOG_WARN OR LOG_DEV) ''wrong link family (%s), address %s not local'')
                (andthen (close_fd fd) (ret seq1))
              else if m_family link \<noteq> AF_LINK_NO
              then andthen (log_msg (LOG_WARN OR LOG_DEV) ''wrong link family (%s) for %s'') (andthen (close_fd fd) (ret seq1))
              else andthen (rt_add S n R fd ip eth seq2 link) (ret seq2))))))"

definition rarp_updatetable_none :: "unit cmd" where
  "rarp_updatetable_none = log_msg (LOG_WARN OR LOG_DEV) ''updating RARP table not supported, booting may fail''"

subsection \<open>Facts\<close>

text \<open>Waiting for an answer only reads.\<close>

lemma rt_answer_run:
  "rt_answer n R fd seq b w = Ret (r, w') \<Longrightarrow> \<exists>k. w' = w\<lparr>trace := trace w @ replicate k (RouteRead fd)\<rparr>"
proof (induction n arbitrary: b w)
  case (Suc n)
  let ?w = "w\<lparr>trace := trace w @ [RouteRead fd]\<rparr>"
  have one: "\<exists>k. ?w = w\<lparr>trace := trace w @ replicate k (RouteRead fd)\<rparr>" by (intro exI [of _ "Suc 0"]) simp
  show ?case
  proof (cases "\<exists>m. rt_read R (trace w) = Message m \<and> (m_seq m \<noteq> seq \<or> m_pid m \<noteq> rt_pid R)")
    case True
    then obtain m where "rt_answer n R fd seq m ?w = Ret (r, w')"
      using Suc.prems by (auto simp: bnd_run andthen_def)
    from Suc.IH [OF this] obtain k where "w' = ?w\<lparr>trace := trace ?w @ replicate k (RouteRead fd)\<rparr>" by blast
    then show ?thesis by (intro exI [of _ "Suc k"]) simp
  next
    case False
    then have "w' = ?w"
      using Suc.prems by (cases "rt_read R (trace w)") (simp_all add: bnd_run andthen_def split: if_splits)
    with one show ?thesis by blast
  qed
qed simp

text \<open>
  The answer that is taken is one to this request, or, at the end of the file, the last thing
  in the buffer.
\<close>

lemma rt_answer_match:
  "rt_answer n R fd seq b w = Ret (Some m, w') \<Longrightarrow>
   m_seq m = seq \<and> m_pid m = rt_pid R \<or> (\<exists>tr. rt_read R tr = Read_end)"
proof (induction n arbitrary: b w)
  case (Suc n)
  show ?case
  proof (cases "rt_read R (trace w)")
    case (Message k)
    show ?thesis
    proof (cases "m_seq k \<noteq> seq \<or> m_pid k \<noteq> rt_pid R")
      case True
      with Suc.prems Message have "rt_answer n R fd seq k (w\<lparr>trace := trace w @ [RouteRead fd]\<rparr>) = Ret (Some m, w')"
        by (simp add: bnd_run andthen_def)
      then show ?thesis by (rule Suc.IH)
    next
      case False
      with Suc.prems Message show ?thesis by (simp add: bnd_run andthen_def)
    qed
  qed (use Suc.prems in \<open>auto simp: bnd_run andthen_def\<close>)
qed simp

text \<open>A line of this severity, 514, does not end the process.\<close>

lemma log_warn: "log_msg 514 fmt w = Ret ((), w\<lparr>logs := logs w @ (if log_enabled (lg w) 514 then [(514, fmt)] else [])\<rparr>)"
  by (rule log_msg_run) simp

definition route_entry :: "ipaddr \<Rightarrow> etheraddr \<Rightarrow> event \<Rightarrow> bool" where
  "route_entry ip eth e \<longleftrightarrow> (case e of RouteAdd i x t j until q \<Rightarrow> i = ip \<and> x = eth | _ \<Rightarrow> False)"

lemma rt_add_run:
  assumes "rt_add S n R fd ip eth seq link w = Ret (r, w')"
  shows "\<exists>k. w' = w\<lparr>fdtab := (fdtab w)(fd := None), trace := trace w @ RouteAdd ip eth (m_type link) (m_index link)
      (s_time S (trace w) + ARPSECS) seq # replicate k (RouteRead fd) @ [CloseFd fd], logs := logs w'\<rparr>"
proof -
  let ?e = "RouteAdd ip eth (m_type link) (m_index link) (s_time S (trace w) + ARPSECS) seq"
  let ?w = "w\<lparr>trace := trace w @ [?e]\<rparr>"
  show ?thesis
  proof (cases "rt_write R (trace w) = No_such_process \<or> rt_write R (trace w) = Write_failed")
    case True
    with assms show ?thesis
      by (intro exI [of _ 0]) (auto simp: rt_add_def bnd_run andthen_def close_fd_def log_warn)
  next
    case False
    then obtain a w1 where a: "rt_answer n R fd seq rt_blank ?w = Ret (a, w1)"
      using assms by (cases "rt_answer n R fd seq rt_blank ?w") (auto simp: rt_add_def bnd_run andthen_def bnd_def)
    then obtain k where "w1 = ?w\<lparr>trace := trace ?w @ replicate k (RouteRead fd)\<rparr>" using rt_answer_run by blast
    with False a assms show ?thesis
      by (intro exI [of _ k]) (auto simp: rt_add_def bnd_run andthen_def close_fd_def log_warn split: if_splits)
  qed
qed

text \<open>
  Whatever the routing socket answers, a call that returns has closed it, has changed nothing
  else, and has entered at most one route, which is for the client.
\<close>

lemma updatetable_route_closes:
  assumes r: "rarp_updatetable_route S n R ip eth seq w = Ret (s, w')" and fd: "rt_socket R (trace w) = Some fd"
  shows "\<exists>es. w' = w\<lparr>fdtab := (fdtab w)(fd := None),
      trace := trace w @ [OpenSocket, RouteGet ip (to_int32 (seq + 1))] @ es @ [CloseFd fd], logs := logs w'\<rparr>
    \<and> length (filter (\<lambda>e. e \<noteq> RouteRead fd) es) \<le> 1 \<and> (\<forall>e \<in> set es. e = RouteRead fd \<or> route_entry ip eth e)"
proof -
  let ?w = "w\<lparr>trace := trace w @ [OpenSocket, RouteGet ip (to_int32 (seq + 1))]\<rparr>"
  let ?W = "rt_write R (trace w @ [OpenSocket])"
  show ?thesis
  proof (cases "?W = Exists \<or> ?W = Write_failed")
    case True
    with r fd show ?thesis
      by (intro exI [of _ "[]"]) (auto simp: rarp_updatetable_route_def bnd_run andthen_def close_fd_def log_warn Let_def)
  next
    case False
    then obtain a w1 where a: "rt_answer n R fd (to_int32 (seq + 1)) rt_blank ?w = Ret (a, w1)"
      using r fd by (cases "rt_answer n R fd (to_int32 (seq + 1)) rt_blank ?w")
        (auto simp: rarp_updatetable_route_def bnd_run andthen_def bnd_def Let_def)
    then obtain k where k: "w1 = ?w\<lparr>trace := trace ?w @ replicate k (RouteRead fd)\<rparr>" using rt_answer_run by blast
    show ?thesis
    proof (cases "\<exists>m. a = Some m \<and> m_family m = AF_LINK_NO")
      case True
      then obtain m where m: "a = Some m" "m_family m = AF_LINK_NO" by blast
      with False a r fd obtain x w2 where add: "rt_add S n R fd ip eth (to_int32 (seq + 2)) m w1 = Ret (x, w2)" "w' = w2"
        by (cases "rt_add S n R fd ip eth (to_int32 (seq + 2)) m w1")
          (auto simp: rarp_updatetable_route_def bnd_run andthen_def bnd_def Let_def)
      from rt_add_run [OF add(1)] obtain j where "w2 = w1\<lparr>fdtab := (fdtab w1)(fd := None), trace := trace w1
        @ RouteAdd ip eth (m_type m) (m_index m) (s_time S (trace w1) + ARPSECS) (to_int32 (seq + 2)) # replicate j (RouteRead fd) @ [CloseFd fd],
        logs := logs w2\<rparr>" by blast
      with k add(2) show ?thesis
        by (intro exI [of _ "replicate k (RouteRead fd) @ RouteAdd ip eth (m_type m) (m_index m) (s_time S (trace w1) + ARPSECS)
          (to_int32 (seq + 2)) # replicate j (RouteRead fd)"]) (auto simp: route_entry_def)
    next
      case no_link: False
      with False a k r fd show ?thesis
        by (intro exI [of _ "replicate k (RouteRead fd)"])
          (auto simp: rarp_updatetable_route_def bnd_run andthen_def close_fd_def log_warn Let_def split: option.splits if_splits)
    qed
  qed
qed

end
