(* ===== verification/Example.thy ===== *)
theory Example
  imports Startup Clients Replace Conf_File Rarp_Route
begin

text \<open>
  A small concrete system and states of the daemon, at which the properties are applied to
  show that their hypotheses can hold. They model no code.
\<close>

definition ex_sys :: sys where
  "ex_sys = \<lparr>s_time = (\<lambda>_. 100),
     s_open = (\<lambda>_ p. if p = ''/k'' then Inr (7, replicate 600 1) else Inl ENOENT),
     s_lseek_fails = (\<lambda>_ _. False), s_read_fails = (\<lambda>_ _. False), s_sent = (\<lambda>_ bs. int (length bs)),
     s_socket = (\<lambda>_. Some 9), s_bind = (\<lambda>_ _. True), s_connect = (\<lambda>_ _. True),
     s_sockname = (\<lambda>_ _. Some \<lparr>sin_family = 2, sin_port = 69, sin_addr = [10, 0, 0, 1]\<rparr>),
     s_junk = (\<lambda>_. []), s_ether_aton = (\<lambda>_. None), s_ether_ntoa = (\<lambda>_. ''0:0:0:0:0:1''),
     s_inet_aton = (\<lambda>_. None), s_inet_ntoa = (\<lambda>_. ''10.0.0.1''), s_ether_hostton = (\<lambda>_. None),
     s_ether_ntohost = (\<lambda>_. None), s_gethostbyname = (\<lambda>_. None), s_gethostbyaddr = (\<lambda>_. None),
     s_getservbyname = (\<lambda>_. None), s_logopen = (\<lambda>_ _. None), s_errtext = (\<lambda>_. ''error''),
     s_nonblock = 4, s_fcntl_get = (\<lambda>_ _. Some 0), s_fcntl_set = (\<lambda>_ _ _. True), s_ioctl = (\<lambda>_ _. None),
     s_lnet_open = (\<lambda>_. True), s_hwaddr = (\<lambda>_. None), s_lnet_ip = (\<lambda>_. [10, 0, 0, 1]), s_hostname = ''srv'',
     s_pcap_open = (\<lambda>_ _. Some (5, True)), s_lookupnet = (\<lambda>_. True), s_pcap_compile = (\<lambda>_. True),
     s_pcap_setfilter = (\<lambda>_. True), s_rpc_create = (\<lambda>_ _. True), s_rpc_register = (\<lambda>_ _. True),
     s_svc_fd = (\<lambda>_. True), s_rpc_call = (\<lambda>_ _. None), s_have_getifaddrs = True,
     s_getifaddrs = Some [\<lparr>ifa_name = ''lo'', ifa_flags = 9, ifa_loopback = True, ifa_up = True, ifa_addr = Ifa_other\<rparr>,
       \<lparr>ifa_name = ''eth0'', ifa_flags = 1, ifa_loopback = False, ifa_up = True, ifa_addr = Ifa_inet [10, 0, 0, 1]\<rparr>],
     s_select = (\<lambda>_ _. Ready [4]), s_recvfrom = (\<lambda>_ _. No_data), s_frame = (\<lambda>_ _. None),
     s_arp_hdr_size = 8, s_arp_ioctl = (\<lambda>_. True),
     s_chdir = (\<lambda>_ _. True), s_pcap_stats = (\<lambda>_ _. (0, 0))\<rparr>"

definition ex_file :: file_t where
  "ex_file = \<lparr>f_path = Some ''/k'', f_name = Some ''kernel'', f_server = None, f_aliases = replicate 10 None,
     f_service = 0x3F\<rparr>"

definition ex_alpha :: host_t where
  "ex_alpha = \<lparr>h_next = Some 3, h_device = None, h_name = Some ''alpha'', h_service = 0x3F,
     h_eth = [0, 0, 0, 0, 0, 1], h_ip = [10, 0, 0, 2], h_files = [ex_file], h_session = None\<rparr>"

definition ex_beta :: host_t where
  "ex_beta = \<lparr>h_next = None, h_device = None, h_name = Some ''beta'', h_service = 1,
     h_eth = [0, 0, 0, 0, 0, 2], h_ip = [10, 0, 0, 3], h_files = [], h_session = None\<rparr>"

definition ex_udp :: listener_t where
  "ex_udp = listener_blank\<lparr>l_next := Some 5, l_fd := 4, l_name := Some ''srv'', l_receive := Some Udp_receive,
     l_cleanup := Some Udp_cleanup, l_send := Some Udp_send, l_service := Some Tftp_handler\<rparr>"

definition ex_link :: listener_t where
  "ex_link = listener_blank\<lparr>l_fd := 5, l_name := Some ''srv'', l_eth := [2, 0, 0, 0, 0, 9], l_ip := [10, 0, 0, 1],
     l_receive := Some Link_receive, l_cleanup := Some Link_cleanup, l_send := Some Link_send,
     l_device := Some ''eth0''\<rparr>"

definition ex_device :: device_t where
  "ex_device = device_new\<lparr>d_name := ''eth0'', d_eth := [2, 0, 0, 0, 0, 9]\<rparr>"

definition ex_service :: service_t where
  "ex_service = service_new\<lparr>sv_name := ''tftp'', sv_id := SERVICE_TFTP, sv_service := Some Tftp_handler, sv_defport := 69\<rparr>"

definition ex_rarp :: service_t where
  "ex_rarp = service_new\<lparr>sv_name := ''rarp'', sv_id := SERVICE_RARP, sv_service := Some Rarp_handler, sv_filter := ''(rarp)''\<rparr>"

text \<open>Two hosts, two listeners, two services, one device, no session.\<close>

definition ex_world :: world where
  "ex_world = initial_world\<lparr>g_hosts := Some 2, hheap := [2 \<mapsto> ex_alpha, 3 \<mapsto> ex_beta],
     g_listeners := Some 4, lheap := [4 \<mapsto> ex_udp, 5 \<mapsto> ex_link], brk := 10,
     l_services := [ex_service, ex_rarp], l_devices := [ex_device]\<rparr>"

text \<open>The first host in a TFTP session, reading a file of 600 bytes through descriptor 7.\<close>

definition ex_from :: sockaddr_in where
  "ex_from = \<lparr>sin_family = 2, sin_port = 1234, sin_addr = [10, 0, 0, 2]\<rparr>"

definition ex_session :: session_t where
  "ex_session = session_new\<lparr>s_service := SERVICE_TFTP, s_atime := 90, s_sid := 1234, s_fd := [7, 0, 0, 0, 0, 0, 0, 0]\<rparr>"

definition ex_busy :: world where
  "ex_busy = ex_world\<lparr>hheap := [2 \<mapsto> ex_alpha\<lparr>h_session := Some 6\<rparr>, 3 \<mapsto> ex_beta], sheap := [6 \<mapsto> ex_session],
     g_n_sessions := 1, fdtab := [7 \<mapsto> replicate 600 1]\<rparr>"

lemma ex_sys_simps [simp]:
  "s_time ex_sys tr = 100" "s_open ex_sys tr p = (if p = ''/k'' then Inr (7, replicate 600 1) else Inl ENOENT)"
  "\<not> s_lseek_fails ex_sys tr fd" "\<not> s_read_fails ex_sys tr fd" "s_socket ex_sys tr = Some 9"
  "s_bind ex_sys tr a" "s_connect ex_sys tr a" "s_inet_aton ex_sys x = None" "s_arp_ioctl ex_sys tr"
  "s_arp_hdr_size ex_sys = 8" "s_have_getifaddrs ex_sys" "s_select ex_sys tr fds = Ready [4]"
  "s_recvfrom ex_sys tr fd = No_data" "s_ether_ntoa ex_sys e = ''0:0:0:0:0:1''" "s_junk ex_sys tr = []"
  by (simp_all add: ex_sys_def)

lemma ex_fields [simp]:
  "hheap ex_world = [2 \<mapsto> ex_alpha, 3 \<mapsto> ex_beta]" "lheap ex_world = [4 \<mapsto> ex_udp, 5 \<mapsto> ex_link]"
  "l_services ex_world = [ex_service, ex_rarp]" "l_devices ex_world = [ex_device]" "trace ex_world = []"
  "sheap ex_world = (\<lambda>_. None)" "lheap ex_busy = [4 \<mapsto> ex_udp, 5 \<mapsto> ex_link]"
  "hheap ex_busy = [2 \<mapsto> ex_alpha\<lparr>h_session := Some 6\<rparr>, 3 \<mapsto> ex_beta]" "sheap ex_busy = [6 \<mapsto> ex_session]"
  "fdtab ex_busy = [7 \<mapsto> replicate 600 1]" "trace ex_busy = []" "g_n_sessions ex_world = 0"
  "c_session_max ex_world = 5" "lg ex_world = initial_log" "rmp_sid ex_world = 1"
  "brk ex_busy = 10" "g_n_sessions ex_busy = 1" "c_session_max ex_busy = 5" "c_session_timeout ex_busy = 120"
  "c_session_timeout ex_world = 120" "g_hosts ex_world = Some 2" "g_listeners ex_world = Some 4" "lg ex_busy = initial_log"
  "h_session ex_alpha = None" "h_session ex_beta = None" "h_name ex_alpha = Some ''alpha''"
  "h_name ex_beta = Some ''beta''" "h_ip ex_alpha = [10, 0, 0, 2]" "h_ip ex_beta = [10, 0, 0, 3]"
  "h_service ex_alpha = 0x3F" "h_service ex_beta = 1" "h_files ex_alpha = [ex_file]"
  by (simp_all add: ex_world_def ex_busy_def initial_world_def ex_alpha_def ex_beta_def)

lemma ex_hosts: "hosts ex_world [2, 3]" "hosts ex_busy [2, 3]"
  by (simp_all add: hosts_def ex_world_def ex_busy_def initial_world_def ex_alpha_def ex_beta_def)

lemma ex_named: "named_hosts ex_world [2, 3]"
  by (simp add: named_hosts_def ex_hosts host_at_def)

lemma ex_listeners: "listeners ex_world [4, 5]" "listeners ex_busy [4, 5]"
  by (simp_all add: listeners_def ex_world_def ex_busy_def initial_world_def ex_udp_def ex_link_def listener_blank_def)

lemma ex_active: "active ex_world [2, 3] = {}" "active ex_busy [2, 3] = {2}"
  by (auto simp: active_def session_of_def host_at_def)

lemma ex_inv: "session_inv ex_world [2, 3]" "session_inv ex_busy [2, 3]"
  by (simp_all add: session_inv_def ex_hosts ex_active session_of_def host_at_def)

lemma ex_search: "fd \<noteq> 4 \<Longrightarrow> fd \<noteq> 5 \<Longrightarrow> ll_find (lheap ex_busy) l_next (\<lambda>n. l_fd n = fd) (g_listeners ex_busy) = Ret None"
  using ll_find_chain [OF ex_listeners(2) [unfolded listeners_def], of "\<lambda>n. l_fd n = fd"]
  by (simp add: ex_udp_def ex_link_def)

lemma ex_state: "session_state ex_world [2, 3]" "session_state ex_busy [2, 3]"
  using ex_inv ex_search by (auto simp: session_state_def quiet_def ex_session_def session_new_def split: if_splits)

lemma ex_sockets: "working_sockets ex_sys"
  by (simp add: working_sockets_def)

lemma ex_serving: "serving ex_sys ex_busy [2, 3] 4 ex_from 2 7 (replicate 600 1)"
  by (simp add: serving_def ex_hosts client_def host_at_def ex_from_def tftp_session_def readable_def)
    (simp add: ex_udp_def ex_session_def)

text \<open>
  A configuration: an option, a service bound to a device and a host with one file; and one
  with a keyword that is no option.
\<close>

definition ex_host_conf :: conf where
  "ex_host_conf = Conf ''host'' [''gamma''] [Conf ''ether'' [''e''] [], Conf ''ip'' [''i''] [], Conf ''file'' [''/k''] []]"

definition ex_service_conf :: conf where
  "ex_service_conf = Conf ''service'' [''rarp''] [Conf ''device'' [''eth0''] []]"

definition ex_conf :: "conf list" where
  "ex_conf = [Conf ''session_max'' [''7''] [], ex_service_conf, ex_host_conf]"

definition ex_bad_conf :: "conf list" where
  "ex_bad_conf = [Conf ''sesion_max'' [''7''] [], ex_host_conf]"

definition ex_conf_sys :: "string \<Rightarrow> sys" where
  "ex_conf_sys text = ex_sys\<lparr>s_open := (\<lambda>_ _. Inr (3, bytes text)),
     s_ether_aton := (\<lambda>_. Some [0, 0, 0, 0, 0, 3]), s_inet_aton := (\<lambda>_. Some [10, 0, 0, 4])\<rparr>"

text \<open>The tokenizer at the start of the file with this text, and the state in which it is open.\<close>

definition ex_tz :: gen_tokenize_t where
  "ex_tz = \<lparr>tz_fname = ''c'', tz_fd = 3, tz_offs = 0, tz_s = 0, tz_e = 0, tz_y = 0, tz_b = '''', tz_ts = None,
     tz_te = 0, tz_t = replicate 5 '''', tz_past = False\<rparr>"

definition ex_open :: "string \<Rightarrow> world" where
  "ex_open text = with_file ex_world 3 (bytes text)"

lemma ex_tz_ok: "tz_ok ex_tz (ex_open text)" "upcoming ex_tz (ex_open text) = tokens text"
  by (simp_all add: ex_tz_def ex_open_def with_file_def tz_ok_def buf_ok_def ring_ok_def upcoming_def ring_def
      ring_size_def tz_rest_def bytes_def comp_def)

lemma ex_reads: "reads (ex_conf_sys text) fd"
  by (simp add: reads_def ex_conf_sys_def)

lemma ex_config_file: "tokens text = ts \<Longrightarrow> config_file (ex_conf_sys text) ex_world ''c'' 3 (bytes text) ts"
  by (simp add: config_file_def ex_reads bytes_def comp_def nul_free_def code_def)
    (simp add: ex_conf_sys_def bytes_def ex_world_def initial_world_def)

lemma ex_conf_ok: "\<forall>c \<in> set ex_conf. conf_ok c" "\<forall>c \<in> set ex_bad_conf. conf_ok c"
  by (simp_all add: ex_conf_def ex_bad_conf_def ex_service_conf_def ex_host_conf_def conf_word_def nul_free_def code_def delimiters_def)

lemma ex_no_directories: "no_directories ex_world"
  by (simp add: no_directories_def ex_world_def initial_world_def)

lemma ex_hosts_are: "hosts_are ex_world [2, 3] [ex_alpha\<lparr>h_next := None\<rparr>, ex_beta]"
  by (simp add: hosts_are_def ex_named host_at_def ex_beta_def)

text \<open>The host that the section describes.\<close>

definition ex_gamma :: host_t where
  "ex_gamma = host_new\<lparr>h_name := Some ''gamma'', h_service := SERVICE_ALL, h_eth := [0, 0, 0, 0, 0, 3], h_ip := [10, 0, 0, 4],
     h_files := [\<lparr>f_path = Some ''/k'', f_name = Some ''k'', f_server = None, f_aliases = replicate 10 None, f_service = SERVICE_ALL\<rparr>]\<rparr>"

lemma ex_hosts_of:
  "hosts_of (ex_conf_sys t) [ex_service, ex_rarp] (host_sections ex_conf) = Some [ex_gamma]"
  "hosts_of (ex_conf_sys t) [ex_service, ex_rarp] (host_sections ex_bad_conf) = Some [ex_gamma]"
  by code_simp+

lemma ex_bindings_of:
  "bindings_of [ex_service, ex_rarp] (service_sections ex_conf) = Some [Link_binding 1 ''eth0'']"
  "bindings_of [ex_service, ex_rarp] (service_sections ex_bad_conf) = Some []"
  by code_simp+

definition ex_basics :: basics where
  "ex_basics = \<lparr>b_chroot = None, b_directory = None, b_resolve_ether = None, b_resolve_ip = None,
     b_session_max = Some 7, b_session_timeout = None\<rparr>"

lemma ex_basics_of: "basics_of ex_conf = Some ex_basics" "basics_of ex_bad_conf = Some (ex_basics\<lparr>b_session_max := None\<rparr>)"
  by code_simp+

lemma ex_new_names: "new_names ([ex_alpha\<lparr>h_next := None\<rparr>, ex_beta] @ [ex_gamma])"
  by code_simp

text \<open>The state after the binding.\<close>

definition ex_bound :: world where
  "ex_bound = (set_basics ex_basics ex_world)\<lparr>l_services := [ex_service, ex_rarp\<lparr>sv_device := Some ''eth0'' # replicate 15 None\<rparr>]\<rparr>"

lemma ex_binds: "each_ok (make_binding (ex_conf_sys t)) [Link_binding 1 ''eth0''] (set_basics ex_basics ex_world) = Ret (True, ex_bound)"
proof -
  let ?w = "set_basics ex_basics ex_world"
  have w: "l_devices ?w = [ex_device]" "l_services ?w = [ex_service, ex_rarp]"
    by (simp_all add: set_basics_def set_option_defs)
  have i: "device_index (\<lambda>d. d_name d = ''eth0'') ?w = Some 0"
    by (simp add: device_index_def w ex_device_def)
  have f: "fill_slot (\<lambda>x. x = None) (Some ''eth0'') (sv_device ex_rarp) = Some (Some ''eth0'' # replicate 15 None)"
    unfolding ex_rarp_def service_new_def by (simp add: no_bindings(1) del: SERVICE_BIND_MAX_def)
  have "l_service_link_device_add 1 0 ?w = Ret (True, ex_bound)"
    using f by (simp add: l_service_link_device_add_def bnd_run andthen_def w service_update_def ex_bound_def ex_device_def)
  then show ?thesis
    using w(1) by (simp add: service_link_add_def device_search_by_name_def device_ready_def bnd_run andthen_def i)
qed

lemma ex_bound_devices: "map bound_devices (l_services ex_bound) = [[], [''eth0'']]"
  using service_new_ok(2) by (simp add: ex_bound_def bound_devices_def ex_service_def numeral_eq_Suc)

definition ex_twice :: world where
  "ex_twice = ex_world\<lparr>pheap := [10 \<mapsto> entry_zero\<lparr>pe_name := ''name'', pe_values := [''a''], pe_next := Some 11\<rparr>,
     11 \<mapsto> entry_zero\<lparr>pe_name := ''name'', pe_values := [''b'']\<rparr>]\<rparr>"

text \<open>A turn of the event loop: the first listener is ready, but there is no datagram.\<close>

lemma ex_turn: "listener_select ex_sys 2 ex_world = Ret ((), ex_world)"
proof -
  have "listener_select ex_sys 2 ex_world = each (serve ex_sys [4]) [4, 5] ex_world"
  proof (rule listener_select_serves [OF ex_listeners(1)])
    show "no_big_fd ex_world [4, 5]" by (simp add: no_big_fd_def listener_at_def ex_udp_def ex_link_def)
    show "s_select ex_sys (trace ex_world) (open_fds ex_world [4, 5]) = Ready [4]" by simp
    show "keeps (\<lambda>v. lheap v = lheap ex_world) (serve ex_sys [4] a)" if "a \<in> set [4, 5]" for a
    proof (rule keepsI)
      fix w x w' assume "lheap w = lheap ex_world" and r: "serve ex_sys [4] a w = Ret (x, w')"
      then show "lheap w' = lheap ex_world"
        using that by (auto simp: serve_def bnd_run listener_receive_def ex_udp_def ex_link_def i_listener_udp_receive_def)
    qed
  qed simp
  then show ?thesis
    by (simp add: andthen_def serve_def bnd_run listener_receive_def ex_udp_def ex_link_def i_listener_udp_receive_def)
qed

text \<open>A start without a configuration, which binds no service.\<close>

lemma ex_start: "\<exists>w. bootd_start ex_sys 1 [] initial_world = Ret ((), w) \<and> length (l_services w) = 6 \<and> g_listeners w = None"
proof -
  obtain ss g where i: "service_init initial_world = Ret ((), initial_world\<lparr>l_services := ss, lg := g\<rparr>)"
    "\<forall>s \<in> set ss. unbound s" "map (\<lambda>s. (sv_name s, sv_id s)) ss = built_in"
    using service_init_run [of initial_world] by (auto simp: initial_world_def)
  let ?w = "initial_world\<lparr>l_services := ss, lg := g\<rparr>"
  have w: "l_services ?w = ss" "l_devices ?w = []" "c_file ?w = None" "c_directory ?w = None" "g_listeners ?w = None"
    by (simp_all add: initial_world_def)
  have "length ss = 6" using arg_cong [OF i(3), of length] by (simp add: built_in_def)
  moreover have "each (start_service ex_sys) [0..<length (l_services ?w)] ?w = Ret ((), ?w)"
    by (rule start_services_unbound) (use i(2) w(1) in auto)
  ultimately show ?thesis
    using w by (simp add: i(1) bootd_start_def conf_args_def conf_file_def enter_directory_def service_start_def bnd_run
        andthen_def device_search_by_name_def device_index_def device_list_def log_msg_run)
qed

text \<open>A turn in which a host that may not use TFTP sends a packet and gets an error.\<close>

definition ex_other :: sockaddr_in where
  "ex_other = ex_from\<lparr>sin_addr := [10, 0, 0, 3]\<rparr>"

definition ex_denied :: "u8 list" where
  "ex_denied = error_reply TFTP_E_ACCESS ''access denied, tftp not allowed for this host''"

definition ex_ask_sys :: sys where
  "ex_ask_sys = ex_sys\<lparr>s_recvfrom := \<lambda>_ _. Datagram ex_other (ack_packet 1)\<rparr>"

lemma ex_denied_handled:
  "runs (tftp_handler ex_ask_sys 4 ex_other dst (ack_packet 1 @ q) 4) (ex_world\<lparr>logs := ls\<rparr>) ()
     (sent_udp ex_udp ex_other ex_denied ex_world)"
proof -
  have "client (ex_world\<lparr>logs := ls\<rparr>) [2, 3] ex_other = Some 3"
    by (simp add: client_def host_at_def ex_other_def ex_from_def)
  moreover obtain t where "tftp_text (ack_packet 1 @ q) 4 = Ret t"
    using ack_packet_fields(1) [of 1 q] ack_packet_fields(2) [of 1 q] by (auto simp: tftp_text_def)
  moreover have "hosts (ex_world\<lparr>logs := ls\<rparr>) [2, 3]" using ex_hosts(1) by (simp add: hosts_def)
  ultimately have "runs (tftp_handler ex_ask_sys 4 ex_other dst (ack_packet 1 @ q) 4) (ex_world\<lparr>logs := ls\<rparr>) ()
      (sent_udp ex_udp ex_other ex_denied (ex_world\<lparr>logs := ls\<rparr>))"
    unfolding ex_denied_def by (intro handler_denied [where xs = "[2, 3]"]) (simp_all add: ex_udp_def host_at_def)
  then show ?thesis by simp
qed

lemma ex_denied_turn:
  "\<exists>ls. listener_select ex_ask_sys 2 ex_world = Ret ((), (sent_udp ex_udp ex_other ex_denied ex_world)\<lparr>logs := ls\<rparr>)"
proof -
  let ?w = "sent_udp ex_udp ex_other ex_denied ex_world"
  let ?q = "replicate 4092 0"
  have buf: "stack_buf ex_ask_sys tr 4096 (ack_packet 1) = ack_packet 1 @ ?q" for tr
    by (simp add: stack_buf_def ack_packet_def ex_ask_sys_def)
  let ?dst = "\<lparr>sin_family = 2, sin_port = 69, sin_addr = [10, 0, 0, 1]\<rparr>"
  let ?m = "andthen (log_msg (LOG_DEBUG OR LOG_DEV) ''udp recv %s -> %s (%d)'')
      (tftp_handler ex_ask_sys 4 ex_other ?dst (ack_packet 1 @ ?q) 4)"
  have "serve ex_ask_sys [4] 4 ex_world = ?m ex_world"
    unfolding buf [of "[]", symmetric]
    by (simp add: serve_def listener_receive_def i_listener_udp_receive_def bnd_run call_service_def ex_udp_def ack_packet_def
        ex_ask_sys_def ex_sys_def)
  moreover have "runs ?m ex_world () ?w"
    by (rule runs_andthen [where ?w1.0 = ex_world]) (simp_all only: ex_denied_handled, simp add: runs_def log_msg_run)
  ultimately have "runs (serve ex_ask_sys [4] 4) ex_world () ?w" by (simp only: runs_def)
  then obtain ls where "serve ex_ask_sys [4] 4 ex_world = Ret ((), ?w\<lparr>logs := ls\<rparr>)" by (auto simp: runs_iff)
  moreover have "ll_nodes (lheap ex_world) l_next (Some 4) = Ret [4, 5]"
    using ex_listeners(1) by (simp add: listeners_def ll_nodes_chain)
  ultimately show ?thesis
    by (intro exI [of _ ls]) (simp add: listener_select_def bnd_run andthen_def listener_at_def ex_udp_def ex_link_def serve_def ex_ask_sys_def
        numeral_eq_Suc sent_udp_def listener_blank_def)
qed

end
