(* ===== verification/Spec2Isabelle.thy ===== *)
theory Spec2Isabelle
  imports Example
begin

text \<open>
  A verification development for \<open>bootd\<close>, a daemon that answers the boot requests of
  diskless machines: TFTP, RARP, HP's RMP, BOOTP and the SUN bootparam RPC program. The
  sources are the C files of the directory \<open>src/\<close> of the repository.

  \<^bold>\<open>How the program works.\<close> \<open>main\<close> (\<open>bootd.c\<close>) enters the services into a table, reads the
  configuration, which creates hosts with their files and binds services to devices and
  addresses, starts a listener per binding and then calls \<open>listener_select\<close> in a loop. A
  ready listener receives a packet and calls the handler of its service; a handler looks up
  the client among the hosts, checks that the host may use the service, and works on the
  host's session, of which there are at most \<open>c_session_max\<close>.

  \<^bold>\<open>The model.\<close> A function of the program is a command: a function from the state \<open>world\<close> to
  an outcome, which is a result and a new state (\<open>Ret\<close>), the end of the process (\<open>Exit\<close>, a
  log line of severity \<open>LOG_ERR\<close>), undefined behaviour (\<open>Undef\<close>, with its reason: a NULL or
  dangling pointer, a write or read past an array), or no end (\<open>Loop\<close>). The record \<open>world\<close>
  has a field for each global variable, stores for the hosts, sessions and listeners, which
  the code allocates, links and frees, and the trace of the effects on the outside. The
  operating system, libpcap, libnet, the resolver and the RPC library are functions in the
  record \<open>sys\<close>, a parameter of every definition that calls them. Log lines are kept with
  their format string instead of the formatted text, those of the RARP and RMP packets with
  their text; \<open>runs m w x w'\<close> says that \<open>m\<close> returns
  \<open>x\<close> in state \<open>w'\<close> up to the lines it logged.
\<close>

text \<open>
  \<^bold>\<open>The theories.\<close>

  \<^item> \<open>Prelude\<close>: outcomes and commands, their rules (\<open>flow\<close>, \<open>keeps\<close>), bytes and big-endian
    numbers. \<open>Linked\<close>: singly linked lists in a store, their walks by \<open>partial_function\<close>,
    the locale \<open>linked\<close> for appending and removing, and cyclic lists, on which a walk does
    not end. \<open>Registry\<close>: the locale of tables that refuse duplicate names, interpreted for
    services, devices and the files of a host.
  \<^item> \<open>C_String\<close>: the functions of the C library on strings that the sources call. \<open>World\<close>: the
    structures of \<open>genutil.h\<close>, \<open>host.h\<close>, \<open>listener.h\<close>, \<open>service.h\<close>, \<open>device.h\<close>, \<open>global.h\<close>.
  \<^item> \<open>Logging\<close> (\<open>log.c\<close>), \<open>Strings\<close> (\<open>str.c\<close>), \<open>Service_Table\<close> (\<open>ngenutil.c\<close> and the table in
    \<open>service.c\<close>), \<open>Lookup\<close> (\<open>util.c\<close>), \<open>Device\<close> (\<open>device.c\<close>), \<open>Service\<close> (\<open>service.c\<close>).
  \<^item> \<open>Host\<close> (\<open>host.c\<close>): hosts, files and sessions, with the abstract session table that the
    session operations refine. \<open>Listener\<close>, \<open>Listener_New\<close> and \<open>Dispatch\<close> (\<open>listener.c\<close>): the
    list of listeners and sending, their construction, receiving and the event loop.
  \<^item> \<open>Tftp\<close>, \<open>Rarp\<close>, \<open>Rmp\<close>, \<open>Dhcp\<close>, \<open>Bootparam\<close>: the handlers of the services. \<open>Rarp_Route\<close>: the
    variants of \<open>rarp_updatetable\<close> for systems without \<open>SIOCSARP\<close>.
  \<^item> \<open>Tokenize\<close> (\<open>tokenize.c\<close>): the tokenizer, its specification \<open>tokens\<close> on the whole text, and
    the locale \<open>word_source\<close> of what the parser needs of it. \<open>Parse\<close> (\<open>parse.c\<close>): the parser, and
    that it builds the tree \<open>conf list\<close> of a file, laid out in the store of entries.
  \<^item> \<open>Conf\<close> (\<open>conf.c\<close>): the command line and the evaluation of the entries. \<open>Conf_Trees\<close> and
    \<open>Conf_Hosts\<close> state what it does on the trees: which options and hosts a file describes.
  \<^item> \<open>Bootd\<close> (\<open>bootd.c\<close>): the main program. \<open>Messages\<close>: the forms of the messages the servers
    send. \<open>Serving\<close>: the locales under which a turn of the event loop keeps a predicate.
    \<open>Clients\<close>: the sessions and hosts while requests are served. \<open>Steady\<close>: what a request, and
    what the start of the daemon, cannot change. \<open>Startup\<close>: the table of services and the states that the
    daemon reaches. \<open>Replace\<close> (\<open>replace.c\<close>): the replaced string functions.
  \<^item> \<open>Example\<close>: a concrete system and state for the witnesses.

  \<^bold>\<open>The properties\<close> are numbered in the order of the sections below: the sessions of the
  hosts, TFTP, the configuration from the text of the file to the tables, the daemon as a
  whole, the tables of hosts, listeners, services and devices, the other services, logging and
  the replaced functions. A theorem with hypotheses is followed by a witness that applies it
  to a concrete state. Theorems without a number are further facts of their section.

  \<^bold>\<open>Bounds.\<close> Lists are walked by \<open>partial_function\<close>, so that a cyclic list gives \<open>Loop\<close>. Three
  kinds of loops have a bound on their turns. The walk of the event loop (\<open>select_loop\<close>) has
  one because handlers append to its list; \<open>select_serves_ready\<close> states which is enough. The
  parser (\<open>parse_block\<close>) and the loops that take entries (\<open>entry_loop\<close>) have one that the
  theorems bound by the number of entries of the file. The main loop (\<open>run_loop\<close>) runs for
  ever; its bound is the number of turns looked at. Arrays of the C code have their length in
  the definitions, machine integers their width (\<open>mask\<close> is a 32-bit word, offsets and block
  numbers wrap at the places where the code narrows them).

  \<^bold>\<open>Not modelled.\<close> The code \<open>rpcgen\<close> generates, the formatted text of most log lines,
  what \<open>getopt\<close> does to the command line, the columns of tokens, which nothing reads, and
  memory that is lost without effect on the run are left out.
\<close>

section \<open>Sessions\<close>

text \<open>
  C1. Whatever sequence of session operations runs (request, check, expiry, deletion, for any
  of the configured hosts), the session store stays consistent: every host has at most one
  session, no two hosts share one, no session pointer dangles, \<open>g_n_sessions\<close> counts the
  hosts that have one and never exceeds the configured maximum.
\<close>

theorem sessions_consistent:
  assumes "session_reach S xs w w'" and "session_inv w xs"
  shows "session_inv w' xs"
  using assms by (induction rule: session_reach.induct) (auto intro: session_step_inv)

theorem sessions_consistent_witness:
  "\<exists>w'. host_session_add ex_sys 2 SERVICE_TFTP 7 ex_world = Ret (True, w') \<and> session_inv w' [2, 3]"
proof -
  have t: "table ex_world [2, 3] = (\<lambda>_. None)"
    by (auto simp: table_def fun_eq_iff session_of_def host_at_def)
  have "srun (host_session_add ex_sys 2 SERVICE_TFTP 7) ex_world True
      (snd (spec_add 100 120 5 2 SERVICE_TFTP 7 (table ex_world [2, 3]))) [2, 3]"
    using srun_add [OF ex_state(1), of 2 ex_sys SERVICE_TFTP 7]
    by (simp add: t spec_add_def spec_expire_def del: SERVICE_TFTP_def)
  then obtain w' where r: "host_session_add ex_sys 2 SERVICE_TFTP 7 ex_world = Ret (True, w')"
    by (auto simp: srun_def runs_iff)
  have "session_step ex_sys [2, 3] ex_world w'"
    by (rule step_add [OF _ r]) simp
  then have "session_reach ex_sys [2, 3] ex_world w'"
    by (rule reach_step [OF reach_start])
  then have "session_inv w' [2, 3]" by (rule sessions_consistent [OF _ ex_inv(1)])
  with r show ?thesis by blast
qed

text \<open>
  C2. A request for a new session implements its specification: expired sessions and the
  host's own session go first, then the session is entered with the current time if the
  number of sessions left is below the maximum, and refused otherwise. Nothing else changes
  but the log, and the call always returns.
\<close>

theorem session_add_refines:
  assumes "session_state w xs" and "a \<in> set xs"
  shows "srun (host_session_add S a service sid) w
     (fst (spec_add (s_time S (trace w)) (c_session_timeout w) (c_session_max w) a service sid (table w xs)))
     (snd (spec_add (s_time S (trace w)) (c_session_timeout w) (c_session_max w) a service sid (table w xs))) xs"
  using assms by (rule srun_add)

theorem session_add_refines_witness:
  "srun (host_session_add ex_sys 3 SERVICE_RMP 9) ex_busy
     (fst (spec_add 100 120 5 3 SERVICE_RMP 9 (table ex_busy [2, 3])))
     (snd (spec_add 100 120 5 3 SERVICE_RMP 9 (table ex_busy [2, 3]))) [2, 3]"
  using session_add_refines [OF ex_state(2), of 3 ex_sys SERVICE_RMP 9] by simp

text \<open>
  C3. The expiry run over all hosts removes exactly the sessions whose last access lies more
  than the timeout back (in 32-bit arithmetic) and keeps all others.
\<close>

theorem session_timeouts_refine:
  assumes "session_state w xs"
  shows "srun (util_host_session_timeout_all S) w ()
     (spec_expire (s_time S (trace w)) (c_session_timeout w) (table w xs)) xs"
  using assms by (rule srun_timeout_all)

theorem session_timeouts_refine_witness:
  "srun (util_host_session_timeout_all ex_sys) ex_busy () (spec_expire 100 120 (table ex_busy [2, 3])) [2, 3]"
  using session_timeouts_refine [OF ex_state(2), of ex_sys] by simp

text \<open>
  C4. Checking a session compares service and identifier in this order, reports a missing
  session or a wrong identifier, and on success renews the time of the last access.
\<close>

theorem session_check_refines:
  assumes "session_state w xs" and "a \<in> set xs"
  shows "srun (host_session_check S a service sid) w
     (fst (spec_check (s_time S (trace w)) a service sid (table w xs)))
     (snd (spec_check (s_time S (trace w)) a service sid (table w xs))) xs"
  using assms by (rule srun_check)

theorem session_check_refines_witness:
  "srun (host_session_check ex_sys 2 SERVICE_TFTP 1234) ex_busy
     (fst (spec_check 100 2 SERVICE_TFTP 1234 (table ex_busy [2, 3])))
     (snd (spec_check 100 2 SERVICE_TFTP 1234 (table ex_busy [2, 3]))) [2, 3]"
  using session_check_refines [OF ex_state(2), of 2 ex_sys SERVICE_TFTP 1234] by simp

section \<open>TFTP\<close>





text \<open>
  C7. Confinement: whatever datagram arrives, the files the TFTP handler opens are files
  configured for the host with the sender's address and allowed for TFTP; a sender that is no
  configured host, or that may not use TFTP, makes it open none.
\<close>

theorem tftp_opens_only_allowed:
  assumes "hosts w xs" and "tftp_handler S l from dst p pktlen w = Ret (x, w')"
  shows "\<exists>ps. filter is_open (trace w') = filter is_open (trace w) @ map OpenFile ps
     \<and> set ps \<subseteq> (case client w xs from of
         Some a \<Rightarrow> if h_service (host_at w a) AND SERVICE_TFTP \<noteq> 0 then allowed_paths w a SERVICE_TFTP else {}
       | None \<Rightarrow> {})"
  using handler_opens [OF assms] unfolding opens_within_def opens_are_def by blast

theorem tftp_opens_only_allowed_witness:
  "\<exists>w' ps. tftp_handler ex_sys 4 ex_from ex_from (ack_packet 1) 4 ex_busy = Ret ((), w')
     \<and> filter is_open (trace w') = map OpenFile ps \<and> set ps \<subseteq> {''/k''}"
proof -
  obtain w' where r: "tftp_handler ex_sys 4 ex_from ex_from (ack_packet 1) 4 ex_busy = Ret ((), w')"
    using ack_runs [OF ex_serving, of 1 ex_from "[]" 4] by (auto simp: runs_iff)
  have "client ex_busy [2, 3] ex_from = Some 2" by (simp add: client_def host_at_def ex_from_def)
  moreover have "allowed_paths ex_busy 2 SERVICE_TFTP \<subseteq> {''/k''}"
    by (auto simp: allowed_paths_def host_at_def ex_file_def)
  ultimately show ?thesis
    using tftp_opens_only_allowed [OF ex_hosts(2) r] r by (fastforce split: if_splits)
qed

text \<open>
  C8. A sender that is no configured host, or that may not use TFTP, gets one error packet
  with code 2 (access violation) and the reason, and nothing else happens.
\<close>

theorem tftp_denied:
  assumes "hosts w xs" and "lheap w l = Some r" "l_send r = Some Udp_send"
    and "tftp_text p pktlen = Ret t"
    and "case client w xs from of
        None \<Rightarrow> msg = ''access denied, client unknown''
      | Some a \<Rightarrow> h_service (host_at w a) AND SERVICE_TFTP = 0
          \<and> msg = ''access denied, tftp not allowed for this host''"
  shows "runs (tftp_handler S l from dst p pktlen) w ()
     (sent_udp r from (put16 TFTPOP_ERROR @ put16 TFTP_E_ACCESS @ bytes msg @ [0]) w)"
  using handler_denied [OF assms, of S dst] by (simp add: error_reply_def)

theorem tftp_denied_witness:
  "runs (tftp_handler ex_sys 4 (ex_from\<lparr>sin_addr := [10, 0, 0, 3]\<rparr>) ex_from (ack_packet 1) 4) ex_world ()
     (sent_udp ex_udp (ex_from\<lparr>sin_addr := [10, 0, 0, 3]\<rparr>)
       (put16 TFTPOP_ERROR @ put16 TFTP_E_ACCESS @ bytes ''access denied, tftp not allowed for this host'' @ [0]) ex_world)"
proof -
  have "client ex_world [2, 3] (ex_from\<lparr>sin_addr := [10, 0, 0, 3]\<rparr>) = Some 3"
    by (simp add: client_def host_at_def)
  moreover obtain t where "tftp_text (ack_packet 1) 4 = Ret t"
    using ack_packet_fields(1) [of 1 "[]"] ack_packet_fields(2) [of 1 "[]"] by (auto simp: tftp_text_def)
  ultimately show ?thesis
    by (intro tftp_denied [OF ex_hosts(1)]) (simp_all add: ex_udp_def host_at_def)
qed

text \<open>
  C9. A read request as a client builds it (opcode, file name, zero, mode, zero) is parsed to
  the same file name and mode, for names and modes that fit the buffers.
\<close>

theorem tftp_request_parsed:
  assumes "nul_free f" "nul_free m" "length f + length m < 510"
  shows "tftp_get_filename (rrq_packet f m @ q) (int (length (rrq_packet f m))) = Ret (Some f)
     \<and> tftp_get_mode (rrq_packet f m @ q) (int (length (rrq_packet f m))) = Ret (Some m)"
  using rrq_filename [of f m q] rrq_mode [of f m q] assms by simp

theorem tftp_request_parsed_witness:
  "tftp_get_filename (rrq_packet ''kernel'' ''octet'') 15 = Ret (Some ''kernel'')
     \<and> tftp_get_mode (rrq_packet ''kernel'' ''octet'') 15 = Ret (Some ''octet'')"
proof -
  have "length (rrq_packet ''kernel'' ''octet'') = 15" by (simp add: rrq_packet_def)
  moreover have "nul_free ''kernel''" "nul_free ''octet''" by (simp_all add: nul_free_def code_def)
  ultimately show ?thesis using tftp_request_parsed [of "''kernel''" "''octet''" "[]"] by simp
qed

text \<open>
  C10. A request of 514 bytes or more, from anybody, writes past the 512-byte buffer of the
  file name: the packet is parsed for the log before the sender is looked up.
\<close>

theorem tftp_request_overflow:
  assumes "tftp_op p = Ret op" "op = TFTPOP_RRQ \<or> op = TFTPOP_WRQ" "514 \<le> pktlen"
  shows "tftp_handler S l from dst p pktlen w = Undef ''tftp: write past buf''"
  using rrq_overflow [OF assms]
  by (simp add: tftp_handler_def tftp_log_msgpacket_def andthen_def bnd_run)

theorem tftp_request_overflow_witness:
  "tftp_handler ex_sys 4 ex_from ex_from (rrq_packet ''kernel'' ''octet'' @ replicate 600 0) 600 ex_world
     = Undef ''tftp: write past buf''"
  by (rule tftp_request_overflow [where op = TFTPOP_RRQ]) (simp_all add: rrq_packet_def)

text \<open>
  C11. With sockets that work, every read request of an allowed client for a configured file
  ends in undefined behaviour: the listener made for the transfer has no name, and
  \<open>listener_add\<close> writes through the NULL name.
\<close>

theorem tftp_read_request_undefined:
  assumes st: "session_state w xs" and S: "working_sockets S"
    and t: "tftp_text p pktlen = Ret t" "tftp_op p = Ret TFTPOP_RRQ" "tftp_get_filename p pktlen = Ret name"
    and cl: "client w xs from = Some a" and sv: "h_service (host_at w a) AND SERVICE_TFTP \<noteq> 0"
    and f: "file_passes file_ranks SERVICE_TFTP name (h_files (host_at w a)) 0 = Some f"
  shows "tftp_handler S l from dst p pktlen w = Undef ''listener_add: l->name[0] = 0 with NULL name''"
proof -
  have h: "hosts w xs" and a: "a \<in> set xs"
    using frame_hosts [OF st] client_mem [OF cl] by auto
  obtain ls where log: "tftp_log_msgpacket p pktlen w = Ret ((), w\<lparr>logs := ls\<rparr>)"
    using log_msgpacket_run [of p pktlen "fst t" "fst (snd t)" "snd (snd t)" w] t(1) by (auto simp: runs_iff)
  let ?w = "w\<lparr>logs := ls\<rparr>"
  have ha: "hheap w a = Some (host_at w a)" by (rule hosts_alloc [OF h a])
  have scan: "util_ip2host (sin_addr from) ?w = Ret (Some a, ?w)"
    using util_ip2host_run [of ?w xs "sin_addr from"] h cl
    by (simp add: hosts_def host_at_def client_def eq_commute [of "sin_addr from"])
  have "tftp_rrq_file S l from dst a f ?w = Undef ''listener_add: l->name[0] = 0 with NULL name''"
    by (rule rrq_file_undefined [of _ xs]) (use st a S in simp_all)
  then have "tftp_switch S l from dst p pktlen a ?w = Undef ''listener_add: l->name[0] = 0 with NULL name''"
    using t ha f by (simp add: tftp_switch_def tftp_rrq_def util_name2file_def bnd_run)
  then show ?thesis
    using log scan ha sv by (simp add: tftp_handler_def tftp_for_host_def andthen_def bnd_run)
qed

theorem tftp_read_request_undefined_witness:
  "tftp_handler ex_sys 4 ex_from ex_from (rrq_packet ''kernel'' ''octet'') 15 ex_world
     = Undef ''listener_add: l->name[0] = 0 with NULL name''"
proof -
  have len: "int (length (rrq_packet ''kernel'' ''octet'')) = 15" by (simp add: rrq_packet_def)
  have n: "nul_free ''kernel''" "nul_free ''octet''" by (simp_all add: nul_free_def code_def)
  have g: "tftp_get_filename (rrq_packet ''kernel'' ''octet'') 15 = Ret (Some ''kernel'')"
    "tftp_get_mode (rrq_packet ''kernel'' ''octet'') 15 = Ret (Some ''octet'')"
    using rrq_filename [of "''kernel''" "''octet''" "[]"] rrq_mode [of "''kernel''" "''octet''" "[]"] n len
    by (simp_all add: rrq_packet_def)
  have op: "tftp_op (rrq_packet ''kernel'' ''octet'') = Ret TFTPOP_RRQ" by (simp add: rrq_packet_def)
  obtain t where "tftp_text (rrq_packet ''kernel'' ''octet'') 15 = Ret t"
    using g op by (auto simp: tftp_text_def)
  moreover have "client ex_world [2, 3] ex_from = Some 2" by (simp add: client_def host_at_def ex_from_def)
  ultimately show ?thesis
    by (rule tftp_read_request_undefined [OF ex_state(1) ex_sockets _ op g(1), where f = ex_file])
      (simp_all add: host_at_def file_ranks_def i_file_match_def ex_file_def)
qed

section \<open>Configuration\<close>

text \<open>
  C12. The tokenizer refines its specification: through its 4096-byte block, the four tokens of
  look-ahead and all its states, each call gives the next token of the rest of the text, cut
  or padded to the caller's array, and at the end of the text none.
\<close>

theorem tokenizer_refines:
  assumes "tz_ok tz w" "reads S (tz_fd tz)"
  shows "\<exists>tz' w'. gen_tokenize_next S tz l w
      = Ret ((case upcoming tz w of [] \<Rightarrow> None | t # _ \<Rightarrow> Some (strncpy l t), tz'), w')
    \<and> only_io w w' \<and> tz_ok tz' w' \<and> tz_fd tz' = tz_fd tz \<and> upcoming tz' w' = tl (upcoming tz w)"
  using tk.next_law [of tz w S l] assms tokenize_next_spec [OF assms, of l] by blast

theorem tokenizer_refines_witness:
  "\<exists>tz' w'. gen_tokenize_next (ex_conf_sys ''host a ;'') ex_tz 6 (ex_open ''host a ;'')
      = Ret ((Some (strncpy 6 ''host''), tz'), w') \<and> upcoming tz' w' = [''a'', '';'']"
proof -
  have t: "tokens ''host a ;'' = [''host'', ''a'', '';'']" by code_simp
  show ?thesis
    using tokenizer_refines [OF ex_tz_ok(1) [of "''host a ;''"] ex_reads [of "''host a ;''"], of 6]
    by (auto simp: ex_tz_ok(2) t)
qed

text \<open>
  C13. Writing a configuration and reading it back gives the configuration: the parser, on the
  text that \<open>print_conf\<close> writes (special characters escaped), builds the same tree of names,
  values and sub-entries at fresh addresses and changes nothing else, for any tree whose words
  fit the arrays and that fits the tables.
\<close>

theorem configuration_roundtrip:
  assumes "s_open S (trace w) f = Inr (fd, bytes (print_conf cs))" "reads S fd" "pt w = no_tables"
    and "nul_free f" "length f < PARSE_STRING_MAX" "cs \<noteq> []" "\<forall>c \<in> set cs. conf_ok c"
    and "forest_size cs < n" "256 + sum_list (map conf_need cs) \<le> 65536"
  shows "\<exists>w'. parse_file n S (Some f) w = Ret (brk w, w') \<and> laid (pheap w') (brk w) (Some (brk w)) cs
     \<and> brk w' = brk w + forest_size cs \<and> only_parse (with_file w fd (bytes (print_conf cs))) w'"
proof (rule parse_file_builds)
  show "config_file S w f fd (bytes (print_conf cs)) (concat (map conf_words cs))"
    using assms tokens_print_conf [of cs] by (simp add: config_file_def bytes_def comp_def)
qed (use assms in auto)

theorem configuration_roundtrip_witness:
  "\<exists>w'. parse_file 8 (ex_conf_sys (print_conf ex_conf)) (Some ''c'') ex_world = Ret (10, w')
     \<and> laid (pheap w') 10 (Some 10) ex_conf"
proof -
  have b: "brk ex_world = 10" "pt ex_world = no_tables" by (simp_all add: ex_world_def initial_world_def)
  have n: "ex_conf \<noteq> []" "forest_size ex_conf = 7" "sum_list (map conf_need ex_conf) = 28"
    by (simp_all add: ex_conf_def ex_service_conf_def ex_host_conf_def)
  have "s_open (ex_conf_sys (print_conf ex_conf)) (trace ex_world) ''c'' = Inr (3, bytes (print_conf ex_conf))"
    by (simp add: ex_conf_sys_def)
  from configuration_roundtrip [OF this ex_reads b(2) _ _ n(1) ex_conf_ok(1), of 8] show ?thesis
    using n(2,3) b(1) by (auto simp: nul_free_def code_def)
qed





text \<open>
  C16. Reading a configuration of options, services and hosts, from the text of the file to the
  tables: it returns, the options have the values of the file, those not given keep their value,
  the tables of services and devices are those after the bindings of the \<open>service\<close> sections
  (\<open>service_link_add\<close> and \<open>service_udp_add\<close>, one call per word, in the order of the file), and
  the list of hosts is the old one followed by exactly the hosts that the sections describe
  (\<open>host_of\<close>: name, addresses, service mask, files with defaults filled in), in their order.
\<close>

theorem configuration_builds_hosts:
  assumes "config_file S w f fd content (concat (map conf_words cs))" "cs \<noteq> []" "\<forall>c \<in> set cs. conf_ok c"
    and "forest_size cs < n" "256 + sum_list (map conf_need cs) \<le> 65536"
    and "conf_name ` set cs \<subseteq> table_names" "basics_of cs = Some b" "no_directories w" "log_ok (lg w)"
    and "bindings_of (l_services w) (service_sections cs) = Some bs" "each_ok (make_binding S) bs (set_basics b w) = Ret (True, u)"
    and "hosts_of S (l_services w) (host_sections cs) = Some ts"
    and "hosts_are w xs us" "\<forall>a \<in> set xs. a < brk w" "new_names (us @ ts)"
  shows "\<exists>w' ys. conf_file S n (Some f) w = Ret ((), w') \<and> basic_state b w w' \<and> hosts_are w' (xs @ ys) (us @ ts)
     \<and> l_services w' = l_services u \<and> l_devices w' = l_devices u"
  by (rule conf_file_run [OF assms])

theorem configuration_builds_hosts_witness:
  "\<exists>w' ys. conf_file (ex_conf_sys (print_conf ex_conf)) 8 (Some ''c'') ex_world = Ret ((), w') \<and> c_session_max w' = 7
     \<and> hosts_are w' ([2, 3] @ ys) ([ex_alpha\<lparr>h_next := None\<rparr>, ex_beta] @ [ex_gamma])
     \<and> map bound_devices (l_services w') = [[], [''eth0'']]"
proof -
  have "\<exists>w' ys. conf_file (ex_conf_sys (print_conf ex_conf)) 8 (Some ''c'') ex_world = Ret ((), w')
     \<and> basic_state ex_basics ex_world w' \<and> hosts_are w' ([2, 3] @ ys) ([ex_alpha\<lparr>h_next := None\<rparr>, ex_beta] @ [ex_gamma])
     \<and> l_services w' = l_services ex_bound \<and> l_devices w' = l_devices ex_bound"
    by (rule configuration_builds_hosts [OF ex_config_file [OF tokens_print_conf [OF ex_conf_ok(1)]] _ ex_conf_ok(1) _ _ _
          ex_basics_of(1) ex_no_directories _ _ ex_binds _ ex_hosts_are _ ex_new_names])
      (simp_all add: ex_hosts_of ex_bindings_of, simp_all add: ex_conf_def ex_service_conf_def ex_host_conf_def table_names_def
        basic_names_def ex_world_def initial_world_def)
  then obtain w' ys where "conf_file (ex_conf_sys (print_conf ex_conf)) 8 (Some ''c'') ex_world = Ret ((), w')"
    "basic_state ex_basics ex_world w'" "hosts_are w' ([2, 3] @ ys) ([ex_alpha\<lparr>h_next := None\<rparr>, ex_beta] @ [ex_gamma])"
    "l_services w' = l_services ex_bound" by blast
  then show ?thesis
    by (intro exI [of _ w'] exI [of _ ys]) (simp add: basic_state_def ex_basics_def ex_bound_devices)
qed

text \<open>
  C17. The services find the hosts of the file: after it is read, looking up the IP address that
  a host section gives, and no other host has, returns a host with everything in the section.
\<close>

theorem configured_host_is_found:
  assumes "config_file S w f fd content (concat (map conf_words cs))" "cs \<noteq> []" "\<forall>c \<in> set cs. conf_ok c"
    and "forest_size cs < n" "256 + sum_list (map conf_need cs) \<le> 65536"
    and "conf_name ` set cs \<subseteq> table_names" "basics_of cs = Some b" "no_directories w" "log_ok (lg w)"
    and "bindings_of (l_services w) (service_sections cs) = Some bs" "each_ok (make_binding S) bs (set_basics b w) = Ret (True, u)"
    and "hosts_of S (l_services w) (host_sections cs) = Some ts"
    and "hosts_are w xs us" "\<forall>a \<in> set xs. a < brk w" "new_names (us @ ts)"
    and "t \<in> set ts" "\<forall>u \<in> set (us @ ts). h_ip u = h_ip t \<longrightarrow> u = t"
  shows "\<exists>w' a. conf_file S n (Some f) w = Ret ((), w') \<and> util_ip2host (h_ip t) w' = Ret (Some a, w')
     \<and> (host_at w' a)\<lparr>h_next := None\<rparr> = t"
proof -
  obtain w' ys where w': "conf_file S n (Some f) w = Ret ((), w')" "hosts_are w' (xs @ ys) (us @ ts)"
    using conf_file_run [OF assms(1-15)] by blast
  then obtain a where "util_ip2host (h_ip t) w' = Ret (Some a, w')" "(host_at w' a)\<lparr>h_next := None\<rparr> = t"
    using hosts_are_found [of w' "xs @ ys" "us @ ts" t] assms(16,17) by auto
  with w'(1) show ?thesis by blast
qed

theorem configured_host_is_found_witness:
  "\<exists>w' a. conf_file (ex_conf_sys (print_conf ex_conf)) 8 (Some ''c'') ex_world = Ret ((), w')
     \<and> util_ip2host [10, 0, 0, 4] w' = Ret (Some a, w') \<and> (host_at w' a)\<lparr>h_next := None\<rparr> = ex_gamma"
proof -
  have "\<exists>w' a. conf_file (ex_conf_sys (print_conf ex_conf)) 8 (Some ''c'') ex_world = Ret ((), w')
     \<and> util_ip2host (h_ip ex_gamma) w' = Ret (Some a, w') \<and> (host_at w' a)\<lparr>h_next := None\<rparr> = ex_gamma"
    by (rule configured_host_is_found [OF ex_config_file [OF tokens_print_conf [OF ex_conf_ok(1)]] _ ex_conf_ok(1) _ _ _
          ex_basics_of(1) ex_no_directories _ _ ex_binds _ ex_hosts_are _ ex_new_names])
      (simp_all add: ex_hosts_of ex_bindings_of, simp_all add: ex_conf_def ex_service_conf_def ex_host_conf_def table_names_def
        basic_names_def ex_world_def initial_world_def ex_gamma_def)
  then show ?thesis by (simp add: ex_gamma_def)
qed



text \<open>
  C19. An option that a section gives twice, or with no value or several, is an error, whatever
  type of value is read: no reader returns.
\<close>

theorem option_twice_is_error:
  assumes "taken N (pheap w) lo p cs" "n \<notin> N" "length n < 256" "given cs n = None" "log_ok (lg w)"
  shows "aborts (i_get_string p (Some n) cur True w) \<and> aborts (i_get_bool p (Some n) True w)
     \<and> aborts (i_get_int p (Some n) True w) \<and> aborts (i_get_ether S p (Some n) True w)
     \<and> aborts (i_get_ip S p (Some n) True w) \<and> aborts (i_get_loglevel p (Some n) True w)"
  using single_bad [OF assms]
  by (simp add: i_get_string_def i_get_bool_def i_get_int_def i_get_ether_def i_get_ip_def i_get_loglevel_def aborts_bnd)

theorem option_twice_is_error_witness:
  "aborts (i_get_string (Some 10) (Some ''name'') None True ex_twice)"
proof -
  have "laid (pheap ex_twice) 10 (Some 10) [Conf ''name'' [''a''] [], Conf ''name'' [''b''] []]"
    by (simp add: ex_twice_def entry_zero_def)
  then have "taken {} (pheap ex_twice) 10 (Some 10) [Conf ''name'' [''a''] [], Conf ''name'' [''b''] []]" by (rule laid_taken)
  from option_twice_is_error [OF this, of "''name''"] show ?thesis
    by (simp add: given_def ex_twice_def ex_world_def initial_world_def)
qed

section \<open>The daemon\<close>

text \<open>
  C20. The daemon never returns from \<open>main\<close>: for every system it runs on, every command line and
  every number of turns, the flag of its loop stays set, from the start on and whatever
  arrives. The statistics, the clean-up and the \<open>return 0\<close> behind the loop are not reached.
\<close>

theorem daemon_never_returns:
  "bootd_main S n k opts initial_world \<noteq> Ret r"
  by (rule bootd_main_goes) (simp add: initial_world_def)

text \<open>
  C21. No request changes the settings: a turn of the event loop that returns leaves the options,
  the tables of services and devices, the log levels, the entries of the configuration and the
  flag of the loop as they were, whatever packets the listeners get.
\<close>

theorem serving_keeps_settings:
  assumes "listener_select S n w = Ret (r, w')"
  shows "settings w' = settings w"
  using assms by (rule select_settings)

theorem serving_keeps_settings_witness:
  "\<exists>w'. listener_select ex_sys 2 ex_world = Ret ((), w') \<and> settings w' = settings ex_world"
  using serving_keeps_settings [OF ex_turn] ex_turn by blast



text \<open>
  C23. The session table stays consistent while the daemon serves requests: a turn of the event
  loop, whatever datagrams and calls arrive, keeps the invariant of C1 (at most one session per
  host, none shared, none dangling, the counter exact and within its limit) and changes nothing
  of the hosts but their sessions. The boot requests of RMP must come from configured stations;
  for another station the code copies a host, with its session.
\<close>

theorem serving_keeps_sessions:
  assumes "session_inv w xs" and "plain_listeners w" and "listener_select S n w = Ret (r, w')"
    and "\<And>tr dev p n. s_frame S tr dev = Some (p, n) \<Longrightarrow> rmp_frame p \<Longrightarrow> known_station xs (ids w) p"
  shows "session_inv w' xs \<and> ids w' = ids w \<and> plain_listeners w'"
  using select_served [OF assms(4,1-3)] .

theorem serving_keeps_sessions_witness:
  "\<exists>w'. listener_select ex_ask_sys 2 ex_world = Ret ((), w') \<and> session_inv w' [2, 3] \<and> ids w' = ids ex_world
     \<and> length (trace w') = 1"
proof -
  obtain ls where r: "listener_select ex_ask_sys 2 ex_world = Ret ((), (sent_udp ex_udp ex_other ex_denied ex_world)\<lparr>logs := ls\<rparr>)"
    using ex_denied_turn by blast
  have "plain_listeners ex_world" by (simp add: plain_listeners_def no_rmp_def ex_udp_def ex_link_def listener_blank_def)
  moreover have "\<And>tr dev. s_frame ex_ask_sys tr dev = None" by (simp add: ex_ask_sys_def ex_sys_def)
  ultimately show ?thesis using serving_keeps_sessions [OF ex_inv(1) _ r] r by (simp add: sent_udp_def)
qed

text \<open>Before every turn of its loop the daemon has only sent such messages, and its loop goes on.\<close>

theorem reached_states:
  assumes "reached S opts w"
  shows "g_run w \<and> (\<forall>e \<in> set (trace w). event_typed e)"
  using reached_goes [OF assms] reached_sent_typed [OF assms] by blast

theorem reached_states_witness: "\<exists>w. reached ex_sys [] w \<and> g_run w \<and> (\<forall>e \<in> set (trace w). event_typed e)"
proof -
  obtain w where "bootd_start ex_sys 1 [] initial_world = Ret ((), w)" using ex_start by blast
  then have "reached ex_sys [] w" by (rule reached.started)
  with reached_states [OF this] show ?thesis by blast
qed

section \<open>Hosts and files\<close>

text \<open>
  C24. The search for the \<open>no\<close>-th file of a host that matches a name returns the \<open>no\<close>-th
  entry of the list of all matches, ordered by how well they match (path, name, alias,
  wildcard), and NULL when there are fewer. A file it returns belongs to the host and is
  allowed for the service asked for.
\<close>

theorem name2file_is_ranked_search:
  assumes "hheap w a = Some h"
  shows "util_name2file (Some a) service name no w =
     Ret (if 0 \<le> no \<and> no < int (length (ranked [1, 2, 3, 4] service name (h_files h)))
          then Some (ranked [1, 2, 3, 4] service name (h_files h) ! nat no) else None, w)
     \<and> (\<forall>f \<in> set (ranked [1, 2, 3, 4] service name (h_files h)). f \<in> set (h_files h) \<and> f_service f AND service \<noteq> 0)"
proof -
  have "f_service f AND service \<noteq> 0" if "i_file_match f service name \<noteq> 0" for f
    using that by (auto simp: i_file_match_def split: if_splits)
  then show ?thesis
    unfolding file_ranks_def [symmetric] using assms by (simp add: util_name2file_def bnd_run file_passes_ranked set_ranked)
qed

theorem name2file_is_ranked_search_witness:
  "util_name2file (Some 2) SERVICE_TFTP (Some ''kernel'') 0 ex_world = Ret (Some ex_file, ex_world)"
proof -
  have "ranked [1, 2, 3, 4] SERVICE_TFTP (Some ''kernel'') (h_files ex_alpha) = [ex_file]"
    by (simp add: ranked_def i_file_match_def ex_file_def)
  with name2file_is_ranked_search [of ex_world 2 ex_alpha SERVICE_TFTP "Some ''kernel''" 0] show ?thesis
    by simp
qed

text \<open>
  The three host searches return the first host of the list with the name (letter case
  ignored), the Ethernet address or the IP address, and change nothing.
\<close>

theorem host_searches:
  assumes "named_hosts w xs"
  shows "util_name2host name w = Ret (find (\<lambda>a. strcaseeq name (the (h_name (host_at w a)))) xs, w)
     \<and> util_ether2host e w = Ret (find (\<lambda>a. h_eth (host_at w a) = e) xs, w)
     \<and> util_ip2host ip w = Ret (find (\<lambda>a. ip = h_ip (host_at w a)) xs, w)"
proof -
  have "hosts w xs" using assms by (simp add: named_hosts_def)
  then show ?thesis
    using util_name2host_run [OF assms] util_ether2host_run util_ip2host_run by blast
qed

theorem host_searches_witness:
  "util_name2host ''alpha'' ex_world = Ret (Some 2, ex_world)
     \<and> util_ip2host [10, 0, 0, 3] ex_world = Ret (Some 3, ex_world)"
  using host_searches [OF ex_named, of "''alpha''" "[]" "[10, 0, 0, 3]"]
  by (simp add: host_at_def)

text \<open>
  Registering a host whose name is new makes it the last host of the list; the hosts
  before it keep their place and their data.
\<close>

theorem host_link_appends:
  assumes "named_hosts w xs" "xs \<noteq> []" and "hheap w a = Some h" "a \<notin> set xs" "h_next h = None"
    and "\<And>b. b \<in> set xs \<Longrightarrow> \<not> same_name (h_name h) (h_name (host_at w b))"
  shows "\<exists>w'. host_link a w = Ret ((), w') \<and> hosts w' (xs @ [a])
     \<and> (\<forall>b. map_option (set_h_next None) (hheap w' b) = map_option (set_h_next None) (hheap w b))"
proof -
  have l: "hheap w (last xs) = Some (host_at w (last xs))"
    using hosts_alloc [of w xs "last xs"] assms(1,2) by (simp add: named_hosts_def)
  show ?thesis
    using host_link_new [OF assms(1,2,3,6)] host_link_chain [OF assms(1-5)] l
    by (auto simp: set_h_next_def)
qed

theorem host_link_appends_witness:
  "\<exists>w'. host_link 9 (ex_world\<lparr>hheap := (hheap ex_world)(9 \<mapsto> ex_beta\<lparr>h_name := Some ''gamma''\<rparr>)\<rparr>) = Ret ((), w')
     \<and> hosts w' [2, 3, 9]"
proof -
  let ?w = "ex_world\<lparr>hheap := (hheap ex_world)(9 \<mapsto> ex_beta\<lparr>h_name := Some ''gamma''\<rparr>)\<rparr>"
  have "named_hosts ?w [2, 3]" by (simp add: named_hosts_def hosts_def host_at_def ex_alpha_def ex_beta_def)
  moreover have "h_next (ex_beta\<lparr>h_name := Some ''gamma''\<rparr>) = None" by (simp add: ex_beta_def)
  moreover have "\<not> same_name (Some ''gamma'') (h_name (host_at ?w b))" if "b \<in> set [2, 3]" for b
    using that by (auto simp: host_at_def same_name_def str_is_equalnc_def strcaseeq_def tolower_def code_def)
  ultimately show ?thesis
    using host_link_appends [of ?w "[2, 3]" 9 "ex_beta\<lparr>h_name := Some ''gamma''\<rparr>"] by fastforce
qed

text \<open>Registering a host under a name that exists changes nothing but the log.\<close>

theorem host_link_ignores_duplicate:
  assumes "named_hosts w xs" and "hheap w a = Some h"
    and "b \<in> set xs" "same_name (h_name h) (h_name (host_at w b))"
  shows "runs (host_link a) w () w"
  using assms by (rule host_link_dup)

theorem host_link_ignores_duplicate_witness:
  "runs (host_link 9) (ex_world\<lparr>hheap := (hheap ex_world)(9 \<mapsto> ex_beta)\<rparr>) ()
     (ex_world\<lparr>hheap := (hheap ex_world)(9 \<mapsto> ex_beta)\<rparr>)"
proof -
  let ?w = "ex_world\<lparr>hheap := (hheap ex_world)(9 \<mapsto> ex_beta)\<rparr>"
  have "named_hosts ?w [2, 3]" by (simp add: named_hosts_def hosts_def host_at_def ex_alpha_def ex_beta_def)
  moreover have "same_name (h_name ex_beta) (h_name (host_at ?w 3))" by (simp add: host_at_def same_name_def)
  ultimately show ?thesis 
    by (intro host_link_ignores_duplicate [of ?w "[2, 3]" 9 ex_beta 3]) simp_all
qed

text \<open>
  C25. A host copied from one in the list keeps its \<open>next\<close> pointer (as \<open>host_clone\<close> leaves
  it); registering the copy closes the list to a cycle, and a search for a host that is not
  in it does not return.
\<close>

theorem host_link_of_copy_loops:
  assumes "named_hosts w xs" "xs \<noteq> []" "hheap w a = Some h" "h_next h = Some s" "s \<in> set xs" "a \<notin> set xs"
    and "\<And>b. b \<in> set xs \<Longrightarrow> \<not> same_name (h_name h) (h_name (host_at w b))"
    and "h_eth h \<noteq> e" "\<And>b. b \<in> set xs \<Longrightarrow> h_eth (host_at w b) \<noteq> e"
  shows "\<exists>w'. host_link a w = Ret ((), w') \<and> util_ether2host e w' = Loop"
proof -
  obtain w' where r: "host_link a w = Ret ((), w')" using host_link_new [OF assms(1-3) assms(7)] by blast
  have "util_ether2host e w' = Loop"
    unfolding util_ether2host_def
    by (rule host_link_cycle [OF assms(1-7) _ _ _ r]) (use assms(8,9) in \<open>auto simp: set_h_next_def\<close>)
  with r show ?thesis by blast
qed

theorem host_link_of_copy_loops_witness:
  "\<exists>w'. host_link 9 (ex_world\<lparr>hheap := (hheap ex_world)(9 \<mapsto> ex_alpha\<lparr>h_name := Some ''copy''\<rparr>)\<rparr>) = Ret ((), w')
     \<and> util_ether2host [1, 1, 1, 1, 1, 1] w' = Loop"
proof -
  let ?h = "ex_alpha\<lparr>h_name := Some ''copy''\<rparr>"
  let ?w = "ex_world\<lparr>hheap := (hheap ex_world)(9 \<mapsto> ?h)\<rparr>"
  have "named_hosts ?w [2, 3]" by (simp add: named_hosts_def hosts_def host_at_def ex_alpha_def ex_beta_def)
  moreover have "h_next ?h = Some 3" by (simp add: ex_alpha_def)
  moreover have "\<not> same_name (h_name ?h) (h_name (host_at ?w b))" if "b \<in> set [2, 3]" for b
    using that by (auto simp: host_at_def same_name_def str_is_equalnc_def strcaseeq_def tolower_def code_def)
  ultimately show ?thesis
    by (intro host_link_of_copy_loops [of ?w "[2, 3]" 9 ?h 3 "[1, 1, 1, 1, 1, 1]"])
      (auto simp: host_at_def ex_alpha_def ex_beta_def)
qed

text \<open>
  The files of a host have pairwise different names: adding a file keeps this, because a
  second file with the same name is ignored.
\<close>

theorem host_files_unique:
  assumes "host_file_insert hp f w = Ret ((), w')"
    and "pairwise (\<lambda>i j. \<not> same_name (f_name (h_files (host_at w hp) ! i)) (f_name (h_files (host_at w hp) ! j)))
      {..<length (h_files (host_at w hp))}"
  shows "pairwise (\<lambda>i j. \<not> same_name (f_name (h_files (host_at w' hp) ! i)) (f_name (h_files (host_at w' hp) ! j)))
      {..<length (h_files (host_at w' hp))}"
  using hf.add_unique_keys [OF assms(1)] assms(2) by (simp add: hf.unique_keys_def)

theorem host_files_unique_witness:
  "\<exists>w'. host_file_insert 2 (ex_file\<lparr>f_name := Some ''other''\<rparr>) ex_world = Ret ((), w') \<and>
     pairwise (\<lambda>i j. \<not> same_name (f_name (h_files (host_at w' 2) ! i)) (f_name (h_files (host_at w' 2) ! j)))
      {..<length (h_files (host_at w' 2))}"
proof -
  obtain w' where r: "host_file_insert 2 (ex_file\<lparr>f_name := Some ''other''\<rparr>) ex_world = Ret ((), w')"
    by (simp add: host_file_insert_def bnd_run andthen_def log_msg_run ex_file_def same_name_def
        str_is_equalnc_def strcaseeq_def tolower_def code_def)
  have "pairwise (\<lambda>i j. \<not> same_name (f_name (h_files (host_at ex_world 2) ! i)) (f_name (h_files (host_at ex_world 2) ! j)))
      {..<length (h_files (host_at ex_world 2))}"
    by (simp add: host_at_def pairwise_def)
  from host_files_unique [OF r this] r show ?thesis by blast
qed

section \<open>Listeners\<close>

text \<open>
  A complete listener with a descriptor of its own becomes the last of the list, which
  keeps all others in their order.
\<close>

theorem listener_add_appends:
  assumes "listeners w xs" "xs \<noteq> []" "l \<notin> set xs" "lheap w l = Some r" "addable r"
    and "\<And>a. a \<in> set xs \<Longrightarrow> l_fd (listener_at w a) \<noteq> l_fd r"
  shows "\<exists>w'. runs (listener_add (Some l)) w () w' \<and> listeners w' (xs @ [l])
     \<and> listener_at w' l = set_l_next None r"
  using assms by (rule listener_add_last)

theorem listener_add_appends_witness:
  "\<exists>w'. runs (listener_add (Some 9)) (ex_world\<lparr>lheap := (lheap ex_world)(9 \<mapsto> ex_udp\<lparr>l_fd := 6\<rparr>)\<rparr>) () w'
     \<and> listeners w' [4, 5, 9] \<and> listener_at w' 9 = set_l_next None (ex_udp\<lparr>l_fd := 6\<rparr>)"
proof -
  let ?w = "ex_world\<lparr>lheap := (lheap ex_world)(9 \<mapsto> ex_udp\<lparr>l_fd := 6\<rparr>)\<rparr>"
  have "listeners ?w [4, 5]"
    by (simp add: listeners_def ex_udp_def ex_link_def listener_blank_def)
  moreover have "addable (ex_udp\<lparr>l_fd := 6\<rparr>)" by (simp add: addable_def ex_udp_def)
  moreover have "l_fd (listener_at ?w a) \<noteq> 6" if "a \<in> set [4, 5]" for a
    using that by (auto simp: listener_at_def ex_udp_def ex_link_def)
  ultimately show ?thesis
    using listener_add_appends [of ?w "[4, 5]" 9 "ex_udp\<lparr>l_fd := 6\<rparr>"] by simp
qed

text \<open>C26. Deleting a listener that is not the first unlinks it and frees it, and keeps all others.\<close>

theorem listener_delete_unlinks:
  assumes "listeners w (ys @ b # l # zs)" and "l_cleanup (listener_at w l) \<noteq> None"
  shows "\<exists>w'. listener_delete (Some l) w = Ret ((), w') \<and> listeners w' (ys @ b # zs) \<and> lheap w' l = None"
  using assms by (rule listener_delete_inner)

theorem listener_delete_unlinks_witness:
  "\<exists>w'. listener_delete (Some 5) ex_world = Ret ((), w') \<and> listeners w' [4] \<and> lheap w' 5 = None"
  using listener_delete_unlinks [of ex_world "[]" 4 5 "[]"] ex_listeners(1)
  by (simp add: listener_at_def ex_link_def)

text \<open>C27. Deleting the first listener frees it twice: the branch for it does not return.\<close>

theorem listener_delete_first_undefined:
  assumes "listeners w (l # zs)" and "l_cleanup (listener_at w l) \<noteq> None"
  shows "listener_delete (Some l) w = Undef ''listener pointer''"
  using assms by (rule listener_delete_head)

theorem listener_delete_first_undefined_witness:
  "listener_delete (Some 4) ex_world = Undef ''listener pointer''"
  using listener_delete_first_undefined [OF ex_listeners(1)] by (simp add: listener_at_def ex_udp_def)

text \<open>A link listener transmits no frame shorter than 62 bytes: the call reports -1.\<close>

theorem link_send_refuses_short:
  assumes "lheap w l = Some r" "l_send r = Some Link_send" "n < 62"
  shows "runs (listener_send S l dst pk n) w (-1) w"
  using assms by (rule link_send_short)

theorem link_send_refuses_short_witness:
  "runs (listener_send ex_sys 5 None (replicate 60 0) 60) ex_world (-1) ex_world"
  by (rule link_send_refuses_short [where r = ex_link]) (simp_all add: ex_link_def)



section \<open>Services and devices\<close>

text \<open>
  C29. Binding a link service to all devices appends the names of all devices, in their
  order, to the list of its devices, up to 16 entries in total; the result says whether all
  of them found room.
\<close>

theorem service_bind_all_devices:
  assumes "s < length (l_services w)" "service_ok (l_services w ! s)" "device \<in> {''*'', ''all''}"
  shows "\<exists>sv b. service_link_add S s device w = Ret (b, with_service w s sv) \<and> service_ok sv
     \<and> (b \<longleftrightarrow> length (bound_devices (l_services w ! s)) + length (l_devices w) \<le> SERVICE_BIND_MAX \<or> l_devices w = [])
     \<and> bound_devices sv = take SERVICE_BIND_MAX (bound_devices (l_services w ! s) @ map d_name (l_devices w))"
  using assms by (rule service_link_add_all)

lemma ex_service_ok: "service_ok ex_service" "bound_devices ex_service = []" "bound_addrs ex_service = []"
  using service_new_ok by (simp_all add: ex_service_def service_ok_def bound_devices_def bound_addrs_def)

theorem service_bind_all_devices_witness:
  "\<exists>sv. service_link_add ex_sys 0 ''all'' ex_world = Ret (True, with_service ex_world 0 sv)
     \<and> bound_devices sv = [''eth0'']"
  using service_bind_all_devices [of 0 ex_world "''all''" ex_sys] ex_service_ok
  by (fastforce simp: ex_device_def)

text \<open>
  A word that is not the name of a device is refused as a device of a link service, also
  when it is the Ethernet address of one.
\<close>

theorem service_bind_unknown_device:
  assumes "l_devices w \<noteq> []" "\<forall>d \<in> set (l_devices w). d_name d \<noteq> device"
    and "device \<noteq> ''*''" "device \<noteq> ''all''"
  shows "service_link_add S s device w = Ret (False, w)"
  using assms by (rule service_link_add_unknown)

theorem service_bind_unknown_device_witness:
  "service_link_add (ex_sys\<lparr>s_ether_aton := (\<lambda>_. Some [2, 0, 0, 0, 0, 9])\<rparr>) 0 ''2:0:0:0:0:9'' ex_world = Ret (False, ex_world)"
  by (rule service_bind_unknown_device) (simp_all add: ex_device_def)

text \<open>
  Binding a UDP service to \<open>*:port\<close> enters the wildcard address with that port in the
  first free slot of the service, while there is one of the 16 left.
\<close>

theorem service_bind_any_address:
  assumes "s < length (l_services w)" "service_ok (l_services w ! s)" "0 < p" "p < 65536"
  shows "\<exists>sv. service_udp_add S s (Some (''*:'' @ show_nat p)) w =
       Ret (length (bound_addrs (l_services w ! s)) < SERVICE_BIND_MAX, with_service w s sv) \<and> service_ok sv
     \<and> bound_addrs sv = take SERVICE_BIND_MAX (bound_addrs (l_services w ! s) @
         [\<lparr>sin_family = AF_INET, sin_port = p, sin_addr = [0, 0, 0, 0]\<rparr>])"
  using udp_ip_add_spec [OF assms(1,2), of "[0, 0, 0, 0]" p] service_udp_add_any [OF assms(3,4), of S s]
  by auto

theorem service_bind_any_address_witness:
  "\<exists>sv. service_udp_add ex_sys 0 (Some (''*:'' @ show_nat 69)) ex_world = Ret (True, with_service ex_world 0 sv)
     \<and> bound_addrs sv = [\<lparr>sin_family = AF_INET, sin_port = 69, sin_addr = [0, 0, 0, 0]\<rparr>]"
  using service_bind_any_address [of 0 ex_world 69 ex_sys] ex_service_ok by fastforce

text \<open>
  A UDP service bound to any address does not start: with sockets that work, its
  listener is created without a name, and adding it to the list is undefined behaviour.
\<close>

theorem service_start_udp_undefined:
  assumes "working_sockets S" "s < length (l_services w)" "service_ok (l_services w ! s)"
    and "bound_addrs (l_services w ! s) \<noteq> []"
  shows "l_service_start_udp S s w = Undef ''listener_add: l->name[0] = 0 with NULL name''"
  using assms by (rule start_udp_undefined)

theorem service_start_udp_undefined_witness:
  "\<exists>w. service_udp_add ex_sys 0 (Some (''*:'' @ show_nat 69)) ex_world = Ret (True, w)
     \<and> l_service_start_udp ex_sys 0 w = Undef ''listener_add: l->name[0] = 0 with NULL name''"
proof -
  obtain sv :: service_t where r: "l_service_udp_ip_add 0 [0, 0, 0, 0] 69 ex_world = Ret (True, with_service ex_world 0 sv)"
    and sv: "service_ok sv" "bound_addrs sv \<noteq> []"
    using udp_ip_add_spec [of 0 ex_world "[0, 0, 0, 0]" 69] ex_service_ok by fastforce
  have "l_service_start_udp ex_sys 0 (with_service ex_world 0 sv) = Undef ''listener_add: l->name[0] = 0 with NULL name''"
    by (rule service_start_udp_undefined [OF ex_sockets]) (use sv in simp_all)
  with r service_udp_add_any [of 69 ex_sys 0] show ?thesis by auto
qed



text \<open>
  Reading the interfaces of the system enters only interfaces that are up and no
  loopback, each under its own name.
\<close>

theorem device_init_devices:
  assumes "s_have_getifaddrs S" "s_getifaddrs S = Some ifs" "l_devices w = []"
    and "device_init S w = Ret ((), w')"
  shows "(\<forall>d \<in> set (l_devices w'). \<exists>n \<in> set ifs. d_name d = ifa_name n \<and> ifa_up n \<and> \<not> ifa_loopback n)
     \<and> distinct (map d_name (l_devices w'))"
proof -
  have "keeps devices_ok (device_init S)" by (rule keeps_device_init)
  then have "devices_ok w'" using keepsD [of devices_ok "device_init S" w "()" w'] assms(3,4) devices_ok_empty by blast
  then have "distinct (map d_name (l_devices w'))"
    by (simp add: devices_ok_def dr.unique_keys_def pairwise_def distinct_conv_nth)
  then show ?thesis using device_init_from [OF assms] by (simp add: devices_from_def)
qed

theorem device_init_devices_witness:
  "\<exists>w'. device_init ex_sys (ex_world\<lparr>l_devices := []\<rparr>) = Ret ((), w') \<and> map d_name (l_devices w') = [''eth0'']
     \<and> distinct (map d_name (l_devices w'))"
proof -
  let ?w = "ex_world\<lparr>l_devices := []\<rparr>"
  have ifs: "s_getifaddrs ex_sys = Some [\<lparr>ifa_name = ''lo'', ifa_flags = 9, ifa_loopback = True, ifa_up = True, ifa_addr = Ifa_other\<rparr>,
       \<lparr>ifa_name = ''eth0'', ifa_flags = 1, ifa_loopback = False, ifa_up = True, ifa_addr = Ifa_inet [10, 0, 0, 1]\<rparr>]"
    by (simp add: ex_sys_def)
  obtain w' where r: "device_init ex_sys ?w = Ret ((), w')" "map d_name (l_devices w') = [''eth0'']"
    by (simp add: device_init_def ifs andthen_def bnd_run device_interface_def device_index_def device_add_def
        device_note_at_def device_update_def log_msg_run device_note_def util_ip_valid_def device_new_def)
  with device_init_devices [OF _ ifs _ r(1)] show ?thesis by auto
qed

section \<open>RARP\<close>

text \<open>A RARP header written to a frame is read back unchanged, whatever follows it.\<close>

theorem rarp_header_roundtrip:
  assumes "rarp_wf r"
  shows "rarp_decode (rarp_encode r @ rest) = Some r \<and> length (rarp_encode r) = sizeof_rarp"
  using rarp_decode_encode [OF assms] length_rarp_encode [OF assms] by simp

definition ex_rarp :: rarp_header where
  "ex_rarp = \<lparr>ra_daddr = replicate 6 0xFF, ra_saddr = [0, 0, 0, 0, 0, 1], ra_type = ETHERTYPE_REVARP,
     ra_hrd = ARPHRD_ETHER, ra_pro = ETHERTYPE_IP, ra_hln = 6, ra_pln = 4, ra_op = ARPOP_REVREQUEST,
     ra_sha = [0, 0, 0, 0, 0, 1], ra_spa = replicate 4 0, ra_tha = [0, 0, 0, 0, 0, 1], ra_tpa = replicate 4 0\<rparr>"

theorem rarp_header_roundtrip_witness: "rarp_decode (rarp_encode ex_rarp @ [7, 7]) = Some ex_rarp"
  using rarp_header_roundtrip [of ex_rarp "[7, 7]"] by (simp add: rarp_wf_def ex_rarp_def)

text \<open>
  C31. A RARP request that arrives in a frame, for the Ethernet address of a host that may use
  RARP: the daemon enters the host in the system's ARP table and sends no frame at all,
  because the reply it builds has 60 bytes and the link listener sends nothing below 62.
\<close>

theorem rarp_request_never_answered:
  assumes h: "hosts w xs" and cl: "find (\<lambda>a. h_eth (host_at w a) = ra_tha req) xs = Some a"
    and sv: "h_service (host_at w a) AND SERVICE_RARP \<noteq> 0"
    and l: "lheap w l = Some r" "l_send r = Some Link_send"
    and req: "rarp_wf req" "is_rarp (rarp_encode req)" "ra_op req = ARPOP_REVREQUEST"
    and len: "int (LIBNET_ETH_H + s_arp_hdr_size S) \<le> len"
    and s: "s_socket S (trace w) = Some s" "s_arp_ioctl S (trace w @ [OpenSocket])"
  shows "runs (i_listener_link_pcap_callback S l (rarp_encode req @ rest) len) w ()
     (w\<lparr>trace := trace w @ [OpenSocket, ArpSet (h_ip (host_at w a)) (h_eth (host_at w a)), CloseFd s],
        fdtab := (fdtab w)(s := None)\<rparr>)" (is "runs _ w () ?w")
proof -
  have ty: "ra_type req = ETHERTYPE_REVARP" and rr: "is_rarp (rarp_encode req @ rest)"
    using is_rarp_encode [OF req(1), of "[]"] is_rarp_encode [OF req(1), of rest] req(2) by simp_all
  have "runs (rarp_request S l req) (w\<lparr>logs := ls\<rparr>) () ?w" for ls
    by (rule runs_upto_logs [OF rarp_request_runs [where w = "w\<lparr>logs := ls\<rparr>" and xs = xs and a = a and r = r and s = s]])
      (use h cl sv l req(3) s in \<open>simp_all add: hosts_def host_at_def\<close>)
  then show ?thesis
    unfolding callback_rarp [OF req(1) ty] rarp_handler_request [OF req(1) rr len]
    by (intro runs_andthen [OF runs_log_msg]) simp_all
qed

theorem rarp_request_never_answered_witness:
  "runs (i_listener_link_pcap_callback ex_sys 5 (rarp_encode ex_rarp) 42) ex_world ()
     (ex_world\<lparr>trace := [OpenSocket, ArpSet [10, 0, 0, 2] [0, 0, 0, 0, 0, 1], CloseFd 9],
        fdtab := (fdtab ex_world)(9 := None)\<rparr>)"
proof -
  have "rarp_wf ex_rarp" by (simp add: rarp_wf_def ex_rarp_def)
  moreover from this have "is_rarp (rarp_encode ex_rarp)" using is_rarp_encode [of ex_rarp "[]"] by (simp add: ex_rarp_def)
  moreover have "h_eth ex_alpha = [0, 0, 0, 0, 0, 1]" "ra_tha ex_rarp = [0, 0, 0, 0, 0, 1]"
    "ra_op ex_rarp = ARPOP_REVREQUEST" "l_send ex_link = Some Link_send"
    by (simp_all add: ex_alpha_def ex_rarp_def ex_link_def)
  ultimately show ?thesis
    using rarp_request_never_answered [OF ex_hosts(1), where a = 2 and l = 5 and r = ex_link and req = ex_rarp
        and S = ex_sys and len = 42 and s = 9 and rest = "[]"]
    by (simp add: host_at_def)
qed

section \<open>RMP\<close>


definition ex_rmp :: rmp_header where
  "ex_rmp = \<lparr>rm_daddr = rmp_addr, rm_saddr = [0, 0, 0, 0, 0, 1], rm_len = 100, rm_dsap = SAP_HP, rm_ssap = SAP_HP,
     rm_cntl = CNTL_HP, rm_pad = 0, rm_dxsap = DXSAP_HP, rm_sxsap = SXSAP_HP, rm_type = RMPOP_READ_REQ,
     rm_retcode = 0, rm_seqh = 0, rm_seql = 0, rm_session = 3\<rparr>"

lemma ex_rmp_wf: "rmp_wf ex_rmp" "rmp_seq ex_rmp = 0"
  by (simp_all add: rmp_wf_def ex_rmp_def rmp_seq_def to_int32_def)


text \<open>A frame that is not addressed to the RMP multicast address or to us, or has other SAPs, is ignored.\<close>

theorem rmp_ignores_other_frames:
  assumes "rmp_decode p = Some req" "lheap w l = Some r" "\<not> for_us r req"
  shows "rmp_handler S l p pktlen w = Ret ((), w)"
  using assms by (rule rmp_not_for_us)

theorem rmp_ignores_other_frames_witness:
  "rmp_handler ex_sys 5 (rmp_encode (ex_rmp\<lparr>rm_daddr := [9, 9, 9, 9, 9, 9]\<rparr>)) 32 ex_world = Ret ((), ex_world)"
proof (rule rmp_ignores_other_frames)
  show "rmp_decode (rmp_encode (ex_rmp\<lparr>rm_daddr := [9, 9, 9, 9, 9, 9]\<rparr>)) = Some (ex_rmp\<lparr>rm_daddr := [9, 9, 9, 9, 9, 9]\<rparr>)"
    using rmp_decode_encode [of "ex_rmp\<lparr>rm_daddr := [9, 9, 9, 9, 9, 9]\<rparr>" "[]"] ex_rmp_wf by (simp add: rmp_wf_def)
  show "lheap ex_world 5 = Some ex_link" by simp
  show "\<not> for_us ex_link (ex_rmp\<lparr>rm_daddr := [9, 9, 9, 9, 9, 9]\<rparr>)"
    by (simp add: for_us_def ex_link_def)
qed










section \<open>DHCP and bootparam\<close>

text \<open>Whatever packet the BOOTP handler gets, it does nothing but write log lines.\<close>

theorem dhcp_has_no_effect:
  assumes "dhcp_handler l p w = Ret (x, w')"
  shows "w'\<lparr>logs := []\<rparr> = w\<lparr>logs := []\<rparr>"
  using assms by (rule dhcp_only_logs)

theorem dhcp_has_no_effect_witness:
  "\<exists>w'. dhcp_handler 4 (replicate 3 0 @ [17] @ replicate 300 0) ex_world = Ret ((), w')
     \<and> w'\<lparr>logs := []\<rparr> = ex_world\<lparr>logs := []\<rparr>"
proof -
  obtain w' where r: "dhcp_handler 4 (replicate 3 0 @ [17] @ replicate 300 0) ex_world = Ret ((), w')"
    by (simp add: dhcp_handler_def nth_append log_msg_run)
  from dhcp_has_no_effect [OF r] r show ?thesis by blast
qed

text \<open>
  C37. A whoami reply is given only for the address of a configured host that may use
  bootparam, names that host, and gives the address of the listener whose descriptor number
  equals the transport's port number.
\<close>

theorem whoami_reply:
  assumes "bootparamproc_whoami ip xp_port w = Ret (Some res, w')"
  shows "\<exists>a h l r. hheap w a = Some h \<and> h_ip h = ip \<and> h_service h AND SERVICE_BOOTPARM \<noteq> 0
     \<and> lheap w l = Some r \<and> l_fd r = xp_port
     \<and> res = \<lparr>wr_client_name = h_name h, wr_domain_name = '''', wr_router_address = l_ip r\<rparr>"
  using assms by (rule whoami_answer)

theorem whoami_reply_witness:
  "\<exists>res w'. bootparamproc_whoami [10, 0, 0, 2] 5 ex_world = Ret (Some res, w')
     \<and> (\<exists>a h. hheap ex_world a = Some h \<and> h_ip h = [10, 0, 0, 2] \<and> wr_client_name res = h_name h)"
proof -
  obtain ls where log: "log_msg (LOG_INFO OR LOG_BOOT) ''bootparam whoami request from %s ipaddress %s'' ex_world =
      Ret ((), ex_world\<lparr>logs := ls\<rparr>)"
    by (simp add: log_msg_run)
  let ?w = "ex_world\<lparr>logs := ls\<rparr>"
  obtain ls2 where log2: "log_msg (LOG_INFO OR LOG_BOOT) ''bootparam whoami reply to %s'' ?w = Ret ((), ex_world\<lparr>logs := ls2\<rparr>)"
    by (simp add: log_msg_run)
  have "util_ip2host [10, 0, 0, 2] ?w = Ret (Some 2, ?w)"
    using util_ip2host_run [of ?w "[2, 3]" "[10, 0, 0, 2]"] ex_hosts(1) by (simp add: hosts_def host_at_def)
  moreover have "listener_search_by_fd 5 ?w = Ret (Some 5, ?w)"
    using listener_search_run [of ?w "[4, 5]" 5] ex_listeners(1)
    by (simp add: listeners_def listener_at_def ex_udp_def ex_link_def)
  ultimately obtain res w' where r: "bootparamproc_whoami [10, 0, 0, 2] 5 ex_world = Ret (Some res, w')"
    using log log2 by (auto simp: bootparamproc_whoami_def bootparam_host_def bootparam_listener_def andthen_def bnd_run
        simp del: LOG_INFO_def LOG_BOOT_def)
  obtain a h where "hheap ex_world a = Some h" "h_ip h = [10, 0, 0, 2]" "wr_client_name res = h_name h"
    using whoami_reply [OF r] by (metis whoami_res.select_convs(1))
  with r show ?thesis by blast
qed

text \<open>
  C38. A getfile reply is given only to a client named like a configured host that may use
  bootparam, and describes one of this host's files that is allowed for bootparam.
\<close>

theorem getfile_reply:
  assumes "bootparamproc_getfile cname file_id xp_port w = Ret (Some res, w')"
  shows "\<exists>a h n f l r. hheap w a = Some h \<and> h_name h = Some n \<and> strcaseeq cname n
     \<and> h_service h AND SERVICE_BOOTPARM \<noteq> 0 \<and> f \<in> set (h_files h) \<and> f_service f AND SERVICE_BOOTPARM \<noteq> 0
     \<and> lheap w l = Some r \<and> l_fd r = xp_port
     \<and> res = \<lparr>gr_server_name = f_server f, gr_server_path = f_path f, gr_server_address = l_ip r\<rparr>"
  using assms by (rule getfile_answer)

theorem getfile_reply_witness:
  "\<exists>res w'. bootparamproc_getfile ''alpha'' ''kernel'' 5 ex_world = Ret (Some res, w')
     \<and> (\<exists>a h f. hheap ex_world a = Some h \<and> f \<in> set (h_files h) \<and> gr_server_path res = f_path f)"
proof -
  obtain ls where log: "log_msg (LOG_INFO OR LOG_BOOT) ''bootparam getfile request from %s client_name %s, file_id %s'' ex_world =
      Ret ((), ex_world\<lparr>logs := ls\<rparr>)"
    by (simp add: log_msg_run)
  let ?w = "ex_world\<lparr>logs := ls\<rparr>"
  obtain ls2 where log2: "log_msg (LOG_INFO OR LOG_BOOT) ''bootparam getfile reply from %s to %s'' ?w = Ret ((), ex_world\<lparr>logs := ls2\<rparr>)"
    by (simp add: log_msg_run)
  have "util_name2host ''alpha'' ?w = Ret (Some 2, ?w)"
    using util_name2host_run [of ?w "[2, 3]" "''alpha''"] ex_named by (simp add: named_hosts_def hosts_def host_at_def)
  moreover have "util_name2file (Some 2) SERVICE_BOOTPARM (Some ''kernel'') 0 ?w = Ret (Some ex_file, ?w)"
    by (simp add: util_name2file_def bnd_run file_ranks_def i_file_match_def ex_file_def)
  moreover have "listener_search_by_fd 5 ?w = Ret (Some 5, ?w)"
    using listener_search_run [of ?w "[4, 5]" 5] ex_listeners(1)
    by (simp add: listeners_def listener_at_def ex_udp_def ex_link_def)
  ultimately obtain res w' where r: "bootparamproc_getfile ''alpha'' ''kernel'' 5 ex_world = Ret (Some res, w')"
    using log log2 by (auto simp: bootparamproc_getfile_def bootparam_host_def bootparam_listener_def andthen_def bnd_run
        simp del: LOG_INFO_def LOG_BOOT_def)
  obtain a h f where "hheap ex_world a = Some h" "f \<in> set (h_files h)" "gr_server_path res = f_path f"
    using getfile_reply [OF r] by (metis getfile_res.select_convs(2))
  with r show ?thesis by blast
qed

section \<open>Logging\<close>



section \<open>Replacements of string functions\<close>

text \<open>
  C40. The replacement of \<open>strncpy\<close>, on a destination of exactly the size it is given: a string
  with room to spare is copied with its terminator; one whose terminator would just fit is
  copied without it; and a longer one, which the function is to cut, is terminated one place
  behind the destination.
\<close>

theorem replace_strncpy_bounds:
  assumes "\<forall>c \<in> set s. c \<noteq> NUL" "length dst = sz" "0 < sz"
  shows "replace_strncpy dst (s @ NUL # rest) sz =
     (if length s + 1 < sz then Ret (length s, s @ NUL # drop (Suc (length s)) dst)
      else if length s + 1 = sz then Ret (length s, s @ [last dst])
      else Undef ''write behind the array'')"
  using replace_strncpy_fits [OF assms(1)] replace_strncpy_unterminated [OF assms(1) _ assms(2)]
    replace_strncpy_overflow [OF assms(1,3) _ assms(2)] assms(2) by auto

theorem replace_strncpy_bounds_witness:
  "replace_strncpy ''xxx'' (''abc'' @ [NUL]) 3 = Undef ''write behind the array''
     \<and> replace_strncpy ''xxx'' (''ab'' @ [NUL]) 3 = Ret (2, ''abx'')"
  using replace_strncpy_bounds [of "''abc''" "''xxx''" 3 "[]"] replace_strncpy_bounds [of "''ab''" "''xxx''" 3 "[]"]
  by (simp add: NUL_def char_of_def)

end
